(* ===== verification/Prelude.thy ===== *)
theory Prelude
  imports Main "HOL-Library.Word" "HOL-Library.Multiset" "HOL-Library.AList"
begin

text \<open>
  Shared vocabulary of the development.

  The C++ machine integers are words (\<open>size_t\<close> and \<open>uint64_t\<close> are \<open>u64\<close>, a byte is an
  \<open>8 word\<close>); a pointer is a \<open>u64\<close> address with \<open>0\<close> for \<open>nullptr\<close>.

  The result of running a piece of code is a \<open>run\<close>: the log messages it produced, in order,
  and either a fault or a value. A fault is the point where the C++ program has no defined
  continuation (an out-of-range access, a null dereference, \<dots>) or leaves the program
  (\<open>exit\<close>); the messages logged before it are kept.

  A failed \<open>CC_CHECK\<close> is \<^emph>\<open>not\<close> a fault: the macro of utils/Logging.h expands to a temporary
  \<open>LogMessage\<close> of severity \<open>FATAL\<close>, whose destructor writes the message and returns; the
  class that calls the failure function (\<open>LogMessageFatal\<close>) is never instantiated. So a
  failed check is a message in the log and the code goes on, and \<open>cc_check\<close> says so.
\<close>

type_synonym byte = "8 word"
type_synonym u64 = "64 word"
type_synonym ptr = u64

named_theorems run_simps \<open>equations that execute the run combinators\<close>
named_theorems inv_intros \<open>introduction rules: an operation keeps a component's invariant\<close>

section \<open>Log messages, faults and runs\<close>

datatype severity = INFO | WARNING | ERROR | FATAL

datatype log_record = LogRecord severity string

datatype fault =
    OutOfBounds      \<comment> \<open>index past the end of a vector or array\<close>
  | NullDeref        \<comment> \<open>dereference of a null pointer\<close>
  | EmptyContainer   \<comment> \<open>\<open>top()\<close>, \<open>front()\<close> or \<open>back()\<close> of an empty container\<close>
  | Indeterminate    \<comment> \<open>use of an uninitialised value\<close>
  | UseAfterFree     \<comment> \<open>access to a destroyed object\<close>
  | BadFree          \<comment> \<open>\<open>free\<close> of a pointer that is not an allocated block\<close>
  | Exception        \<comment> \<open>a C++ exception leaves the code\<close>
  | Exit int         \<comment> \<open>the process calls \<open>exit\<close> with this status\<close>
  | Abort            \<comment> \<open>the process calls the failure function, by default \<open>abort\<close>\<close>

type_synonym 'a run = "log_record list \<times> (fault + 'a)"

definition return :: "'a \<Rightarrow> 'a run" where
  "return x = ([], Inr x)"

definition fail :: "fault \<Rightarrow> 'a run" where
  "fail f = ([], Inl f)"

definition bind :: "'a run \<Rightarrow> ('a \<Rightarrow> 'b run) \<Rightarrow> 'b run" where
  "bind m k = (case m of
      (l, Inl f) \<Rightarrow> (l, Inl f)
    | (l, Inr x) \<Rightarrow> (case k x of (l', r) \<Rightarrow> (l @ l', r)))"

definition log_msg :: "severity \<Rightarrow> string \<Rightarrow> unit run" where
  "log_msg s msg = ([LogRecord s msg], Inr ())"

definition cc_check :: "string \<Rightarrow> bool \<Rightarrow> unit run" where
  "cc_check msg c = (if c then ([], Inr ()) else ([LogRecord FATAL msg], Inr ()))"

definition run_log :: "'a run \<Rightarrow> log_record list" where
  "run_log m = fst m"

definition run_value :: "'a run \<Rightarrow> fault + 'a" where
  "run_value m = snd m"

lemma bind_return [simp, run_simps]: "bind (return x) k = k x"
  by (simp add: bind_def return_def)

lemma bind_return_right [simp, run_simps]: "bind m return = m"
  by (cases m) (auto simp: bind_def return_def split: sum.splits)

lemma bind_fail [simp, run_simps]: "bind (fail f) k = fail f"
  by (simp add: bind_def fail_def)

lemma bind_assoc [run_simps]: "bind (bind m k) h = bind m (\<lambda>x. bind (k x) h)"
  by (cases m) (auto simp: bind_def split: sum.splits prod.splits)

lemma bind_check_True [simp, run_simps]: "bind (cc_check msg True) k = k ()"
  by (simp add: bind_def cc_check_def)

lemma cc_check_True [simp, run_simps]: "cc_check msg True = return ()"
  by (simp add: cc_check_def return_def)

lemma bind_Inr [run_simps]: "bind (l, Inr x) k = (case k x of (l', r) \<Rightarrow> (l @ l', r))"
  by (simp add: bind_def)

lemma bind_Inl [run_simps]: "bind (l, Inl f) k = (l, Inl f)"
  by (simp add: bind_def)

lemma bind_InrE:
  assumes "bind m k = (l, Inr y)"
  obtains l1 x l2 where "m = (l1, Inr x)" "k x = (l2, Inr y)" "l = l1 @ l2"
proof (cases m)
  case (Pair l1 r)
  show ?thesis
  proof (cases r)
    case (Inl f)
    with Pair assms show ?thesis by (simp add: bind_def)
  next
    case (Inr x)
    obtain l2 r2 where k: "k x = (l2, r2)" by (cases "k x") auto
    with Pair Inr assms have "r2 = Inr y" "l = l1 @ l2" by (auto simp: bind_def)
    with that Pair Inr k show ?thesis by blast
  qed
qed

lemma return_eq_iff [simp, run_simps]: "return x = (l, r) \<longleftrightarrow> l = [] \<and> r = Inr x"
  by (auto simp: return_def)

lemma fail_eq_iff [simp, run_simps]: "fail f = (l, r) \<longleftrightarrow> l = [] \<and> r = Inl f"
  by (auto simp: fail_def)

lemma return_inject [simp]: "return x = return y \<longleftrightarrow> x = y"
  by (simp add: return_def)

lemma fail_inject [simp]: "fail f = fail g \<longleftrightarrow> f = g"
  by (simp add: fail_def)

lemma return_not_fail [simp]: "return x \<noteq> fail f" "fail f \<noteq> return x"
  by (simp_all add: return_def fail_def)

lemma snd_return [simp, run_simps]: "snd (return x) = Inr x"
  by (simp add: return_def)

lemma snd_fail [simp, run_simps]: "snd (fail f) = Inl f"
  by (simp add: fail_def)

lemma fst_return [simp, run_simps]: "fst (return x) = []"
  by (simp add: return_def)

lemma fst_fail [simp, run_simps]: "fst (fail f) = []"
  by (simp add: fail_def)

lemma snd_cc_check [simp, run_simps]: "snd (cc_check msg c) = Inr ()"
  by (simp add: cc_check_def)

lemma snd_bind_check [simp, run_simps]: "snd (bind (cc_check msg c) k) = snd (k ())"
  by (simp add: bind_def cc_check_def split: prod.splits)

lemma snd_bind_log [simp, run_simps]: "snd (bind (log_msg s msg) k) = snd (k ())"
  by (simp add: bind_def log_msg_def split: prod.splits)

lemma snd_bind_Inr [run_simps]: "snd m = Inr x \<Longrightarrow> snd (bind m k) = snd (k x)"
  by (cases m) (auto simp: bind_def split: prod.splits)

lemma snd_bind_Inl [run_simps]: "snd m = Inl f \<Longrightarrow> snd (bind m k) = Inl f"
  by (cases m) (auto simp: bind_def)

lemma snd_bind_InrE:
  assumes "snd (bind m k) = Inr y"
  obtains x where "snd m = Inr x" "snd (k x) = Inr y"
  using assms by (cases "snd m") (auto simp: snd_bind_Inr snd_bind_Inl)

lemma fst_bind: "snd m = Inr x \<Longrightarrow> fst (bind m k) = fst m @ fst (k x)"
  by (cases m) (auto simp: bind_def split: prod.split)

lemma fst_bind_check [simp]:
  "fst (bind (cc_check msg c) k) = (if c then [] else [LogRecord FATAL msg]) @ fst (k ())"
  by (simp add: bind_def cc_check_def split: prod.split)

lemma fst_bind_nonempty: "fst m \<noteq> [] \<Longrightarrow> fst (bind m k) \<noteq> []"
  by (cases m) (auto simp: bind_def split: sum.splits prod.splits)

section \<open>Generic facts on lists\<close>

lemma take_update_same [simp]: "take n (xs[n := y]) = take n xs"
  by (simp add: list_eq_iff_nth_eq nth_list_update)

lemma nth_append_middle [simp]: "(xs @ y # ys) ! length xs = y"
  by (simp add: nth_append)

lemma update_append_middle [simp]: "(xs @ y # ys)[length xs := z] = xs @ z # ys"
  by (simp add: list_update_append)

lemma sum_list_nth_remove1:
  fixes xs :: "nat list"
  shows "x \<in> set xs \<Longrightarrow> sum_list (remove1 x xs) + x = sum_list xs"
  by (induction xs) auto

section \<open>Generic facts on 64-bit words\<close>

lemma unat_u64_less: "unat (x :: u64) < 2 ^ 64"
  using unsigned_less [of x] by simp

lemma unat_add_u64:
  "unat (x :: u64) + unat y < 2 ^ 64 \<Longrightarrow> unat (x + y) = unat x + unat y"
  by (simp add: unat_word_ariths)

lemma unat_sub_u64: "y \<le> (x :: u64) \<Longrightarrow> unat (x - y) = unat x - unat y"
  by (simp add: unat_sub)

lemma unat_of_nat_u64: "n < 2 ^ 64 \<Longrightarrow> unat (of_nat n :: u64) = n"
  by (simp add: unat_of_nat take_bit_eq_mod)

lemma unat_mult_u64:
  "unat (x :: u64) * unat y < 2 ^ 64 \<Longrightarrow> unat (x * y) = unat x * unat y"
  by (simp add: unat_word_ariths)

text \<open>Clearing the low bits rounds down to a multiple; \<open>(x + (2^k - 1)) & ~(2^k - 1)\<close> rounds up.\<close>

lemma unat_and_not_mask: "unat (and x (not (mask k :: u64))) = unat x - unat x mod 2 ^ k"
proof -
  have "x - and x (mask k) = and x (not (and x (mask k)))"
    by (rule disjunctive_diff_eq_and_not) (simp add: bit_eq_iff bit_simps)
  also have "\<dots> = and x (not (mask k))" by (rule bit_word_eqI) (auto simp: bit_simps)
  finally have "and x (not (mask k)) = x - take_bit k x" by (simp only: take_bit_eq_mask)
  moreover have "take_bit k x \<le> x" by (metis take_bit_eq_mask word_and_le2)
  moreover have "unat (take_bit k x) = unat x mod 2 ^ k"
    using unsigned_take_bit_eq [of k x, where 'a = nat] by (simp only: take_bit_eq_mod)
  ultimately show ?thesis by (simp only: unat_sub)
qed

lemma unat_power_u64: "k < 64 \<Longrightarrow> unat (2 ^ k :: u64) = 2 ^ k"
  using unat_of_nat_u64 [of "2 ^ k"] power_strict_increasing [of k 64 "2 :: nat"] by simp

lemma unat_mask_u64: "k < 64 \<Longrightarrow> unat (mask k :: u64) = 2 ^ k - 1"
proof -
  assume "k < 64"
  note k = unat_power_u64 [OF this]
  have "1 \<le> (2 ^ k :: u64)" unfolding word_le_nat_alt k by simp
  then have "unat (2 ^ k - 1 :: u64) = 2 ^ k - 1" by (simp add: unat_sub_u64 k)
  then show ?thesis by (simp add: mask_eq_exp_minus_1)
qed

lemma unat_round_up:
  assumes "k < 64" "unat x + (2 ^ k - 1) < 2 ^ 64"
  shows "unat (and (x + mask k) (not (mask k :: u64))) = (unat x + (2 ^ k - 1)) div 2 ^ k * 2 ^ k"
proof -
  have "unat (mask k :: u64) = 2 ^ k - 1" by (rule unat_mask_u64 [OF assms(1)])
  then have "unat (x + mask k) = unat x + (2 ^ k - 1)" using assms(2) by (subst unat_add_u64) simp_all
  then show ?thesis unfolding unat_and_not_mask by (simp add: minus_mod_eq_div_mult)
qed

lemma round_up_bounds:
  fixes x k :: nat
  shows "x \<le> (x + (2 ^ k - 1)) div 2 ^ k * 2 ^ k" "(x + (2 ^ k - 1)) div 2 ^ k * 2 ^ k \<le> x + (2 ^ k - 1)"
proof -
  have "(x + (2 ^ k - 1)) div 2 ^ k * 2 ^ k + (x + (2 ^ k - 1)) mod 2 ^ k = x + (2 ^ k - 1)" by (rule div_mult_mod_eq)
  moreover have "(x + (2 ^ k - 1)) mod 2 ^ k < 2 ^ k" by (rule mod_less_divisor) simp
  ultimately show "x \<le> (x + (2 ^ k - 1)) div 2 ^ k * 2 ^ k" "(x + (2 ^ k - 1)) div 2 ^ k * 2 ^ k \<le> x + (2 ^ k - 1)"
    by linarith+
qed

text \<open>Reading a 64-bit word as an \<open>int64_t\<close>.\<close>

lemma sint_u64:
  assumes "n = unat (b :: u64)"
  shows "sint b = (if n < 2 ^ 63 then int n else int n - 2 ^ 64)"
proof -
  have r: "- (2 ^ 63) \<le> sint b" "sint b < 2 ^ 63" using sint_ge [of b] sint_lt [of b] by simp_all
  have u: "int n = sint b mod 2 ^ 64" using assms uint_sint [of b] by (simp add: take_bit_eq_mod)
  show ?thesis
  proof (cases "0 \<le> sint b")
    case True
    then have "int n = sint b" using u r by simp
    then show ?thesis using r by simp
  next
    case False
    then have "sint b mod 2 ^ 64 = sint b + 2 ^ 64"
      using r by (intro int_mod_pos_eq [where q = "- 1"]) simp_all
    then have "int n = sint b + 2 ^ 64" using u by simp
    then show ?thesis using r by simp
  qed
qed

lemma sint_index_u64:
  fixes b :: u64
  assumes "n < 2 ^ 63"
  shows "0 \<le> sint b \<and> sint b < int n \<longleftrightarrow> unat b < n" "0 \<le> sint b \<and> nat (sint b) < n \<longleftrightarrow> unat b < n"
proof -
  obtain k where k: "k = unat b" by blast
  have "k < 2 ^ 64" unfolding k by (rule unat_u64_less)
  then show "0 \<le> sint b \<and> sint b < int n \<longleftrightarrow> unat b < n" "0 \<le> sint b \<and> nat (sint b) < n \<longleftrightarrow> unat b < n"
    using assms unfolding sint_u64 [OF k] k [symmetric] by auto
qed

end
