(* ===== verification/NumParse.thy ===== *)
theory NumParse
  imports Prelude
begin

text \<open>
  The parts of the C++ standard library's number parsing and printing that the sources use:
  \<open>std::stoi\<close> (utils/Logging.cpp, through \<open>strtol\<close>), \<open>operator>>\<close> of an \<open>istringstream\<close> into
  \<open>int32_t\<close>, \<open>int64_t\<close> and \<open>uint64_t\<close> (utils/StringUtils.h), and the decimal printing of
  \<open>printf("%d")\<close>. All are for the classic locale and base 10, the flags the sources leave as
  they are. Nothing here is code of the repository; the theories that model code use it.
\<close>

section \<open>Characters\<close>

definition char_code :: "char \<Rightarrow> nat" where
  "char_code c = of_char c"

definition is_space :: "char \<Rightarrow> bool" where
  "is_space c \<longleftrightarrow> c = CHR '' '' \<or> (9 \<le> char_code c \<and> char_code c \<le> 13)"

definition is_digit :: "char \<Rightarrow> bool" where
  "is_digit c \<longleftrightarrow> 48 \<le> char_code c \<and> char_code c \<le> 57"

definition digit_val :: "char \<Rightarrow> nat" where
  "digit_val c = char_code c - 48"

definition digit_char :: "nat \<Rightarrow> char" where
  "digit_char d = char_of (48 + d)"

lemma char_code_char_of: "n < 256 \<Longrightarrow> char_code (char_of n) = n"
  by (simp add: char_code_def)

lemma digit_char_digit [simp]: "d < 10 \<Longrightarrow> is_digit (digit_char d)"
  by (simp add: is_digit_def digit_char_def char_code_char_of)

lemma digit_val_digit_char [simp]: "d < 10 \<Longrightarrow> digit_val (digit_char d) = d"
  by (simp add: digit_val_def digit_char_def char_code_char_of)

lemma digit_not_space [simp]: "is_digit c \<Longrightarrow> \<not> is_space c"
  by (auto simp: is_digit_def is_space_def char_code_def)

lemma digit_not_sign: "is_digit c \<Longrightarrow> c \<noteq> CHR ''-'' \<and> c \<noteq> CHR ''+''"
  by (auto simp: is_digit_def char_code_def)

lemma digit_char_table [simp]:
  "digit_char 0 = CHR ''0''" "digit_char 1 = CHR ''1''" "digit_char 2 = CHR ''2''" "digit_char 3 = CHR ''3''" "digit_char 4 = CHR ''4''" 
  "digit_char 5 = CHR ''5''" "digit_char 6 = CHR ''6''" "digit_char 7 = CHR ''7''" "digit_char 8 = CHR ''8''" "digit_char 9 = CHR ''9''"
  by code_simp+

section \<open>Values of digit strings\<close>

definition digits_value :: "string \<Rightarrow> nat" where
  "digits_value ds = foldl (\<lambda>n c. 10 * n + digit_val c) 0 ds"

lemma digits_value_snoc: "digits_value (ds @ [c]) = 10 * digits_value ds + digit_val c"
  by (simp add: digits_value_def)

text \<open>A sign, if there is one, then the rest.\<close>

fun read_sign :: "string \<Rightarrow> bool \<times> string" where
  "read_sign (c # s) = (if c = CHR ''-'' then (True, s) else if c = CHR ''+'' then (False, s)
     else (False, c # s))"
| "read_sign [] = (False, [])"

definition signed_value :: "bool \<Rightarrow> nat \<Rightarrow> int" where
  "signed_value neg n = (if neg then - int n else int n)"

section \<open>Decimal printing\<close>

fun show_nat :: "nat \<Rightarrow> string" where
  "show_nat n = (if n < 10 then [digit_char n] else show_nat (n div 10) @ [digit_char (n mod 10)])"

declare show_nat.simps [simp del]

definition show_int :: "int \<Rightarrow> string" where
  "show_int i = (if i < 0 then CHR ''-'' # show_nat (nat (- i)) else show_nat (nat i))"

lemma show_nat_digits: "\<forall>c \<in> set (show_nat n). is_digit c"
proof (induction n rule: show_nat.induct)
  case (1 n)
  then show ?case by (subst show_nat.simps) auto
qed

lemma show_nat_nonempty [simp]: "show_nat n \<noteq> []"
  by (subst show_nat.simps) simp

lemma digits_value_show_nat [simp]: "digits_value (show_nat n) = n"
proof (induction n rule: show_nat.induct)
  case (1 n)
  then show ?case
    by (subst show_nat.simps) (auto simp: digits_value_snoc, simp add: digits_value_def)
qed

section \<open>Integral types and extraction\<close>

datatype int_type = Int32 | Int64 | UInt64

fun type_min :: "int_type \<Rightarrow> int" where
  "type_min Int32 = - (2 ^ 31)"
| "type_min Int64 = - (2 ^ 63)"
| "type_min UInt64 = 0"

fun type_max :: "int_type \<Rightarrow> int" where
  "type_max Int32 = 2 ^ 31 - 1"
| "type_max Int64 = 2 ^ 63 - 1"
| "type_max UInt64 = 2 ^ 64 - 1"

text \<open>
  The value \<open>operator>>\<close> stores and whether it sets \<open>failbit\<close>: an out-of-range magnitude
  stores the nearest bound and fails; for an unsigned type a minus sign negates modulo the
  width and only the magnitude is checked.
\<close>

fun convert :: "int_type \<Rightarrow> bool \<Rightarrow> nat \<Rightarrow> int \<times> bool" where
  "convert UInt64 neg n =
     (if int n > type_max UInt64 then (type_max UInt64, True)
      else (if neg then (- int n) mod 2 ^ 64 else int n, False))"
| "convert ty neg n =
     (let v = signed_value neg n in
      if v < type_min ty then (type_min ty, True)
      else if v > type_max ty then (type_max ty, True)
      else (v, False))"

text \<open>
  \<open>num_get ty s\<close> is \<open>std::istringstream(s) >> v\<close>: the value stored (\<open>None\<close> when the sentry
  already fails, which leaves the variable as it was), \<open>fail()\<close>, and \<open>eof()\<close>.
\<close>

definition num_get :: "int_type \<Rightarrow> string \<Rightarrow> int option \<times> bool \<times> bool" where
  "num_get ty s =
     (let s1 = dropWhile is_space s in
      if s1 = [] then (None, True, True)
      else let (neg, s2) = read_sign s1;
               ds = takeWhile is_digit s2;
               eof = dropWhile is_digit s2 = []
           in if ds = [] then (Some 0, True, eof)
              else let (v, fl) = convert ty neg (digits_value ds) in (Some v, fl, eof))"

text \<open>\<open>std::stoi\<close>: \<open>None\<close> for the exceptions \<open>invalid_argument\<close> and \<open>out_of_range\<close>;
  characters after the number are ignored.\<close>

definition stoi :: "string \<Rightarrow> int option" where
  "stoi s =
     (let (neg, s2) = read_sign (dropWhile is_space s);
          ds = takeWhile is_digit s2;
          v = signed_value neg (digits_value ds)
      in if ds = [] then None
         else if v < type_min Int32 \<or> v > type_max Int32 then None
         else Some v)"

section \<open>Parsing what was printed\<close>

lemma takeWhile_show_nat [simp]: "takeWhile is_digit (show_nat n) = show_nat n"
  using show_nat_digits by (auto simp: takeWhile_eq_all_conv)

lemma dropWhile_show_nat [simp]: "dropWhile is_digit (show_nat n) = []"
  using show_nat_digits by (auto simp: dropWhile_eq_Nil_conv)

lemma show_nat_digit [simp]: "c \<in> set (show_nat n) \<Longrightarrow> is_digit c"
  using show_nat_digits by blast

lemma hd_show_nat_digit: "is_digit (hd (show_nat n))"
  using show_nat_digits hd_in_set[OF show_nat_nonempty] by blast

lemma dropWhile_space_show_nat [simp]: "dropWhile is_space (show_nat n) = show_nat n"
proof -
  obtain c cs where s: "show_nat n = c # cs" by (meson neq_Nil_conv show_nat_nonempty)
  with hd_show_nat_digit [of n] have "is_digit c" by simp
  with s show ?thesis by simp
qed

lemma read_sign_show_nat [simp]: "read_sign (show_nat n) = (False, show_nat n)"
proof -
  obtain c cs where s: "show_nat n = c # cs" by (meson neq_Nil_conv show_nat_nonempty)
  with hd_show_nat_digit [of n] have "is_digit c" by simp
  with s show ?thesis by (simp add: digit_not_sign)
qed

lemma minus_not_space [simp]: "\<not> is_space (CHR ''-'')"
  by (simp add: is_space_def char_code_def)

lemma num_get_show_int:
  assumes "type_min ty \<le> i" "i \<le> type_max ty"
  shows "num_get ty (show_int i) = (Some i, False, True)"
proof (cases "i < 0")
  case True
  then have "show_int i = CHR ''-'' # show_nat (nat (- i))" by (simp add: show_int_def)
  with True assms show ?thesis by (cases ty) (auto simp: num_get_def signed_value_def)
next
  case False
  then have "show_int i = show_nat (nat i)" by (simp add: show_int_def)
  with False assms show ?thesis by (cases ty) (auto simp: num_get_def signed_value_def)
qed

lemma stoi_show_int:
  assumes "- (2 ^ 31) \<le> i" "i < 2 ^ 31"
  shows "stoi (show_int i) = Some i"
  using assms by (auto simp: stoi_def show_int_def signed_value_def Let_def)

text \<open>A successful extraction to the end of the string determines the string's shape.\<close>

lemma convert_in_range:
  assumes "convert ty neg n = (v, False)"
  shows "type_min ty \<le> v \<and> v \<le> type_max ty"
proof (cases ty)
  case UInt64
  with assms show ?thesis
    using pos_mod_bound[of "2 ^ 64 :: int" "- int n"] by (auto split: if_splits)
qed (use assms in \<open>auto simp: Let_def split: if_splits\<close>)

lemma num_get_in_range:
  assumes "num_get ty s = (v, False, eof)"
  shows "\<exists>i. v = Some i \<and> type_min ty \<le> i \<and> i \<le> type_max ty"
  using assms convert_in_range
  by (fastforce simp: num_get_def Let_def split: if_splits prod.splits)

end
