(* ===== verification/Logging.thy ===== *)
theory Logging
  imports Prelude NumParse
begin

text \<open>
  utils/Logging.h and utils/Logging.cpp: the environment readers, the path join, the table
  that sends a severity to file descriptors, its initialisation, and the writing of a message.
  The process environment is a map \<open>string \<rightharpoonup> string\<close> (\<open>getenv\<close>), and \<open>open\<close> of the operating
  system is a parameter from a file name to a descriptor, \<open>-1\<close> on failure. \<open>CC_CHECK\<close> itself
  is \<open>cc_check\<close> of \<open>Prelude\<close>.
\<close>

section \<open>Path join\<close>

definition sep :: char where
  "sep = CHR ''/''"

definition path_join :: "string \<Rightarrow> string \<Rightarrow> string" where
  "path_join part1 part2 =
     (if part2 \<noteq> [] \<and> hd part2 = sep then part2
      else (let return_value = part1;
                return_value = (if return_value \<noteq> [] \<and> last return_value \<noteq> sep
                                then return_value @ [sep] else return_value)
            in return_value @ part2))"

section \<open>Environment readers\<close>

text \<open>The character \<open>env_value[0]\<close> of a C string: the terminator for the empty string.\<close>

definition c_first :: "string \<Rightarrow> char" where
  "c_first s = (case s of [] \<Rightarrow> CHR 0x00 | c # _ \<Rightarrow> c)"

text \<open>
  \<open>env2bool\<close>: the guard is an assignment, \<open>if(env_value = nullptr)\<close>: it sets the pointer to
  null and is false, so the other branch reads \<open>env_value[0]\<close> through it.
\<close>

definition env2bool :: "(string \<rightharpoonup> string) \<Rightarrow> string \<Rightarrow> bool \<Rightarrow> bool run" where
  "env2bool env env_name default_value =
     (let env_value = env env_name;
          env_value = (None :: string option);
          guard = (env_value \<noteq> None)
      in if guard then return default_value
         else (case env_value of
                 None \<Rightarrow> fail NullDeref
               | Some s \<Rightarrow> return (c_first s \<in> set ''tTyY1'' \<union> {CHR 0x00})))"

definition env2int :: "(string \<rightharpoonup> string) \<Rightarrow> string \<Rightarrow> int \<Rightarrow> int" where
  "env2int env env_name default_value =
     (case env env_name of
        None \<Rightarrow> default_value
      | Some s \<Rightarrow> (case stoi s of None \<Rightarrow> default_value | Some v \<Rightarrow> v))"

fun index_of_option :: "string list \<Rightarrow> string \<Rightarrow> nat \<Rightarrow> nat option" where
  "index_of_option [] v i = None"
| "index_of_option (x # xs) v i = (if x = v then Some i else index_of_option xs v (Suc i))"

definition env2index :: "(string \<rightharpoonup> string) \<Rightarrow> string \<Rightarrow> string list \<Rightarrow> int \<Rightarrow> int" where
  "env2index env env_name options default_value =
     (case env env_name of
        None \<Rightarrow> default_value
      | Some s \<Rightarrow> (case index_of_option options s 0 of
                      None \<Rightarrow> default_value | Some i \<Rightarrow> int i))"

definition g_log_level_name :: "string list" where
  "g_log_level_name = [''INFO'', ''WARNING'', ''ERROR'', ''FATAL'']"

definition initial_min_level :: "(string \<rightharpoonup> string) \<Rightarrow> int" where
  "initial_min_level env =
     env2int env ''CC_LOG_MIN_LEVEL'' (env2index env ''CC_LOG_MIN_LEVEL'' g_log_level_name 0)"

section \<open>The state of the logger\<close>

record log_state =
  g_log_inited :: bool
  g_log_to_stderr :: bool
  g_log_min_level :: int
  g_log_fds :: "int list list"
  g_log_file_fds :: "int list"
  exit_hooks :: nat   \<comment> \<open>how often \<open>free_log_file_fds\<close> was registered with \<open>atexit\<close>\<close>

text \<open>The dynamic initialisers of the file's globals, in their order.\<close>

definition logging_static_init :: "(string \<rightharpoonup> string) \<Rightarrow> log_state run" where
  "logging_static_init env =
     bind (env2bool env ''CC_LOG_LOGTOSTDERR'' True) (\<lambda>to_stderr.
       return \<lparr>g_log_inited = False, g_log_to_stderr = to_stderr,
               g_log_min_level = initial_min_level env, g_log_fds = [], g_log_file_fds = [],
               exit_hooks = 0\<rparr>)"

definition NUM_SEVERITIES :: int where
  "NUM_SEVERITIES = 4"

definition STDERR_FILENO :: int where
  "STDERR_FILENO = 2"

definition vector_resize :: "nat \<Rightarrow> 'a \<Rightarrow> 'a list \<Rightarrow> 'a list" where
  "vector_resize n d xs = take n xs @ replicate (n - length xs) d"

definition append_fds :: "int \<Rightarrow> int list \<Rightarrow> int list list \<Rightarrow> int list list run" where
  "append_fds i new fds =
     (if 0 \<le> i \<and> i < int (length fds) then return (fds[nat i := fds ! nat i @ new])
      else fail OutOfBounds)"

function stderr_loop :: "bool \<Rightarrow> int \<Rightarrow> int list list \<Rightarrow> int list list run" where
  "stderr_loop to_stderr i fds =
     (if i < NUM_SEVERITIES \<and> to_stderr
      then bind (append_fds i [STDERR_FILENO] fds) (\<lambda>fds'. stderr_loop to_stderr (i + 1) fds')
      else return fds)"
  by pat_completeness auto
termination
  by (relation "measure (\<lambda>(b, i, fds). nat (NUM_SEVERITIES - i))") auto

declare stderr_loop.simps [simp del]

definition log_file_name :: "string \<Rightarrow> string \<Rightarrow> int \<Rightarrow> string run" where
  "log_file_name log_dir argc i =
     (if 0 \<le> i \<and> i < int (length g_log_level_name)
      then return (path_join log_dir (argc @ ''.'' @ g_log_level_name ! nat i))
      else fail OutOfBounds)"

function file_loop :: "(string \<Rightarrow> int) \<Rightarrow> string option \<Rightarrow> string \<Rightarrow> int \<Rightarrow> int list list \<Rightarrow> int list
    \<Rightarrow> (int list list \<times> int list) run" where
  "file_loop os_open log_dir argc i fds file_fds =
     (case log_dir of
        None \<Rightarrow> return (fds, file_fds)
      | Some dir \<Rightarrow>
          if i < NUM_SEVERITIES
          then bind (log_file_name dir argc i) (\<lambda>file_name.
                 let fd = os_open file_name in
                 if fd = -1 then fail (Exit (-1))
                 else bind (append_fds i (file_fds @ [fd]) fds) (\<lambda>fds'.
                        file_loop os_open log_dir argc (i + 1) fds' (file_fds @ [fd])))
          else return (fds, file_fds))"
  by pat_completeness auto
termination
  by (relation "measure (\<lambda>(f, d, a, i, fds, ffds). nat (NUM_SEVERITIES - i))") auto

declare file_loop.simps [simp del]

definition initialize_log_fds ::
  "(string \<Rightarrow> int) \<Rightarrow> (string \<rightharpoonup> string) \<Rightarrow> log_state \<Rightarrow> string \<Rightarrow> log_state run" where
  "initialize_log_fds os_open env st argc =
     bind (stderr_loop (g_log_to_stderr st) (g_log_min_level st)
             (vector_resize (nat NUM_SEVERITIES) [] (g_log_fds st))) (\<lambda>fds.
     bind (file_loop os_open (env ''CC_LOG_LOGDIR'') argc (g_log_min_level st) fds
             (g_log_file_fds st)) (\<lambda>(fds', file_fds').
     return (st\<lparr>g_log_fds := fds', g_log_file_fds := file_fds',
                exit_hooks := exit_hooks st + 1, g_log_inited := True\<rparr>)))"

definition initialize_logging ::
  "(string \<Rightarrow> int) \<Rightarrow> (string \<rightharpoonup> string) \<Rightarrow> log_state \<Rightarrow> string list \<Rightarrow> log_state run" where
  "initialize_logging os_open env st argv =
     (case argv of [] \<Rightarrow> fail OutOfBounds | a # _ \<Rightarrow> initialize_log_fds os_open env st a)"

definition set_min_log_level :: "int \<Rightarrow> log_state \<Rightarrow> log_state" where
  "set_min_log_level level st = st\<lparr>g_log_min_level := level\<rparr>"

text \<open>The descriptors \<open>free_log_file_fds\<close> closes, in order.\<close>

definition free_log_file_fds :: "log_state \<Rightarrow> int list" where
  "free_log_file_fds st = g_log_file_fds st"

section \<open>Writing a message\<close>

record log_message =
  lm_name :: string
  lm_line :: nat
  lm_severity :: nat
  lm_text :: string

definition format_message :: "log_message \<Rightarrow> string run" where
  "format_message m =
     (if lm_severity m \<le> 4
      then return ([(''IWEF'' @ [CHR 0x00]) ! lm_severity m] @ '' '' @ lm_name m @ '':'' @
                   show_nat (lm_line m) @ ''] '' @ lm_text m @ [CHR 0x0A])
      else fail OutOfBounds)"

text \<open>\<open>generate_log_message\<close>: the writes it makes, as pairs of descriptor and bytes.\<close>

definition generate_log_message :: "log_state \<Rightarrow> log_message \<Rightarrow> (int \<times> string) list run" where
  "generate_log_message st m =
     (if \<not> g_log_inited st then bind (format_message m) (\<lambda>s. return [(STDERR_FILENO, s)])
      else if lm_severity m < length (g_log_fds st)
      then (if g_log_fds st ! lm_severity m = [] then return []
            else bind (format_message m) (\<lambda>s.
                   return (map (\<lambda>fd. (fd, s)) (g_log_fds st ! lm_severity m))))
      else fail OutOfBounds)"

text \<open>The failure function never returns (it is declared \<open>noreturn\<close>), so it is described by how it ends
  the process. A failure writer is accepted and ignored.\<close>

definition g_failure_function_ptr :: fault where
  "g_failure_function_ptr = Abort"

definition install_failure_function :: "fault \<Rightarrow> fault \<Rightarrow> fault" where
  "install_failure_function callback current = callback"

definition install_failure_writer :: "'writer \<Rightarrow> log_state \<Rightarrow> log_state" where
  "install_failure_writer callback st = st"

text \<open>A \<open>LogMessage\<close> writes in its destructor; a \<open>LogMessageFatal\<close> then calls the failure function.\<close>

definition destroy_LogMessage :: "log_state \<Rightarrow> log_message \<Rightarrow> (int \<times> string) list run" where
  "destroy_LogMessage st m = generate_log_message st m"

definition destroy_LogMessageFatal ::
  "fault \<Rightarrow> log_state \<Rightarrow> log_message \<Rightarrow> (int \<times> string) list \<times> fault" where
  "destroy_LogMessageFatal failure_function st m =
     (case snd (generate_log_message st (m\<lparr>lm_severity := 3\<rparr>)) of
        Inl f \<Rightarrow> ([], f)
      | Inr ws \<Rightarrow> (ws, failure_function))"

section \<open>The order of the severities\<close>

text \<open>The constants \<open>INFO\<close> to \<open>FATAL\<close> are numbers; the model's severities are ordered by them.\<close>

fun severity_number :: "severity \<Rightarrow> nat" where
  "severity_number INFO = 0"
| "severity_number WARNING = 1"
| "severity_number ERROR = 2"
| "severity_number FATAL = 3"

lemma severity_number_inject: "severity_number s = severity_number t \<longleftrightarrow> s = t"
  by (cases s; cases t) simp_all

instantiation severity :: linorder
begin

definition less_eq_severity :: "severity \<Rightarrow> severity \<Rightarrow> bool" where
  "less_eq_severity s t \<longleftrightarrow> severity_number s \<le> severity_number t"

definition less_severity :: "severity \<Rightarrow> severity \<Rightarrow> bool" where
  "less_severity s t \<longleftrightarrow> severity_number s < severity_number t"

instance
  by standard (auto simp: less_eq_severity_def less_severity_def severity_number_inject [symmetric])

end

lemma severity_le_FATAL: "s \<le> FATAL"
  by (cases s) (simp_all add: less_eq_severity_def)

section \<open>Lemmas\<close>

lemma path_join_absolute: "path_join a (sep # p) = sep # p"
  by (simp add: path_join_def)

lemma path_join_Nil [simp]: "path_join [] p = p"
  by (simp add: path_join_def)

lemma path_join_assoc: "path_join a (path_join b c) = path_join (path_join a b) c"
  by (cases "b = []"; cases "c = []") (auto simp: path_join_def Let_def)

lemma index_of_option_correct:
  "index_of_option xs v i = Some j \<Longrightarrow> i \<le> j \<and> j - i < length xs \<and> xs ! (j - i) = v"
proof (induction xs arbitrary: i)
  case (Cons x xs)
  show ?case
  proof (cases "x = v")
    case False
    with Cons have h: "Suc i \<le> j \<and> j - Suc i < length xs \<and> xs ! (j - Suc i) = v" by simp
    then have "j - i = Suc (j - Suc i)" by (simp add: Suc_diff_Suc Suc_le_eq)
    with h show ?thesis by simp
  qed (use Cons in simp)
qed simp

lemma env2bool_value: "env2bool env n d = fail NullDeref"
  by (simp add: env2bool_def)

lemma length_vector_resize [simp]: "length (vector_resize n d xs) = n"
  by (simp add: vector_resize_def)

lemma length_g_log_level_name [simp]: "length g_log_level_name = 4"
  by (simp add: g_log_level_name_def)

text \<open>What the two loops do to the table, level by level.\<close>

lemma stderr_loop_spec:
  assumes "0 \<le> i" "length fds = 4"
  shows "stderr_loop True i fds =
    return (map (\<lambda>k. if i \<le> int k then fds ! k @ [STDERR_FILENO] else fds ! k) [0..<4])"
  using assms
proof (induction "nat (4 - i)" arbitrary: i fds)
  case 0
  then have "4 \<le> i" by simp
  with 0 have "fds = map (\<lambda>k. if i \<le> int k then fds ! k @ [STDERR_FILENO] else fds ! k) [0..<4]"
    using 0 by (intro nth_equalityI) auto
  with \<open>4 \<le> i\<close> show ?case
    by (subst stderr_loop.simps) (simp add: NUM_SEVERITIES_def)
next
  case (Suc n)
  then have i: "i < 4" by simp
  let ?fds = "fds[nat i := fds ! nat i @ [STDERR_FILENO]]"
  have app: "append_fds i [STDERR_FILENO] fds = return ?fds"
    using Suc.prems i by (simp add: append_fds_def)
  have "stderr_loop True (i + 1) ?fds =
      return (map (\<lambda>k. if i + 1 \<le> int k then ?fds ! k @ [STDERR_FILENO] else ?fds ! k) [0..<4])"
    using Suc by (intro Suc.hyps(1)) auto
  moreover have "map (\<lambda>k. if i + 1 \<le> int k then ?fds ! k @ [STDERR_FILENO] else ?fds ! k) [0..<4]
      = map (\<lambda>k. if i \<le> int k then fds ! k @ [STDERR_FILENO] else fds ! k) [0..<4]"
    using Suc.prems i by (intro map_cong) (auto simp: nth_list_update)
  ultimately show ?case
    using i by (subst stderr_loop.simps) (simp add: app NUM_SEVERITIES_def)
qed

definition level_file :: "string \<Rightarrow> string \<Rightarrow> nat \<Rightarrow> string" where
  "level_file dir argc k = path_join dir (argc @ ''.'' @ g_log_level_name ! k)"

lemma file_loop_spec:
  assumes "0 \<le> i" "i \<le> 4" "length fds = 4" "\<forall>k < 4. os_open (level_file dir argc k) \<noteq> -1"
  defines "fd \<equiv> \<lambda>k. os_open (level_file dir argc k)"
  shows "file_loop os_open (Some dir) argc i fds ffds =
    return (map (\<lambda>k. if i \<le> int k then fds ! k @ ffds @ map fd [nat i..<Suc k] else fds ! k) [0..<4],
            ffds @ map fd [nat i..<4])"
  using assms(1-3)
proof (induction "nat (4 - i)" arbitrary: i fds ffds)
  case 0
  then have "i = 4" by simp
  moreover have "fds = map (\<lambda>k. if i \<le> int k then fds ! k @ ffds @ map fd [nat i..<Suc k] else fds ! k) [0..<4]"
    using 0 by (intro nth_equalityI) auto
  ultimately show ?case
    by (subst file_loop.simps) (simp add: NUM_SEVERITIES_def)
next
  case (Suc n)
  then have i: "i < 4" by simp
  let ?fds = "fds[nat i := fds ! nat i @ ffds @ [fd (nat i)]]"
  have nm: "log_file_name dir argc i = return (level_file dir argc (nat i))"
    using Suc.prems i by (simp add: log_file_name_def level_file_def)
  have op: "os_open (level_file dir argc (nat i)) = fd (nat i)" "fd (nat i) \<noteq> -1"
    using Suc.prems i assms(4) by (auto simp: fd_def)
  have app: "append_fds i (ffds @ [fd (nat i)]) fds = return ?fds"
    using Suc.prems i by (simp add: append_fds_def)
  have IH: "file_loop os_open (Some dir) argc (i + 1) ?fds (ffds @ [fd (nat i)]) =
      return (map (\<lambda>k. if i + 1 \<le> int k then ?fds ! k @ (ffds @ [fd (nat i)]) @ map fd [nat (i + 1)..<Suc k]
                       else ?fds ! k) [0..<4],
              (ffds @ [fd (nat i)]) @ map fd [nat (i + 1)..<4])"
    using Suc i by (intro Suc.hyps(1)) auto
  have up: "nat i < m \<Longrightarrow> [nat i..<m] = nat i # [nat (i + 1)..<m]" for m
    using Suc.prems(1) by (simp add: upt_conv_Cons nat_add_distrib)
  have eq: "map (\<lambda>k. if i + 1 \<le> int k then ?fds ! k @ (ffds @ [fd (nat i)]) @ map fd [nat (i + 1)..<Suc k]
                       else ?fds ! k) [0..<4]
      = map (\<lambda>k. if i \<le> int k then fds ! k @ ffds @ map fd [nat i..<Suc k] else fds ! k) [0..<4]"
    using Suc.prems i by (intro map_cong) (auto simp: nth_list_update up nat_add_distrib)
  have "file_loop os_open (Some dir) argc i fds ffds =
      file_loop os_open (Some dir) argc (i + 1) ?fds (ffds @ [fd (nat i)])"
    using i by (subst file_loop.simps) (simp add: NUM_SEVERITIES_def nm op app Let_def)
  with IH eq up [of 4] i show ?case by simp
qed

lemma file_loop_off: "file_loop os_open None argc i fds ffds = return (fds, ffds)"
  by (subst file_loop.simps) simp

lemma stderr_loop_off: "stderr_loop False i fds = return fds"
  by (subst stderr_loop.simps) simp

text \<open>
  The descriptors a message of severity \<open>s\<close> is meant to reach once the logger is initialised:
  standard error if enabled, then the files of all the levels from the minimum up to \<open>s\<close>.
\<close>

definition route :: "(string \<Rightarrow> int) \<Rightarrow> string option \<Rightarrow> string \<Rightarrow> bool \<Rightarrow> nat \<Rightarrow> nat \<Rightarrow> int list" where
  "route os_open log_dir argc to_stderr min_level s =
     (if s < min_level then []
      else (if to_stderr then [STDERR_FILENO] else []) @
           (case log_dir of None \<Rightarrow> []
            | Some dir \<Rightarrow> map (\<lambda>k. os_open (level_file dir argc k)) [min_level..<Suc s]))"

text \<open>A graver message reaches every descriptor that a lighter one reaches, and \<open>FATAL\<close> all of them.\<close>

lemma route_mono:
  assumes "s \<le> t"
  shows "set (route os_open log_dir argc b m (severity_number s)) \<subseteq> set (route os_open log_dir argc b m (severity_number t))"
proof -
  have "{m..<Suc (severity_number s)} \<subseteq> {m..<Suc (severity_number t)}"
    using assms by (auto simp: less_eq_severity_def)
  then show ?thesis
    using assms by (auto simp: route_def less_eq_severity_def simp del: upt_Suc split: option.splits)
qed

lemma route_FATAL:
  "set (route os_open log_dir argc b m (severity_number s)) \<subseteq> set (route os_open log_dir argc b m 3)"
  using route_mono [OF severity_le_FATAL] by simp

definition fresh_log_state :: "bool \<Rightarrow> int \<Rightarrow> log_state" where
  "fresh_log_state to_stderr min_level =
     \<lparr>g_log_inited = False, g_log_to_stderr = to_stderr, g_log_min_level = min_level,
      g_log_fds = [], g_log_file_fds = [], exit_hooks = 0\<rparr>"

lemma resize_Nil_4: "vector_resize (nat NUM_SEVERITIES) [] [] = replicate 4 []"
  by (simp add: vector_resize_def NUM_SEVERITIES_def)

lemma stderr_loop_fresh:
  assumes "0 \<le> i"
  shows "stderr_loop b i (replicate 4 []) =
    return (map (\<lambda>k. if b \<and> i \<le> int k then [STDERR_FILENO] else []) [0..<4])"
proof (cases b)
  case True
  have "map (\<lambda>k. if i \<le> int k then replicate 4 [] ! k @ [STDERR_FILENO] else replicate 4 [] ! k) [0..<4]
      = map (\<lambda>k. if i \<le> int k then [STDERR_FILENO] else []) [0..<4]"
    by (intro map_cong) auto
  with True stderr_loop_spec [of i "replicate 4 []"] assms show ?thesis by simp
next
  case False
  moreover have "replicate 4 ([] :: int list) = map (\<lambda>k. []) [0..<4]"
    by (simp add: map_replicate_const)
  ultimately show ?thesis by (simp add: stderr_loop_off)
qed

definition opened_files :: "(string \<Rightarrow> int) \<Rightarrow> string option \<Rightarrow> string \<Rightarrow> nat \<Rightarrow> int list" where
  "opened_files os_open log_dir argc m =
     (case log_dir of None \<Rightarrow> []
      | Some dir \<Rightarrow> map (\<lambda>k. os_open (level_file dir argc k)) [m..<4])"

definition opens_succeed :: "(string \<Rightarrow> int) \<Rightarrow> string option \<Rightarrow> string \<Rightarrow> bool" where
  "opens_succeed os_open log_dir argc \<longleftrightarrow>
     (case log_dir of None \<Rightarrow> True
      | Some dir \<Rightarrow> list_all (\<lambda>k. os_open (level_file dir argc k) \<noteq> -1) [0..<4])"

lemma initialize_log_fds_table:
  assumes "m \<le> 4" "opens_succeed os_open (env ''CC_LOG_LOGDIR'') argc"
  shows "initialize_log_fds os_open env (fresh_log_state b (int m)) argc =
       return (fresh_log_state b (int m) \<lparr>g_log_fds :=
           map (route os_open (env ''CC_LOG_LOGDIR'') argc b m) [0..<4],
         g_log_file_fds := opened_files os_open (env ''CC_LOG_LOGDIR'') argc m,
         exit_hooks := 1, g_log_inited := True\<rparr>)"
proof (cases "env ''CC_LOG_LOGDIR''")
  case None
  have eq: "map (\<lambda>k. if b \<and> m \<le> k then [STDERR_FILENO] else []) [0..<4] =
        map (route os_open None argc b m) [0..<4]"
    by (intro map_cong) (auto simp: route_def)
  with None show ?thesis
    by (simp add: initialize_log_fds_def fresh_log_state_def resize_Nil_4 stderr_loop_fresh
        file_loop_off opened_files_def eq)
next
  case (Some dir)
  let ?fd = "\<lambda>k. os_open (level_file dir argc k)"
  let ?f = "map (\<lambda>k. if b \<and> int m \<le> int k then [STDERR_FILENO] else []) [0..<4]"
  have eq: "map (\<lambda>k. if int m \<le> int k then ?f ! k @ [] @ map ?fd [nat (int m)..<Suc k]
               else ?f ! k) [0..<4] = map (route os_open (Some dir) argc b m) [0..<4]"
    by (intro map_cong) (auto simp: route_def)
  have "file_loop os_open (Some dir) argc (int m) ?f [] =
      return (map (route os_open (Some dir) argc b m) [0..<4], [] @ map ?fd [nat (int m)..<4])"
    unfolding eq [symmetric]
    using assms Some by (intro file_loop_spec) (auto simp: opens_succeed_def list_all_iff)
  with Some show ?thesis
    by (simp add: initialize_log_fds_def fresh_log_state_def resize_Nil_4 stderr_loop_fresh
        opened_files_def)
qed

section \<open>Properties\<close>

text \<open>C31. After a successful initialisation with a minimum level between 0 and 4, a message of
  severity \<open>s\<close> is written, once per descriptor and in this order, to standard error (if
  enabled) and to the log files of every level from the minimum up to \<open>s\<close>; below the minimum
  it is written nowhere.\<close>

theorem log_routing:
  assumes "m \<le> 4" "lm_severity msg < 4"
    and "opens_succeed os_open (env ''CC_LOG_LOGDIR'') argc"
  shows "bind (initialize_log_fds os_open env (fresh_log_state b (int m)) argc)
           (\<lambda>st. generate_log_message st msg) =
         bind (format_message msg) (\<lambda>s. return
           (map (\<lambda>fd. (fd, s)) (route os_open (env ''CC_LOG_LOGDIR'') argc b m (lm_severity msg))))"
  using assms(2)
  by (simp add: initialize_log_fds_table [where env = env and os_open = os_open, OF assms(1,3)] generate_log_message_def
      format_message_def)

theorem log_routing_witness:
  "bind (initialize_log_fds (\<lambda>n. int (length n)) (\<lambda>v. Some ''/tmp'') (fresh_log_state True (int 1)) ''ccml'')
     (\<lambda>st. generate_log_message st \<lparr>lm_name = ''a.cpp'', lm_line = 7, lm_severity = 2, lm_text = ''x''\<rparr>)
   = return [(2, ''E a.cpp:7] x'' @ [CHR 0x0A]), (17, ''E a.cpp:7] x'' @ [CHR 0x0A]),
             (15, ''E a.cpp:7] x'' @ [CHR 0x0A])]"
  by (subst log_routing [of 1])
    (auto simp: opens_succeed_def format_message_def route_def level_file_def path_join_def sep_def upt_rec
       g_log_level_name_def STDERR_FILENO_def show_nat.simps [of 7])

text \<open>The dynamic initialisation of the logger faults in every environment: \<open>env2bool\<close>
  assigns null to its pointer in the guard (\<open>if(env_value = nullptr)\<close>) and then reads through it.\<close>

theorem logging_init_faults: "logging_static_init env = fail NullDeref"
  by (simp add: logging_static_init_def env2bool_value)

text \<open>Logging at severity \<open>FATAL\<close>, which is what a failed \<open>CC_CHECK\<close> does, never calls the
  failure function: a \<open>LogMessage\<close> of any severity is written and the program goes on, while a
  \<open>LogMessageFatal\<close> with the same text writes the same lines and then calls the failure function.\<close>

theorem fatal_log_continues:
  assumes "lm_severity m = 3" "g_log_inited st \<longrightarrow> length (g_log_fds st) = 4"
  shows "\<exists>ws. snd (destroy_LogMessage st m) = Inr ws \<and> destroy_LogMessageFatal failure_function st m = (ws, failure_function)"
  using assms
  by (auto simp: destroy_LogMessage_def destroy_LogMessageFatal_def generate_log_message_def
      format_message_def)

theorem fatal_log_continues_witness:
  "\<exists>ws. snd (destroy_LogMessage (fresh_log_state True 0)
              \<lparr>lm_name = ''a'', lm_line = 1, lm_severity = 3, lm_text = ''b''\<rparr>) = Inr ws \<and>
        destroy_LogMessageFatal g_failure_function_ptr (fresh_log_state True 0)
              \<lparr>lm_name = ''a'', lm_line = 1, lm_severity = 3, lm_text = ''b''\<rparr> = (ws, Abort)"
  unfolding g_failure_function_ptr_def by (rule fatal_log_continues) (simp_all add: fresh_log_state_def)

end
