(* ===== verification/StringUtils.thy ===== *)
theory StringUtils
  imports Prelude NumParse
begin

text \<open>
  utils/StringUtils.h and utils/StringUtils.cpp: prefix and suffix tests, splitting at a
  separator, and conversion of a string to a value through an \<open>istringstream\<close>. A \<open>std::string\<close>
  is a \<open>string\<close>; \<open>npos\<close> is \<open>None\<close>. Every \<open>substr\<close> of the source is called with a position that
  does not exceed the size, so its exception has no branch here.
\<close>

section \<open>Definitions\<close>

function starts_with_loop :: "string \<Rightarrow> string \<Rightarrow> nat \<Rightarrow> bool" where
  "starts_with_loop str prefix i =
     (if i < length prefix
      then (if str ! i \<noteq> prefix ! i then False else starts_with_loop str prefix (i + 1))
      else True)"
  by pat_completeness auto
termination
  by (relation "measure (\<lambda>(str, prefix, i). length prefix - i)") auto

declare starts_with_loop.simps [simp del]

definition starts_with :: "string \<Rightarrow> string \<Rightarrow> bool" where
  "starts_with str prefix =
     (if length prefix \<le> length str then starts_with_loop str prefix 0 else False)"

definition substr :: "string \<Rightarrow> nat \<Rightarrow> nat \<Rightarrow> string" where
  "substr s pos n = take n (drop pos s)"

definition ends_with :: "string \<Rightarrow> string \<Rightarrow> bool" where
  "ends_with str ext =
     (if length str \<ge> length ext \<and> ext = drop (length str - length ext) str then True else False)"

text \<open>\<open>str.find(sep, pos)\<close>.\<close>

definition str_find :: "string \<Rightarrow> char \<Rightarrow> nat \<Rightarrow> nat option" where
  "str_find str sep pos =
     (let k = length (takeWhile (\<lambda>c. c \<noteq> sep) (drop pos str))
      in if pos + k < length str then Some (pos + k) else None)"

lemma str_find_SomeD: "str_find str sep pos = Some n \<Longrightarrow> pos \<le> n \<and> n < length str"
  by (auto simp: str_find_def Let_def split: if_splits)

function split_loop :: "string \<Rightarrow> char \<Rightarrow> nat \<Rightarrow> nat option \<Rightarrow> string list \<Rightarrow> nat \<times> string list" where
  "split_loop str sep pos next pieces =
     (case next of
        None \<Rightarrow> (pos, pieces)
      | Some n \<Rightarrow> split_loop str sep (n + 1) (str_find str sep (n + 1))
                    (pieces @ [substr str pos (n - pos)]))"
  by pat_completeness auto
termination
  by (relation "measure (\<lambda>(str, sep, pos, next, pieces).
        case next of None \<Rightarrow> 0 | Some n \<Rightarrow> 1 + (length str - n))")
    (auto split: option.splits dest: str_find_SomeD)

declare split_loop.simps [simp del]

text \<open>The argument \<open>pieces\<close> is what the output vector held before the call.\<close>

definition split :: "string \<Rightarrow> char \<Rightarrow> string list \<Rightarrow> string list" where
  "split str sep pieces =
     (let pieces = [] in
      if str = [] then pieces
      else let (pos, pieces) = split_loop str sep 0 (str_find str sep 0) pieces in
           if drop pos str \<noteq> [] then pieces @ [drop pos str] else pieces)"

text \<open>
  \<open>to_with_status\<close> for a type whose stream extraction is \<open>get\<close> (value stored, \<open>fail()\<close>,
  \<open>eof()\<close>); the value is \<open>None\<close> when the uninitialised local was left as it was.
\<close>

definition to_with_status ::
  "(string \<Rightarrow> 'v option \<times> bool \<times> bool) \<Rightarrow> string \<Rightarrow> 'v option \<times> bool" where
  "to_with_status get s = (case get s of (v, failed, eof) \<Rightarrow> (v, eof \<and> \<not> failed))"

definition to_value ::
  "(string \<Rightarrow> 'v option \<times> bool \<times> bool) \<Rightarrow> string \<Rightarrow> string \<Rightarrow> 'v option run" where
  "to_value get type_name s =
     (case to_with_status get s of (v, ok) \<Rightarrow>
        bind (cc_check (''Check failed:ok Cannot convert s('' @ s @ '') to type '' @ type_name) ok)
          (\<lambda>_. return v))"

section \<open>Reference definitions\<close>

text \<open>All the fields between separators, the empty ones included.\<close>

fun fields :: "char \<Rightarrow> string \<Rightarrow> string list" where
  "fields sep [] = [[]]"
| "fields sep (c # s) =
     (if c = sep then [] # fields sep s
      else (c # hd (fields sep s)) # tl (fields sep s))"

fun join_fields :: "char \<Rightarrow> string list \<Rightarrow> string" where
  "join_fields sep [] = []"
| "join_fields sep [f] = f"
| "join_fields sep (f # fs) = f @ sep # join_fields sep fs"

definition drop_empty_last :: "string list \<Rightarrow> string list" where
  "drop_empty_last fs = (if fs \<noteq> [] \<and> last fs = [] then butlast fs else fs)"

section \<open>Lemmas\<close>

lemma fields_nonempty [simp]: "fields sep s \<noteq> []"
  by (cases "(sep, s)" rule: fields.cases) auto

lemma fields_no_sep: "sep \<notin> set s \<Longrightarrow> fields sep s = [s]"
  by (induction s) auto

lemma fields_append_sep: "sep \<notin> set s \<Longrightarrow> fields sep (s @ sep # t) = s # fields sep t"
  by (induction s) auto

lemma sep_notin_fields: "f \<in> set (fields sep s) \<Longrightarrow> sep \<notin> set f"
proof (induction s arbitrary: f)
  case (Cons c s)
  obtain g gs where "fields sep s = g # gs" by (meson fields_nonempty neq_Nil_conv)
  with Cons show ?case by (auto split: if_splits)
qed simp

lemma join_Cons: "fs \<noteq> [] \<Longrightarrow> join_fields sep (f # fs) = f @ sep # join_fields sep fs"
  by (cases fs) auto

lemma join_fields_fields: "join_fields sep (fields sep s) = s"
proof (induction s)
  case (Cons c s)
  obtain g gs where g: "fields sep s = g # gs" by (meson fields_nonempty neq_Nil_conv)
  with Cons show ?case by (cases gs) (auto simp: join_Cons)
qed simp

lemma join_fields_snoc_Nil: "fs \<noteq> [] \<Longrightarrow> join_fields sep (fs @ [[]]) = join_fields sep fs @ [sep]"
  by (induction fs rule: join_fields.induct) (auto simp: join_Cons)

lemma last_fields_Nil_iff: "last (fields sep s) = [] \<longleftrightarrow> s = [] \<or> last s = sep"
proof (induction s)
  case (Cons c s)
  obtain g gs where g: "fields sep s = g # gs" by (meson fields_nonempty neq_Nil_conv)
  with Cons show ?case by (cases s) (auto split: if_splits)
qed simp

lemma fields_singleton_iff: "length (fields sep s) = 1 \<longleftrightarrow> sep \<notin> set s"
proof (induction s)
  case (Cons c s)
  obtain g gs where g: "fields sep s = g # gs" by (meson fields_nonempty neq_Nil_conv)
  with Cons show ?case by auto
qed simp

lemma str_find_None_iff: "pos \<le> length str \<Longrightarrow> str_find str sep pos = None \<longleftrightarrow> sep \<notin> set (drop pos str)"
proof -
  assume pos: "pos \<le> length str"
  let ?w = "takeWhile (\<lambda>c. c \<noteq> sep) (drop pos str)"
  have "length ?w = length (drop pos str) \<longleftrightarrow> ?w = drop pos str"
    by (metis takeWhile_eq_take take_all_iff order_refl)
  moreover have "length ?w \<le> length (drop pos str)" by (rule length_takeWhile_le)
  ultimately have "pos + length ?w < length str \<longleftrightarrow> ?w \<noteq> drop pos str"
    using pos by auto
  then show ?thesis by (auto simp: str_find_def Let_def takeWhile_eq_all_conv)
qed

lemma str_find_Some_split:
  assumes "str_find str sep pos = Some n" "pos \<le> length str"
  shows "drop pos str = substr str pos (n - pos) @ sep # drop (n + 1) str"
    and "sep \<notin> set (substr str pos (n - pos))"
proof -
  let ?P = "\<lambda>c. c \<noteq> sep"
  let ?k = "length (takeWhile ?P (drop pos str))"
  have n: "n = pos + ?k" "pos + ?k < length str"
    using assms(1) by (auto simp: str_find_def Let_def split: if_splits)
  then have k: "?k < length (drop pos str)" by simp
  have tk: "substr str pos (n - pos) = takeWhile ?P (drop pos str)"
    using n by (simp add: substr_def takeWhile_eq_take [symmetric])
  show "sep \<notin> set (substr str pos (n - pos))"
    unfolding tk by (auto dest: set_takeWhileD)
  have "drop pos str ! ?k = sep"
    using nth_length_takeWhile [OF k] by simp
  with k have "drop pos str = take ?k (drop pos str) @ sep # drop (Suc ?k) (drop pos str)"
    by (metis id_take_nth_drop)
  with n tk show "drop pos str = substr str pos (n - pos) @ sep # drop (n + 1) str"
    by (simp add: takeWhile_eq_take [symmetric] add.commute)
qed

lemma split_loop_fields:
  assumes "pos \<le> length str" "next = str_find str sep pos"
    "split_loop str sep pos next pieces = (pos', pieces')"
  shows "pos' \<le> length str \<and> pieces' @ [drop pos' str] = pieces @ fields sep (drop pos str)"
  using assms
proof (induction str sep pos "next" pieces rule: split_loop.induct)
  case (1 str sep pos "next" pieces)
  show ?case
  proof (cases "next")
    case None
    with 1 have "str_find str sep pos = None" by simp
    with 1 have "sep \<notin> set (drop pos str)" by (simp add: str_find_None_iff)
    with None 1 show ?thesis by (subst (asm) split_loop.simps) (auto simp: fields_no_sep)
  next
    case (Some n)
    with 1 have find: "str_find str sep pos = Some n" by simp
    have n: "n + 1 \<le> length str" using str_find_SomeD [OF find] by simp
    have "split_loop str sep (n + 1) (str_find str sep (n + 1))
        (pieces @ [substr str pos (n - pos)]) = (pos', pieces')"
      using 1(4) Some by (subst (asm) split_loop.simps) simp
    from 1(1) [OF Some n refl this]
    have "pos' \<le> length str \<and> pieces' @ [drop pos' str] =
        pieces @ substr str pos (n - pos) # fields sep (drop (n + 1) str)" by simp
    then show ?thesis
      using str_find_Some_split [OF find 1(2)] by (simp add: fields_append_sep)
  qed
qed

lemma split_fields: "split str sep old = drop_empty_last (fields sep str)"
proof (cases "str = []")
  case False
  obtain pos pieces where l: "split_loop str sep 0 (str_find str sep 0) [] = (pos, pieces)"
    by force
  have "pieces @ [drop pos str] = fields sep str"
    using split_loop_fields [OF _ refl l] by simp
  with l False show ?thesis
    by (cases "drop pos str = []") (auto simp: split_def drop_empty_last_def Let_def simp flip: \<open>_ = fields sep str\<close>)
qed (simp add: split_def drop_empty_last_def)

lemma starts_with_loop_iff:
  "i \<le> length prefix \<Longrightarrow> length prefix \<le> length str \<Longrightarrow>
   starts_with_loop str prefix i \<longleftrightarrow> (\<forall>j. i \<le> j \<longrightarrow> j < length prefix \<longrightarrow> str ! j = prefix ! j)"
proof (induction str prefix i rule: starts_with_loop.induct)
  case (1 str prefix i)
  show ?case
  proof (cases "i < length prefix \<and> str ! i = prefix ! i")
    case True
    then have "starts_with_loop str prefix i = starts_with_loop str prefix (i + 1)"
      by (subst starts_with_loop.simps) simp
    also have "\<dots> \<longleftrightarrow> (\<forall>j. i + 1 \<le> j \<longrightarrow> j < length prefix \<longrightarrow> str ! j = prefix ! j)"
      using 1 True by simp
    also have "\<dots> \<longleftrightarrow> (\<forall>j. i \<le> j \<longrightarrow> j < length prefix \<longrightarrow> str ! j = prefix ! j)"
      using True by (metis Suc_eq_plus1 Suc_leD Suc_leI le_neq_implies_less)
    finally show ?thesis .
  next
    case False
    then show ?thesis by (subst starts_with_loop.simps) auto
  qed
qed

lemma starts_with_iff: "starts_with str prefix \<longleftrightarrow> (\<exists>rest. str = prefix @ rest)"
proof
  assume "starts_with str prefix"
  then have le: "length prefix \<le> length str" and eq: "\<forall>j < length prefix. str ! j = prefix ! j"
    by (auto simp: starts_with_def starts_with_loop_iff split: if_splits)
  then have "take (length prefix) str = prefix" by (intro nth_equalityI) auto
  then show "\<exists>rest. str = prefix @ rest" by (metis append_take_drop_id)
next
  assume "\<exists>rest. str = prefix @ rest"
  then show "starts_with str prefix"
    by (auto simp: starts_with_def starts_with_loop_iff nth_append)
qed

lemma ends_with_iff: "ends_with str ext \<longleftrightarrow> (\<exists>front. str = front @ ext)"
proof
  assume "ends_with str ext"
  then have "ext = drop (length str - length ext) str" by (simp add: ends_with_def split: if_splits)
  then show "\<exists>front. str = front @ ext" by (metis append_take_drop_id)
next
  assume "\<exists>front. str = front @ ext"
  then show "ends_with str ext" by (auto simp: ends_with_def)
qed

lemma concat_drop_empty_last [simp]: "concat (drop_empty_last fs) = concat fs"
proof (cases "fs \<noteq> [] \<and> last fs = []")
  case True
  then have "fs = butlast fs @ [[]]" by (metis append_butlast_last_id)
  then have "concat fs = concat (butlast fs)" by (metis append_Nil2 concat.simps concat_append)
  with True show ?thesis by (simp add: drop_empty_last_def)
qed (auto simp: drop_empty_last_def)

lemma show_int_num_get:
  "num_get ty (show_int i) = (case convert ty (i < 0) (nat \<bar>i\<bar>) of (v, f) \<Rightarrow> (Some v, f, True))"
proof (cases "i < 0")
  case True
  then have "show_int i = CHR ''-'' # show_nat (nat (- i))" by (simp add: show_int_def)
  with True show ?thesis by (simp add: num_get_def)
next
  case False
  then have "show_int i = show_nat (nat i)" by (simp add: show_int_def)
  with False show ?thesis by (simp add: num_get_def)
qed

section \<open>Properties\<close>

text \<open>C30. \<open>split\<close> loses nothing: joining the pieces with the separator gives the string back,
  except for one trailing separator, which leaves no piece; no piece holds a separator; and
  what the output vector held before is gone.\<close>

theorem split_roundtrip:
  "join_fields sep (split str sep old) @ (if str \<noteq> [] \<and> last str = sep then [sep] else []) = str
   \<and> sep \<notin> set (concat (split str sep old))
   \<and> split str sep old = split str sep []"
proof (intro conjI)
  let ?fs = "fields sep str"
  show "join_fields sep (split str sep old) @ (if str \<noteq> [] \<and> last str = sep then [sep] else []) = str"
  proof (cases "last ?fs = []")
    case True
    then have fs: "?fs = butlast ?fs @ [[]]" by (metis append_butlast_last_id fields_nonempty)
    show ?thesis
    proof (cases "str = []")
      case False
      have "butlast ?fs \<noteq> []"
      proof
        assume "butlast ?fs = []"
        with fs have "join_fields sep ?fs = []" by simp
        with False show False by (simp add: join_fields_fields)
      qed
      then have "join_fields sep (butlast ?fs) @ [sep] = str"
        using fs join_fields_snoc_Nil join_fields_fields by metis
      moreover have "last str = sep" using True False by (simp add: last_fields_Nil_iff)
      ultimately show ?thesis using True False by (simp add: split_fields drop_empty_last_def)
    qed (simp add: split_def)
  next
    case False
    then have "\<not> (str \<noteq> [] \<and> last str = sep)" by (simp add: last_fields_Nil_iff)
    with False show ?thesis by (simp add: split_fields drop_empty_last_def join_fields_fields)
  qed
  show "sep \<notin> set (concat (split str sep old))"
    using sep_notin_fields by (fastforce simp: split_fields)
  show "split str sep old = split str sep []" by (simp add: split_def)
qed

text \<open>Converting the decimal form of any integer: a 32- or 64-bit signed target accepts
  exactly the integers of its range and otherwise reports failure with the nearest bound
  stored; \<open>uint64_t\<close> accepts every integer of magnitude below \<open>2 ^ 64\<close>, a negative one wrapped
  modulo \<open>2 ^ 64\<close>.\<close>

theorem to_with_status_show_int:
  "to_with_status (num_get ty) (show_int i) =
     (if ty = UInt64
      then (if \<bar>i\<bar> < 2 ^ 64 then (Some (i mod 2 ^ 64), True) else (Some (2 ^ 64 - 1), False))
      else (Some (max (type_min ty) (min (type_max ty) i)), type_min ty \<le> i \<and> i \<le> type_max ty))"
  by (cases ty) (auto simp: to_with_status_def show_int_num_get signed_value_def Let_def)

end
