(* ===== verification/CommandLine.thy ===== *)
theory CommandLine
  imports Prelude NumParse StringUtils
begin

text \<open>
  utils/CommandLineParser.h and utils/CommandLineParser.cpp: the flag registries, one per flag
  type, and the parsing of the command line. A registered \<open>Command\<close> holds the address of its
  flag variable; each flag has a variable of its own, so the model keeps the variable's value
  in the command (\<open>cmd_value\<close>). Values of arithmetic flags are \<open>option\<close>s: \<open>None\<close> is the
  indeterminate value a failed stream sentry leaves in the local that is then copied. The
  extraction of a \<open>double\<close> is a parameter (\<open>dget\<close>). The usage text written to standard error
  is modelled as a string; leaving through \<open>exit(1)\<close> is the fault \<open>Exit 1\<close>.
\<close>

section \<open>The registry\<close>

record 'v command =
  cmd_name :: string
  cmd_value :: 'v
  cmd_text :: string
  cmd_default :: 'v

record 'd registry =
  bool_commands :: "bool command list"
  int32_commands :: "int option command list"
  double_commands :: "'d option command list"
  int64_commands :: "int option command list"
  uint64_commands :: "int option command list"
  string_commands :: "string command list"

definition register_flag :: "string \<Rightarrow> 'v \<Rightarrow> string \<Rightarrow> 'v command list \<Rightarrow> 'v command list" where
  "register_flag name value desc cmds =
     cmds @ [\<lparr>cmd_name = name, cmd_value = value, cmd_text = desc, cmd_default = value\<rparr>]"

section \<open>Conversion of a flag's text\<close>

datatype parse_status = k_status_ok | k_status_invalid | k_status_not_found

text \<open>\<open>StringToValue\<close>: the value left in \<open>*value\<close> and whether the text was valid. The generic
  version stores before it knows; the one for \<open>bool\<close> stores only a valid value.\<close>

definition StringToValue_num ::
  "(string \<Rightarrow> 'v option \<times> bool \<times> bool) \<Rightarrow> string \<Rightarrow> 'v option \<Rightarrow> 'v option \<times> bool" where
  "StringToValue_num get content value = to_with_status get content"

definition ascii_lower :: "char \<Rightarrow> char" where
  "ascii_lower c = (if char_code c \<le> 90 \<and> 65 \<le> char_code c then char_of (char_code c + 32) else c)"

definition StringToValue_bool :: "string \<Rightarrow> bool \<Rightarrow> bool \<times> bool" where
  "StringToValue_bool content value =
     (let tmp = map ascii_lower content in
      if tmp = ''true'' \<or> tmp = ''1'' then (True, True)
      else if tmp = ''false'' \<or> tmp = ''0'' then (False, True)
      else (value, False))"

definition StringToValue_string :: "string \<Rightarrow> string \<Rightarrow> string \<times> bool" where
  "StringToValue_string content value = (content, True)"

section \<open>One argument against one registry\<close>

definition argument_content :: "string \<Rightarrow> string \<Rightarrow> string" where
  "argument_content argument name =
     (let prefix = ''--'' @ name @ ''='' in
      if starts_with argument prefix
      then substr argument (length prefix) (length argument - length prefix)
      else let prefix = ''-'' @ name @ ''='' in
           if starts_with argument prefix
           then substr argument (length prefix) (length argument - length prefix)
           else [])"

fun parse_argument :: "(string \<Rightarrow> 'v \<Rightarrow> 'v \<times> bool) \<Rightarrow> string \<Rightarrow> 'v command list
    \<Rightarrow> parse_status \<times> string option \<times> 'v command list" where
  "parse_argument conv argument [] = (k_status_not_found, None, [])"
| "parse_argument conv argument (c # cs) =
     (let content = argument_content argument (cmd_name c) in
      if content \<noteq> []
      then (case conv content (cmd_value c) of (v, ok) \<Rightarrow>
              let c' = c\<lparr>cmd_value := v\<rparr> in
              if ok then (k_status_ok, None, c' # cs)
              else (k_status_invalid, Some (cmd_name c), c' # cs))
      else (case parse_argument conv argument cs of (s, e, cs') \<Rightarrow> (s, e, c # cs')))"

definition bool_prefixes :: "(string \<times> bool) list" where
  "bool_prefixes = [(''-'', True), (''--'', True), (''-no'', False), (''--no'', False)]"

fun parse_bool_argument_extra :: "string \<Rightarrow> bool command list \<Rightarrow> parse_status \<times> bool command list" where
  "parse_bool_argument_extra argument [] = (k_status_not_found, [])"
| "parse_bool_argument_extra argument (c # cs) =
     (let skip = (case parse_bool_argument_extra argument cs of (s, cs') \<Rightarrow> (s, c # cs')) in
      if length argument > length (cmd_name c)
      then (let diff = length argument - length (cmd_name c) - 1 in
            if diff < length bool_prefixes
            then (if argument = fst (bool_prefixes ! diff) @ cmd_name c
                  then (k_status_ok, c\<lparr>cmd_value := snd (bool_prefixes ! diff)\<rparr> # cs)
                  else skip)
            else skip)
      else skip)"

section \<open>The usage text\<close>

definition setw :: "nat \<Rightarrow> string \<Rightarrow> string" where
  "setw n s = replicate (n - length s) (CHR '' '') @ s"

text \<open>\<open>print_type_usage\<close> takes the name by reference and prepends the dashes to it.\<close>

definition print_type_usage :: "('v \<Rightarrow> string) \<Rightarrow> 'v command list \<Rightarrow> string \<times> 'v command list" where
  "print_type_usage show_value cmds =
     (concat (map (\<lambda>c. setw 20 (''--'' @ cmd_name c) @ '': '' @ cmd_text c @ ''[default:'' @
                       show_value (cmd_default c) @ ''].'' @ [CHR 0x0A]) cmds),
      map (\<lambda>c. c\<lparr>cmd_name := ''--'' @ cmd_name c\<rparr>) cmds)"

text \<open>The types in the order of \<open>print_type_usages<bool, int32_t, std::string, double, int64_t, uint64_t>\<close>;
  \<open>show_double\<close> is the stream's printing of a double, and a \<open>bool\<close> prints as a digit. The default of a
  registered flag is a value.\<close>

definition show_default :: "('v \<Rightarrow> string) \<Rightarrow> 'v option \<Rightarrow> string" where
  "show_default show_value v = (case v of None \<Rightarrow> [] | Some x \<Rightarrow> show_value x)"

definition print_type_usages :: "('d \<Rightarrow> string) \<Rightarrow> 'd registry \<Rightarrow> string \<times> 'd registry" where
  "print_type_usages show_double reg =
     (case print_type_usage (\<lambda>b. if b then ''1'' else ''0'') (bool_commands reg) of (t1, bs) \<Rightarrow>
      case print_type_usage (show_default show_int) (int32_commands reg) of (t2, i32s) \<Rightarrow>
      case print_type_usage id (string_commands reg) of (t3, strs) \<Rightarrow>
      case print_type_usage (show_default show_double) (double_commands reg) of (t4, ds) \<Rightarrow>
      case print_type_usage (show_default show_int) (int64_commands reg) of (t5, i64s) \<Rightarrow>
      case print_type_usage (show_default show_int) (uint64_commands reg) of (t6, u64s) \<Rightarrow>
        (t1 @ t2 @ t3 @ t4 @ t5 @ t6,
         reg\<lparr>bool_commands := bs, int32_commands := i32s, string_commands := strs, double_commands := ds,
           int64_commands := i64s, uint64_commands := u64s\<rparr>))"

text \<open>What goes to the error stream before the process exits with status 1; a \<open>fail (Exit 1)\<close> of the
  parser below stands for one of these two.\<close>

definition print_usage_and_exit :: "('d \<Rightarrow> string) \<Rightarrow> string \<Rightarrow> 'd registry \<Rightarrow> string \<times> unit run" where
  "print_usage_and_exit show_double argv0 reg =
     (''Program '' @ argv0 @ ''Flags: '' @ [CHR 0x0A] @ fst (print_type_usages show_double reg), fail (Exit 1))"

definition print_parse_error :: "('d \<Rightarrow> string) \<Rightarrow> string \<Rightarrow> string \<Rightarrow> string \<Rightarrow> 'd registry \<Rightarrow> string \<times> unit run" where
  "print_parse_error show_double name actual_input arg0 reg =
     (case print_usage_and_exit show_double arg0 reg of (text, r) \<Rightarrow>
        (''parse command flag '' @ name @ '' error. User input is '' @ actual_input @ [CHR 0x0A] @ text, r))"

section \<open>The whole command line\<close>

definition try_argument :: "parse_status \<times> string option \<times> 'v command list
    \<Rightarrow> ('v command list \<Rightarrow> 'd registry) \<Rightarrow> (bool \<times> 'd registry) run \<Rightarrow> (bool \<times> 'd registry) run" where
  "try_argument r store otherwise =
     (case r of
        (k_status_ok, _, cmds) \<Rightarrow> return (True, store cmds)
      | (k_status_invalid, _, cmds) \<Rightarrow> fail (Exit 1)
      | (k_status_not_found, _, cmds) \<Rightarrow> otherwise)"

text \<open>One round of the loop of \<open>parse_commandline_flags\<close> up to the help test: whether a flag took
  the argument, and the registry.\<close>

definition parse_one ::
  "(string \<Rightarrow> 'd option \<times> bool \<times> bool) \<Rightarrow> string \<Rightarrow> 'd registry \<Rightarrow> (bool \<times> 'd registry) run" where
  "parse_one dget arg reg =
     try_argument (parse_argument StringToValue_bool arg (bool_commands reg))
       (\<lambda>cs. reg\<lparr>bool_commands := cs\<rparr>)
    (try_argument (parse_argument (StringToValue_num (num_get Int32)) arg (int32_commands reg))
       (\<lambda>cs. reg\<lparr>int32_commands := cs\<rparr>)
    (try_argument (parse_argument (StringToValue_num dget) arg (double_commands reg))
       (\<lambda>cs. reg\<lparr>double_commands := cs\<rparr>)
    (try_argument (parse_argument (StringToValue_num (num_get Int64)) arg (int64_commands reg))
       (\<lambda>cs. reg\<lparr>int64_commands := cs\<rparr>)
    (try_argument (parse_argument (StringToValue_num (num_get UInt64)) arg (uint64_commands reg))
       (\<lambda>cs. reg\<lparr>uint64_commands := cs\<rparr>)
    (try_argument (parse_argument StringToValue_string arg (string_commands reg))
       (\<lambda>cs. reg\<lparr>string_commands := cs\<rparr>)
    (case parse_bool_argument_extra arg (bool_commands reg) of
       (k_status_ok, cs) \<Rightarrow> return (True, reg\<lparr>bool_commands := cs\<rparr>)
     | _ \<Rightarrow> return (False, reg)))))))"

definition swap_args :: "'a list \<Rightarrow> nat \<Rightarrow> nat \<Rightarrow> 'a list" where
  "swap_args argv i j = argv[i := argv ! j, j := argv ! i]"

function parse_loop :: "(string \<Rightarrow> 'd option \<times> bool \<times> bool) \<Rightarrow> bool \<Rightarrow> nat \<Rightarrow> nat \<Rightarrow> nat
    \<Rightarrow> 'd registry \<Rightarrow> string list \<Rightarrow> ('d registry \<times> nat \<times> string list) run" where
  "parse_loop dget with_help argc i unused_argc reg argv =
     (if i < argc
      then (let arg = argv ! i in
            bind (parse_one dget arg reg) (\<lambda>(taken, reg').
              if taken then parse_loop dget with_help argc (i + 1) unused_argc reg' argv
              else if with_help \<and> (arg = ''--help'' \<or> arg = ''-h'') then fail (Exit 1)
              else parse_loop dget with_help argc (i + 1) (unused_argc + 1) reg'
                     (swap_args argv unused_argc i)))
      else return (reg, unused_argc, argv))"
  by pat_completeness auto
termination
  by (relation "measure (\<lambda>(d, h, argc, i, u, reg, argv). argc - i)") auto

declare parse_loop.simps [simp del]

text \<open>The new \<open>*argc\<close>, the reordered \<open>argv\<close> and the registry with the new values.\<close>

definition parse_commandline_flags :: "(string \<Rightarrow> 'd option \<times> bool \<times> bool) \<Rightarrow> bool \<Rightarrow> 'd registry
    \<Rightarrow> string list \<Rightarrow> ('d registry \<times> nat \<times> string list) run" where
  "parse_commandline_flags dget with_help reg argv =
     parse_loop dget with_help (length argv) 1 1 reg argv"

section \<open>Lemmas: what a flag accepts does not depend on its value\<close>

text \<open>Two registries with the same names in the same places.\<close>

definition same_names :: "'d registry \<Rightarrow> 'd registry \<Rightarrow> bool" where
  "same_names r s \<longleftrightarrow>
     map cmd_name (bool_commands r) = map cmd_name (bool_commands s) \<and>
     map cmd_name (int32_commands r) = map cmd_name (int32_commands s) \<and>
     map cmd_name (double_commands r) = map cmd_name (double_commands s) \<and>
     map cmd_name (int64_commands r) = map cmd_name (int64_commands s) \<and>
     map cmd_name (uint64_commands r) = map cmd_name (uint64_commands s) \<and>
     map cmd_name (string_commands r) = map cmd_name (string_commands s)"

definition value_blind :: "(string \<Rightarrow> 'v \<Rightarrow> 'v \<times> bool) \<Rightarrow> bool" where
  "value_blind conv \<longleftrightarrow> (\<forall>s v w. snd (conv s v) = snd (conv s w))"

lemma value_blind_convs [simp]:
  "value_blind StringToValue_bool" "value_blind (StringToValue_num get)"
  "value_blind StringToValue_string"
  by (simp_all add: value_blind_def StringToValue_bool_def StringToValue_num_def
      StringToValue_string_def Let_def)

lemma parse_argument_names:
  "parse_argument conv arg cs = (s, e, cs') \<Longrightarrow> map cmd_name cs' = map cmd_name cs"
  by (induction cs arbitrary: s e cs') (auto simp: Let_def split: if_splits prod.splits)

lemma parse_argument_not_found:
  "parse_argument conv arg cs = (k_status_not_found, e, cs') \<Longrightarrow> cs' = cs"
  by (induction cs arbitrary: e cs') (auto simp: Let_def split: if_splits prod.splits)

lemma parse_argument_status:
  assumes "value_blind conv" "map cmd_name cs = map cmd_name ds"
  shows "fst (parse_argument conv arg cs) = fst (parse_argument conv arg ds)"
  using assms(2)
proof (induction cs arbitrary: ds)
  case (Cons c cs)
  then obtain d ds' where ds: "ds = d # ds'" and n: "cmd_name d = cmd_name c"
    and t: "map cmd_name cs = map cmd_name ds'"
    by auto
  have "snd (conv x (cmd_value c)) = snd (conv x (cmd_value d))" for x
    using assms(1) by (auto simp: value_blind_def)
  with Cons.IH [OF t] n ds show ?case
    by (auto simp: Let_def split: prod.splits if_splits) (metis snd_conv)+
qed simp

lemma parse_bool_extra_names:
  "parse_bool_argument_extra arg cs = (s, cs') \<Longrightarrow> map cmd_name cs' = map cmd_name cs"
  by (induction cs arbitrary: s cs') (auto simp: Let_def split: if_splits prod.splits)

lemma parse_bool_extra_status:
  "map cmd_name cs = map cmd_name ds \<Longrightarrow>
   fst (parse_bool_argument_extra arg cs) = fst (parse_bool_argument_extra arg ds)"
proof (induction cs arbitrary: ds)
  case (Cons c cs)
  then obtain d ds' where "ds = d # ds'" "cmd_name d = cmd_name c" "map cmd_name cs = map cmd_name ds'"
    by auto
  with Cons.IH [of ds'] show ?case by (auto simp: Let_def split: prod.splits)
qed simp

text \<open>How one argument fares: \<open>None\<close> for the exit on invalid text, else whether a flag took it.\<close>

definition outcome :: "(bool \<times> 'd registry) run \<Rightarrow> bool option" where
  "outcome m = (case snd m of Inl f \<Rightarrow> None | Inr (b, r) \<Rightarrow> Some b)"

definition flag_outcome :: "(string \<Rightarrow> 'd option \<times> bool \<times> bool) \<Rightarrow> 'd registry \<Rightarrow> string \<Rightarrow> bool option" where
  "flag_outcome dget reg arg = outcome (parse_one dget arg reg)"

lemma outcome_return [simp]: "outcome (return (b, r)) = Some b"
  by (simp add: outcome_def)

lemma outcome_fail [simp]: "outcome (fail f) = None"
  by (simp add: outcome_def)

lemma outcome_try:
  "outcome (try_argument r store k) =
     (case fst r of k_status_ok \<Rightarrow> Some True | k_status_invalid \<Rightarrow> None | k_status_not_found \<Rightarrow> outcome k)"
  by (auto simp: try_argument_def split: prod.splits parse_status.splits)

lemma outcome_bool_extra:
  "outcome (case parse_bool_argument_extra arg cs of
       (k_status_ok, cs') \<Rightarrow> return (True, f cs') | _ \<Rightarrow> return (False, reg)) =
   Some (fst (parse_bool_argument_extra arg cs) = k_status_ok)"
  by (auto split: prod.splits parse_status.splits)

lemma flag_outcome_same:
  assumes "same_names r s"
  shows "flag_outcome dget r arg = flag_outcome dget s arg"
proof -
  note st = parse_argument_status [where arg = arg]
  have "fst (parse_argument StringToValue_bool arg (bool_commands r)) =
        fst (parse_argument StringToValue_bool arg (bool_commands s))"
    "fst (parse_argument (StringToValue_num (num_get Int32)) arg (int32_commands r)) =
     fst (parse_argument (StringToValue_num (num_get Int32)) arg (int32_commands s))"
    "fst (parse_argument (StringToValue_num dget) arg (double_commands r)) =
     fst (parse_argument (StringToValue_num dget) arg (double_commands s))"
    "fst (parse_argument (StringToValue_num (num_get Int64)) arg (int64_commands r)) =
     fst (parse_argument (StringToValue_num (num_get Int64)) arg (int64_commands s))"
    "fst (parse_argument (StringToValue_num (num_get UInt64)) arg (uint64_commands r)) =
     fst (parse_argument (StringToValue_num (num_get UInt64)) arg (uint64_commands s))"
    "fst (parse_argument StringToValue_string arg (string_commands r)) =
     fst (parse_argument StringToValue_string arg (string_commands s))"
    "fst (parse_bool_argument_extra arg (bool_commands r)) =
     fst (parse_bool_argument_extra arg (bool_commands s))"
    using assms by (auto simp: same_names_def intro!: st parse_bool_extra_status)
  then show ?thesis
    by (simp add: flag_outcome_def parse_one_def outcome_try outcome_bool_extra
        cong: parse_status.case_cong)
qed

definition keeps_names :: "(bool \<times> 'd registry) run \<Rightarrow> 'd registry \<Rightarrow> bool" where
  "keeps_names m reg \<longleftrightarrow> fst m = [] \<and>
     (case snd m of Inl f \<Rightarrow> f = Exit 1 | Inr (b, r) \<Rightarrow> same_names r reg)"

lemma same_names_refl [simp]: "same_names r r"
  by (simp add: same_names_def)

lemma same_names_trans: "same_names r s \<Longrightarrow> same_names s t \<Longrightarrow> same_names r t"
  by (simp add: same_names_def)

lemma keeps_names_try:
  assumes "\<And>cs'. map cmd_name cs' = map cmd_name cs \<Longrightarrow> same_names (store cs') reg" "keeps_names k reg"
  shows "keeps_names (try_argument (parse_argument conv arg cs) store k) reg"
proof (cases "parse_argument conv arg cs")
  case (fields st e cs')
  with assms parse_argument_names [OF this] show ?thesis
    by (cases st) (auto simp: try_argument_def keeps_names_def)
qed

lemma parse_one_keeps_names: "keeps_names (parse_one dget arg reg) reg"
  unfolding parse_one_def
  by (intro keeps_names_try)
    (auto simp: same_names_def keeps_names_def split: prod.splits parse_status.splits
      dest: parse_bool_extra_names)

lemma parse_one_cases:
  obtains (leaves) "parse_one dget arg reg = fail (Exit 1)" "flag_outcome dget reg arg = None"
  | (ok) b r where "parse_one dget arg reg = return (b, r)" "flag_outcome dget reg arg = Some b"
      "same_names r reg"
proof -
  obtain l r where m: "parse_one dget arg reg = (l, r)" by force
  show ?thesis
  proof (cases r)
    case (Inl f)
    with m parse_one_keeps_names [of dget arg reg] leaves show ?thesis
      by (auto simp: keeps_names_def fail_def flag_outcome_def outcome_def)
  next
    case (Inr x)
    with m parse_one_keeps_names [of dget arg reg] ok show ?thesis
      by (cases x) (auto simp: keeps_names_def return_def flag_outcome_def outcome_def)
  qed
qed

section \<open>Lemmas: the loop\<close>

definition is_help :: "string \<Rightarrow> bool" where
  "is_help arg \<longleftrightarrow> arg = ''--help'' \<or> arg = ''-h''"

text \<open>An argument that ends the process: invalid text for a flag, or a call for help.\<close>

definition stops :: "(string \<Rightarrow> 'd option \<times> bool \<times> bool) \<Rightarrow> bool \<Rightarrow> 'd registry \<Rightarrow> string \<Rightarrow> bool" where
  "stops dget with_help reg arg \<longleftrightarrow>
     flag_outcome dget reg arg = None \<or> (with_help \<and> is_help arg \<and> flag_outcome dget reg arg = Some False)"

lemma stops_same: "same_names r s \<Longrightarrow> stops dget h r arg = stops dget h s arg"
  by (simp add: stops_def flag_outcome_same [of r s])

lemma swap_args_length [simp]: "length (swap_args argv i j) = length argv"
  by (simp add: swap_args_def)

lemma swap_args_mset: "i < length argv \<Longrightarrow> j < length argv \<Longrightarrow> mset (swap_args argv i j) = mset argv"
  by (simp add: swap_args_def mset_swap)

lemma swap_args_take:
  "u \<le> i \<Longrightarrow> i < length argv \<Longrightarrow> take (Suc u) (swap_args argv u i) = take u argv @ [argv ! i]"
  by (auto simp: swap_args_def take_Suc_conv_app_nth nth_list_update)

lemma swap_args_drop: "u \<le> i \<Longrightarrow> drop (Suc i) (swap_args argv u i) = drop (Suc i) argv"
  by (simp add: swap_args_def drop_update_cancel)

lemma parse_loop_spec:
  assumes "u \<le> i" "i \<le> length argv"
  shows "if \<exists>a \<in> set (drop i argv). stops dget h reg a
         then parse_loop dget h (length argv) i u reg argv = fail (Exit 1)
         else \<exists>reg' u' argv'. parse_loop dget h (length argv) i u reg argv = return (reg', u', argv')
           \<and> mset argv' = mset argv \<and> same_names reg' reg \<and> u' \<le> length argv
           \<and> take u' argv' = take u argv @ filter (\<lambda>a. flag_outcome dget reg a = Some False) (drop i argv)"
  using assms
proof (induction "length argv - i" arbitrary: i u reg argv)
  case 0
  then have "i = length argv" by simp
  moreover have "parse_loop dget h (length argv) (length argv) u reg argv = return (reg, u, argv)"
    by (subst parse_loop.simps) simp
  ultimately show ?case using 0 by auto
next
  case (Suc n)
  then have i: "i < length argv" by simp
  let ?a = "argv ! i"
  have dr: "drop i argv = ?a # drop (Suc i) argv" using i by (rule Cons_nth_drop_Suc [symmetric])
  show ?case
  proof (cases rule: parse_one_cases [of dget ?a reg])
    case leaves
    then show ?thesis using i dr by (subst parse_loop.simps) (simp add: stops_def)
  next
    case (ok b r)
    have blind: "stops dget h r x = stops dget h reg x" "flag_outcome dget r x = flag_outcome dget reg x" for x
      using ok(3) by (simp_all add: stops_same flag_outcome_same)
    consider (taken) "b" | (wants_help) "\<not> b" "h \<and> is_help ?a" | (left) "\<not> b" "\<not> (h \<and> is_help ?a)" by blast
    then show ?thesis
    proof cases
      case taken
      have eq: "parse_loop dget h (length argv) i u reg argv = parse_loop dget h (length argv) (Suc i) u r argv"
        using i taken ok by (subst parse_loop.simps) simp
      have n: "n = length argv - Suc i" using Suc.hyps(2) by simp
      from Suc.hyps(1) [OF n, of u r] Suc.prems i taken ok dr show ?thesis
        unfolding eq by (auto simp: blind stops_def [of _ _ _ ?a] intro: same_names_trans split: if_splits)
    next
      case wants_help
      then show ?thesis using i ok dr by (subst parse_loop.simps) (simp add: stops_def is_help_def)
    next
      case left
      let ?argv = "swap_args argv u i"
      have eq: "parse_loop dget h (length argv) i u reg argv =
          parse_loop dget h (length ?argv) (Suc i) (Suc u) r ?argv"
        using i left ok by (subst parse_loop.simps) (auto simp: is_help_def)
      have n: "n = length ?argv - Suc i" using Suc.hyps(2) by simp
      from Suc.hyps(1) [OF n, of "Suc u" r] Suc.prems i left ok dr show ?thesis
        unfolding eq
        by (auto simp: blind stops_def [of _ _ _ ?a] swap_args_take swap_args_drop swap_args_mset
            intro: same_names_trans split: if_splits)
    qed
  qed
qed

section \<open>Lemmas: which flag an argument names\<close>

text \<open>Flag names are C++ identifiers: no equals sign, no leading dash.\<close>

definition flag_name :: "string \<Rightarrow> bool" where
  "flag_name n \<longleftrightarrow> CHR ''='' \<notin> set n \<and> (n \<noteq> [] \<longrightarrow> hd n \<noteq> CHR ''-'')"

lemma append_eq_sep: "e \<notin> set n \<Longrightarrow> e \<notin> set m \<Longrightarrow> n @ e # s = m @ e # t \<longleftrightarrow> n = m \<and> s = t"
  by (auto simp: append_eq_append_conv2 Cons_eq_append_conv append_eq_Cons_conv)

lemma argument_content_flag:
  assumes "flag_name n" "flag_name m" "d = ''-'' \<or> d = ''--''"
  shows "argument_content (d @ n @ ''='' @ content) m = (if m = n then content else [])"
proof -
  have sw: "starts_with (n @ CHR ''='' # content) (m @ ''='') \<longleftrightarrow> n = m"
    using assms(1,2) append_eq_sep [of "CHR ''=''" n m content]
    by (auto simp: starts_with_iff flag_name_def)
  have self: "starts_with (x @ CHR ''='' # content) (x @ ''='')" for x
    by (auto simp: starts_with_iff)
  have dash: "starts_with (CHR ''-'' # x) (CHR ''-'' # y) \<longleftrightarrow> starts_with x y" for x y
    by (simp add: starts_with_iff)
  have no1: "\<not> starts_with (CHR ''-'' # x) (k @ ''='')" if "flag_name k" for x k
    using that by (cases k) (auto simp: starts_with_iff flag_name_def)
  have no2: "\<not> starts_with (n @ CHR ''='' # content) (CHR ''-'' # y)" for y
    using assms(1) by (cases n) (auto simp: starts_with_iff flag_name_def)
  from assms(3) show ?thesis
    by (auto simp: argument_content_def Let_def dash sw self no1 no2 substr_def assms(1,2))
qed

lemma parse_bool_extra_unchanged:
  "parse_bool_argument_extra arg cs = (s, cs') \<Longrightarrow> s \<noteq> k_status_ok \<Longrightarrow> s = k_status_not_found \<and> cs' = cs"
  by (induction cs arbitrary: s cs') (auto simp: Let_def split: if_splits prod.splits)

lemma bool_prefix_match:
  "length name < length arg \<and> length arg - length name - 1 < length bool_prefixes \<and>
   arg = fst (bool_prefixes ! (length arg - length name - 1)) @ name
   \<longleftrightarrow> (\<exists>p \<in> set bool_prefixes. arg = fst p @ name)"
  by (auto simp: bool_prefixes_def nth_Cons' numeral_eq_Suc)

section \<open>Properties\<close>

text \<open>C27. When parsing returns, the new \<open>argc\<close> leading entries of \<open>argv\<close> are the program name and
  then exactly the arguments no flag takes, in their order; \<open>argv\<close> as a whole is a permutation of
  what it was, and the registries keep their flags and their order.\<close>

theorem parse_flags_partition:
  assumes "snd (parse_commandline_flags dget with_help reg (prog # args)) = Inr (reg', argc', argv')"
  shows "take argc' argv' = prog # filter (\<lambda>a. flag_outcome dget reg a = Some False) args
    \<and> mset argv' = mset (prog # args) \<and> argc' \<le> length argv' \<and> same_names reg' reg"
  using parse_loop_spec [of 1 1 "prog # args" dget with_help reg] assms mset_eq_length [of argv' "prog # args"]
  by (auto simp: parse_commandline_flags_def split: if_splits)

text \<open>A small registry for the examples: a boolean flag and a port number.\<close>

definition sample_registry :: "unit registry" where
  "sample_registry =
     \<lparr>bool_commands = register_flag ''gpu'' True ''use it'' [],
      int32_commands = register_flag ''port'' (Some 80) ''port'' [],
      double_commands = [], int64_commands = [], uint64_commands = [], string_commands = []\<rparr>"

definition no_double :: "string \<Rightarrow> unit option \<times> bool \<times> bool" where
  "no_double s = (None, True, True)"

theorem parse_flags_partition_witness:
  "take 2 [''prog'', ''x'', ''--port=42'', ''-nogpu''] =
     ''prog'' # filter (\<lambda>a. flag_outcome no_double sample_registry a = Some False)
                 [''--port=42'', ''x'', ''-nogpu'']
   \<and> mset [''prog'', ''x'', ''--port=42'', ''-nogpu''] = mset [''prog'', ''--port=42'', ''x'', ''-nogpu'']
   \<and> 2 \<le> length [''prog'', ''x'', ''--port=42'', ''-nogpu'']
   \<and> same_names (sample_registry
        \<lparr>int32_commands := [\<lparr>cmd_name = ''port'', cmd_value = Some 42, cmd_text = ''port'', cmd_default = Some 80\<rparr>],
         bool_commands := [\<lparr>cmd_name = ''gpu'', cmd_value = False, cmd_text = ''use it'', cmd_default = True\<rparr>]\<rparr>)
       sample_registry"
proof -
  have "snd (parse_commandline_flags no_double True sample_registry (''prog'' # [''--port=42'', ''x'', ''-nogpu''])) =
    Inr (sample_registry
        \<lparr>int32_commands := [\<lparr>cmd_name = ''port'', cmd_value = Some 42, cmd_text = ''port'', cmd_default = Some 80\<rparr>],
         bool_commands := [\<lparr>cmd_name = ''gpu'', cmd_value = False, cmd_text = ''use it'', cmd_default = True\<rparr>]\<rparr>,
      2, [''prog'', ''x'', ''--port=42'', ''-nogpu''])"
    by code_simp
  from parse_flags_partition [OF this] show ?thesis .
qed

text \<open>An argument \<open>-name=text\<close> or \<open>--name=text\<close> with nonempty text reaches the first flag of
  that name and no other: its value becomes the converted text, the status says whether the
  text was valid, and every other flag of the registry is as before.\<close>

theorem parse_argument_assigns:
  assumes "list_all (\<lambda>c. flag_name (cmd_name c)) (pre @ c # post)"
    and "cmd_name c \<notin> cmd_name ` set pre" and "content \<noteq> []" and "d = ''-'' \<or> d = ''--''"
    and "conv content (cmd_value c) = (v, ok)"
  shows "parse_argument conv (d @ cmd_name c @ ''='' @ content) (pre @ c # post) =
    (if ok then k_status_ok else k_status_invalid, if ok then None else Some (cmd_name c),
     pre @ c\<lparr>cmd_value := v\<rparr> # post)"
  using assms
proof (induction pre)
  case Nil
  then show ?case by (simp add: argument_content_flag [simplified] Let_def)
next
  case (Cons p pre)
  moreover from Cons.prems have "flag_name (cmd_name p)" "flag_name (cmd_name c)" "cmd_name p \<noteq> cmd_name c"
    by auto
  ultimately show ?case by (simp add: argument_content_flag [simplified])
qed

theorem parse_argument_assigns_witness:
  "parse_argument (StringToValue_num (num_get Int32)) (''--'' @ ''port'' @ ''='' @ ''9x'')
     ([] @ \<lparr>cmd_name = ''port'', cmd_value = Some 80, cmd_text = ''p'', cmd_default = Some 80\<rparr> # []) =
   (k_status_invalid, Some ''port'',
     [\<lparr>cmd_name = ''port'', cmd_value = Some 9, cmd_text = ''p'', cmd_default = Some 80\<rparr>])"
proof -
  let ?c = "\<lparr>cmd_name = ''port'', cmd_value = Some 80, cmd_text = ''p'', cmd_default = Some 80\<rparr>"
  have "StringToValue_num (num_get Int32) ''9x'' (cmd_value ?c) = (Some 9, False)" by code_simp
  moreover have "list_all (\<lambda>c. flag_name (cmd_name c)) ([] @ ?c # [])" by (simp add: flag_name_def)
  ultimately show ?thesis
    using parse_argument_assigns [of "[]" ?c "[]" "''9x''" "''--''" "StringToValue_num (num_get Int32)" "Some 9" False]
    by simp
qed

text \<open>The short forms of a boolean flag: an argument is taken exactly when it is some flag's
  name after \<open>-\<close>, \<open>--\<close>, \<open>-no\<close> or \<open>--no\<close>; otherwise the registry is unchanged.\<close>

theorem bool_short_forms:
  "(fst (parse_bool_argument_extra arg cs) = k_status_ok
      \<longleftrightarrow> (\<exists>c \<in> set cs. \<exists>p \<in> set bool_prefixes. arg = fst p @ cmd_name c))
   \<and> (fst (parse_bool_argument_extra arg cs) = k_status_ok
      \<or> parse_bool_argument_extra arg cs = (k_status_not_found, cs))"
proof (induction cs)
  case (Cons c cs)
  show ?case
  proof (cases "\<exists>p \<in> set bool_prefixes. arg = fst p @ cmd_name c")
    case True
    then show ?thesis
      using bool_prefix_match [of "cmd_name c" arg] by (auto simp: Let_def)
  next
    case False
    then have "parse_bool_argument_extra arg (c # cs) =
        (case parse_bool_argument_extra arg cs of (s, cs') \<Rightarrow> (s, c # cs'))"
      using bool_prefix_match [of "cmd_name c" arg] by (auto simp: Let_def)
    with False Cons show ?thesis by (auto split: prod.splits)
  qed
qed simp

section \<open>When parsing leaves the process\<close>

text \<open>An argument gives a flag a text; a boolean flag also has its short forms. A text is valid for a flag
  by its type: for a boolean it is one of four words in any case, for a number the stream's extraction
  succeeds and leaves nothing, and any text is a string.\<close>

definition gives :: "string \<Rightarrow> string \<Rightarrow> string \<Rightarrow> bool" where
  "gives arg name text \<longleftrightarrow> text \<noteq> [] \<and> (arg = ''--'' @ name @ ''='' @ text \<or> arg = ''-'' @ name @ ''='' @ text)"

definition short_form :: "string \<Rightarrow> string \<Rightarrow> bool" where
  "short_form arg name \<longleftrightarrow> arg \<in> {''-'' @ name, ''--'' @ name, ''-no'' @ name, ''--no'' @ name}"

definition bool_text :: "string \<Rightarrow> bool" where
  "bool_text text \<longleftrightarrow> map ascii_lower text \<in> {''true'', ''1'', ''false'', ''0''}"

definition number_text :: "(string \<Rightarrow> 'v option \<times> bool \<times> bool) \<Rightarrow> string \<Rightarrow> bool" where
  "number_text get text \<longleftrightarrow> (case get text of (v, failed, at_end) \<Rightarrow> \<not> failed \<and> at_end)"

text \<open>The flags of a registry in the order they are tried, each with the texts valid for it.\<close>

definition flags_in_order :: "(string \<Rightarrow> 'd option \<times> bool \<times> bool) \<Rightarrow> 'd registry \<Rightarrow> (string \<times> (string \<Rightarrow> bool)) list" where
  "flags_in_order dget reg =
     map (\<lambda>c. (cmd_name c, bool_text)) (bool_commands reg) @
     map (\<lambda>c. (cmd_name c, number_text (num_get Int32))) (int32_commands reg) @
     map (\<lambda>c. (cmd_name c, number_text dget)) (double_commands reg) @
     map (\<lambda>c. (cmd_name c, number_text (num_get Int64))) (int64_commands reg) @
     map (\<lambda>c. (cmd_name c, number_text (num_get UInt64))) (uint64_commands reg) @
     map (\<lambda>c. (cmd_name c, \<lambda>text. True)) (string_commands reg)"

text \<open>The first flag that an argument gives a text finds the text invalid.\<close>

definition rejected :: "(string \<Rightarrow> 'd option \<times> bool \<times> bool) \<Rightarrow> 'd registry \<Rightarrow> string \<Rightarrow> bool" where
  "rejected dget reg arg \<longleftrightarrow> (\<exists>name valid text.
     find (\<lambda>f. \<exists>text. gives arg (fst f) text) (flags_in_order dget reg) = Some (name, valid) \<and>
     gives arg name text \<and> \<not> valid text)"

definition unanswered_help :: "'d registry \<Rightarrow> string \<Rightarrow> bool" where
  "unanswered_help reg arg \<longleftrightarrow>
     (arg = ''--help'' \<or> arg = ''-h'') \<and> (\<forall>c \<in> set (bool_commands reg). \<not> short_form arg (cmd_name c))"

lemma gives_content:
  assumes "flag_name name"
  shows "gives arg name text \<longleftrightarrow> text \<noteq> [] \<and> argument_content arg name = text"
proof
  assume "gives arg name text"
  then obtain d where d: "d = ''-'' \<or> d = ''--''" "arg = d @ name @ ''='' @ text" "text \<noteq> []"
    unfolding gives_def by (auto simp del: append.simps)
  with argument_content_flag [OF assms assms d(1), of "text"] show "text \<noteq> [] \<and> argument_content arg name = text" by simp
next
  assume "text \<noteq> [] \<and> argument_content arg name = text"
  then show "gives arg name text"
    by (auto simp: gives_def argument_content_def Let_def starts_with_iff substr_def split: if_splits)
qed

lemma find_append: "find P (xs @ ys) = (case find P xs of None \<Rightarrow> find P ys | Some x \<Rightarrow> Some x)"
  by (induction xs) auto

lemma find_holds:
  assumes "find P xs = Some x"
  shows "P x" "x \<in> set xs"
  using assms by (induction xs) (auto split: if_splits)

lemma parse_argument_first:
  assumes "\<And>text v. snd (conv text v) = valid text"
  shows "fst (parse_argument conv arg cs) =
    (case find (\<lambda>f. argument_content arg (fst f) \<noteq> []) (map (\<lambda>c. (cmd_name c, valid)) cs) of
       None \<Rightarrow> k_status_not_found
     | Some (name, valid) \<Rightarrow> if valid (argument_content arg name) then k_status_ok else k_status_invalid)"
proof (induction cs)
  case (Cons c cs)
  then show ?case using assms [of "argument_content arg (cmd_name c)" "cmd_value c"]
    by (auto simp: Let_def split: prod.splits)
qed simp

lemma conversion_valid:
  "snd (StringToValue_bool text b) = bool_text text" "snd (StringToValue_num get text v) = number_text get text"
  "snd (StringToValue_string text s)"
  by (auto simp: StringToValue_bool_def bool_text_def Let_def StringToValue_num_def to_with_status_def number_text_def
      StringToValue_string_def split: prod.splits)

lemma flag_outcome_first:
  "flag_outcome dget reg arg =
     (case find (\<lambda>f. argument_content arg (fst f) \<noteq> []) (flags_in_order dget reg) of
        None \<Rightarrow> Some (fst (parse_bool_argument_extra arg (bool_commands reg)) = k_status_ok)
      | Some (name, valid) \<Rightarrow> if valid (argument_content arg name) then Some True else None)"
proof -
  note first = parse_argument_first [where arg = arg]
  show ?thesis
    unfolding flag_outcome_def parse_one_def outcome_try outcome_bool_extra flags_in_order_def find_append
      first [OF conversion_valid(1)] first [OF conversion_valid(2)]
      first [where valid = "\<lambda>text. True", OF conversion_valid(3) [THEN eqTrueI]]
    by (auto split: option.splits)
qed

lemma stops_iff:
  assumes "list_all (\<lambda>(name, valid). flag_name name) (flags_in_order dget reg)"
  shows "stops dget with_help reg arg \<longleftrightarrow> rejected dget reg arg \<or> (with_help \<and> unanswered_help reg arg)"
proof -
  let ?flags = "flags_in_order dget reg"
  have names: "flag_name name" if "(name, valid) \<in> set ?flags" for name valid using assms that by (auto simp: list_all_iff)
  have same: "find (\<lambda>f. \<exists>text. gives arg (fst f) text) ?flags =
      find (\<lambda>f. argument_content arg (fst f) \<noteq> []) ?flags"
    by (rule find_cong) (auto simp: gives_content [OF names])
  have found: "flag_name name" if "find P ?flags = Some (name, valid)" for P name valid
  proof -
    have "(name, valid) \<in> set ?flags" using that by (rule find_holds(2))
    then show ?thesis by (rule names)
  qed
  have none: "flag_outcome dget reg arg = None \<longleftrightarrow> rejected dget reg arg"
  proof (cases "find (\<lambda>f. argument_content arg (fst f) \<noteq> []) ?flags")
    case None
    then show ?thesis by (simp add: flag_outcome_first rejected_def same)
  next
    case (Some f)
    obtain name valid where f: "f = (name, valid)" by (cases f)
    have content: "argument_content arg name \<noteq> []" using find_holds [OF Some] f by simp
    have "flag_name name" using found Some f by blast
    from gives_content [OF this] content Some f show ?thesis by (simp add: flag_outcome_first rejected_def same)
  qed
  have untouched: "find (\<lambda>f. argument_content arg (fst f) \<noteq> []) ?flags = None" if "is_help arg"
  proof -
    have "CHR ''='' \<notin> set arg" using that by (auto simp: is_help_def)
    then have "\<not> gives arg name t" for name t by (auto simp: gives_def)
    then show ?thesis unfolding same [symmetric] by (simp add: find_None_iff split_def)
  qed
  have extra: "fst (parse_bool_argument_extra arg (bool_commands reg)) = k_status_ok \<longleftrightarrow>
      (\<exists>c \<in> set (bool_commands reg). short_form arg (cmd_name c))"
    using bool_short_forms [of arg "bool_commands reg"] by (simp add: bool_prefixes_def short_form_def)
  have "is_help arg \<and> flag_outcome dget reg arg = Some False \<longleftrightarrow> unanswered_help reg arg"
  proof (cases "is_help arg")
    case True
    have "flag_outcome dget reg arg = Some (\<exists>c \<in> set (bool_commands reg). short_form arg (cmd_name c))"
      unfolding flag_outcome_first untouched [OF True] extra by simp
    with True show ?thesis by (simp add: unanswered_help_def is_help_def)
  qed (simp add: unanswered_help_def is_help_def)
  then show ?thesis unfolding stops_def none by blast
qed

text \<open>C28. Parsing leaves the process (with status 1) exactly when some argument is rejected or, with help
  enabled, is a call for help that no flag answers; otherwise it returns. An argument is rejected when the
  first flag that it gives a text, as \<open>-name=text\<close> or \<open>--name=text\<close> with the flags tried in the order of
  their types and of their registration, does not accept the text: a boolean flag accepts true, false, 1 and 0 in any
  case, a number what its extraction reads to the end, a string flag everything. A call for
  help is \<open>--help\<close> or \<open>-h\<close>; a boolean flag of that name answers it. Flag names are C++ identifiers,
  without an equals sign or a leading dash.\<close>

theorem parse_flags_exit_iff:
  assumes "list_all (\<lambda>(name, valid). flag_name name) (flags_in_order dget reg)"
  shows "(parse_commandline_flags dget with_help reg (prog # args) = fail (Exit 1) \<longleftrightarrow>
      (\<exists>arg \<in> set args. rejected dget reg arg \<or> (with_help \<and> unanswered_help reg arg)))
   \<and> ((\<exists>res. parse_commandline_flags dget with_help reg (prog # args) = return res) \<longleftrightarrow>
      \<not> (\<exists>arg \<in> set args. rejected dget reg arg \<or> (with_help \<and> unanswered_help reg arg)))"
  using parse_loop_spec [of 1 1 "prog # args" dget with_help reg]
  by (auto simp: parse_commandline_flags_def stops_iff [OF assms, symmetric] return_def fail_def split: if_splits)

theorem parse_flags_exit_iff_witness:
  "parse_commandline_flags no_double True sample_registry [''prog'', ''x'', ''--port=4x''] = fail (Exit 1) \<and>
   parse_commandline_flags no_double True sample_registry [''prog'', ''--help''] = fail (Exit 1) \<and>
   (\<exists>res. parse_commandline_flags no_double True sample_registry [''prog'', ''-port=4'', ''-gpu=4''] = return res) = False"
proof -
  have flags: "flags_in_order no_double sample_registry = [(''gpu'', bool_text), (''port'', number_text (num_get Int32))]"
    by (simp add: flags_in_order_def sample_registry_def register_flag_def)
  then have ok: "list_all (\<lambda>(name, valid). flag_name name) (flags_in_order no_double sample_registry)"
    by (simp add: flag_name_def)
  have "\<not> number_text (num_get Int32) ''4x''" "\<not> bool_text ''4''" by code_simp+
  then have "rejected no_double sample_registry ''--port=4x''" "rejected no_double sample_registry ''-gpu=4''"
    by (auto simp: rejected_def flags gives_def)
  moreover have "unanswered_help sample_registry ''--help''"
    by (simp add: unanswered_help_def sample_registry_def register_flag_def short_form_def)
  ultimately show ?thesis
    using parse_flags_exit_iff [OF ok, of True "''prog''" "[''x'', ''--port=4x'']"]
      parse_flags_exit_iff [OF ok, of True "''prog''" "[''--help'']"]
      parse_flags_exit_iff [OF ok, of True "''prog''" "[''-port=4'', ''-gpu=4'']"] by auto
qed

end
