(* ===== verification/FlagSettings.thy ===== *)
theory FlagSettings
  imports CommandLine
begin

text \<open>
  Whole command lines for utils/CommandLineParser.cpp: a list of settings of flags, of any of the types
  whose text the model reads, is written out as arguments, and the parser reads it back.
\<close>

section \<open>Settings and the arguments that write them\<close>

datatype flag_setting = BoolFlag string bool | IntFlag int_type string int | StringFlag string string

fun setting_argument :: "flag_setting \<Rightarrow> string" where
  "setting_argument (BoolFlag name b) = ''--'' @ name @ ''='' @ (if b then ''true'' else ''false'')"
| "setting_argument (IntFlag ty name i) = ''--'' @ name @ ''='' @ show_int i"
| "setting_argument (StringFlag name text) = ''--'' @ name @ ''='' @ text"

definition set_value :: "string \<Rightarrow> 'v \<Rightarrow> 'v command list \<Rightarrow> 'v command list" where
  "set_value name v = map (\<lambda>c. if cmd_name c = name then c\<lparr>cmd_value := v\<rparr> else c)"

fun apply_setting :: "flag_setting \<Rightarrow> 'd registry \<Rightarrow> 'd registry" where
  "apply_setting (BoolFlag name b) reg = reg\<lparr>bool_commands := set_value name b (bool_commands reg)\<rparr>"
| "apply_setting (IntFlag Int32 name i) reg = reg\<lparr>int32_commands := set_value name (Some i) (int32_commands reg)\<rparr>"
| "apply_setting (IntFlag Int64 name i) reg = reg\<lparr>int64_commands := set_value name (Some i) (int64_commands reg)\<rparr>"
| "apply_setting (IntFlag UInt64 name i) reg = reg\<lparr>uint64_commands := set_value name (Some i) (uint64_commands reg)\<rparr>"
| "apply_setting (StringFlag name text) reg = reg\<lparr>string_commands := set_value name text (string_commands reg)\<rparr>"

text \<open>The setting is of a registered flag of its type, the number is in the range of the type, and the text
  of a string flag is not empty (the parser takes an empty text for no match).\<close>

fun fits :: "'d registry \<Rightarrow> flag_setting \<Rightarrow> bool" where
  "fits reg (BoolFlag name b) = (name \<in> cmd_name ` set (bool_commands reg))"
| "fits reg (IntFlag Int32 name i) = (name \<in> cmd_name ` set (int32_commands reg) \<and> type_min Int32 \<le> i \<and> i \<le> type_max Int32)"
| "fits reg (IntFlag Int64 name i) = (name \<in> cmd_name ` set (int64_commands reg) \<and> type_min Int64 \<le> i \<and> i \<le> type_max Int64)"
| "fits reg (IntFlag UInt64 name i) = (name \<in> cmd_name ` set (uint64_commands reg) \<and> type_min UInt64 \<le> i \<and> i \<le> type_max UInt64)"
| "fits reg (StringFlag name text) = (name \<in> cmd_name ` set (string_commands reg) \<and> text \<noteq> [])"

text \<open>A flag is a C++ variable: its name is an identifier, and no two flags of any type share one.\<close>

definition all_names :: "'d registry \<Rightarrow> string list" where
  "all_names reg = map cmd_name (bool_commands reg) @ map cmd_name (int32_commands reg) @ map cmd_name (double_commands reg) @
     map cmd_name (int64_commands reg) @ map cmd_name (uint64_commands reg) @ map cmd_name (string_commands reg)"

definition flags_ok :: "'d registry \<Rightarrow> bool" where
  "flags_ok reg \<longleftrightarrow> distinct (all_names reg) \<and> list_all flag_name (all_names reg)"

section \<open>One argument\<close>

lemma set_value_names [simp]: "map cmd_name (set_value name v cs) = map cmd_name cs"
  by (simp add: set_value_def)

lemma set_value_name_set [simp]: "cmd_name ` set (set_value name v cs) = cmd_name ` set cs"
  by (metis list.set_map set_value_names)

lemma set_value_absent: "name \<notin> cmd_name ` set cs \<Longrightarrow> set_value name v cs = cs"
  unfolding set_value_def by (rule map_idI) auto

lemma parse_argument_absent:
  assumes "list_all flag_name (map cmd_name cs)" "flag_name name" "name \<notin> cmd_name ` set cs"
  shows "parse_argument conv (''--'' @ name @ ''='' @ content) cs = (k_status_not_found, None, cs)"
  using assms by (induction cs) (auto simp: argument_content_flag [where d = "''--''" and n = name, simplified] Let_def)

lemma parse_argument_sets:
  assumes "list_all flag_name (map cmd_name cs)" "distinct (map cmd_name cs)" "name \<in> cmd_name ` set cs" "content \<noteq> []"
    "\<And>old. conv content old = (v, True)"
  shows "parse_argument conv (''--'' @ name @ ''='' @ content) cs = (k_status_ok, None, set_value name v cs)"
proof -
  from assms(3) obtain c pre post where cs: "cs = pre @ c # post" "cmd_name c = name" by (metis imageE split_list)
  then have "set_value name v cs = pre @ c\<lparr>cmd_value := v\<rparr> # post"
    using assms(2) set_value_absent [of name pre v] set_value_absent [of name post v] by (auto simp: set_value_def)
  moreover have "list_all (\<lambda>c. flag_name (cmd_name c)) (pre @ c # post)" "cmd_name c \<notin> cmd_name ` set pre"
    using assms(1,2) cs by (auto simp: list_all_iff)
  ultimately show ?thesis
    using parse_argument_assigns [of pre c post content "''--''" conv v True] assms(4,5) cs by simp
qed

lemma try_sets:
  assumes "list_all flag_name (map cmd_name cs)" "distinct (map cmd_name cs)" "name \<in> cmd_name ` set cs" "content \<noteq> []"
    "\<And>old. conv content old = (v, True)"
  shows "try_argument (parse_argument conv (''--'' @ name @ ''='' @ content) cs) store k = return (True, store (set_value name v cs))"
  unfolding parse_argument_sets [where conv = conv, OF assms] by (simp add: try_argument_def)

lemma try_absent:
  assumes "list_all flag_name (map cmd_name cs)" "flag_name name" "name \<notin> cmd_name ` set cs"
  shows "try_argument (parse_argument conv (''--'' @ name @ ''='' @ content) cs) store k = k"
  unfolding parse_argument_absent [OF assms] by (simp add: try_argument_def)

lemma show_int_nonempty: "show_int i \<noteq> []"
  by (simp add: show_int_def)

lemma bool_text: "StringToValue_bool (if b then ''true'' else ''false'') old = (b, True)"
  by (cases b) (simp_all add: StringToValue_bool_def ascii_lower_def char_code_def)

lemma int_text: "type_min ty \<le> i \<Longrightarrow> i \<le> type_max ty \<Longrightarrow> StringToValue_num (num_get ty) (show_int i) old = (Some i, True)"
  by (simp add: StringToValue_num_def to_with_status_def num_get_show_int)

lemma parse_one_setting:
  assumes "flags_ok reg" "fits reg a"
  shows "parse_one dget (setting_argument a) reg = return (True, apply_setting a reg)"
proof -
  have names: "list_all flag_name (map cmd_name (bool_commands reg))" "list_all flag_name (map cmd_name (int32_commands reg))"
    "list_all flag_name (map cmd_name (double_commands reg))" "list_all flag_name (map cmd_name (int64_commands reg))"
    "list_all flag_name (map cmd_name (uint64_commands reg))" "list_all flag_name (map cmd_name (string_commands reg))"
    using assms(1) by (simp_all add: flags_ok_def all_names_def)
  have once: "distinct (map cmd_name (bool_commands reg))" "distinct (map cmd_name (int32_commands reg))"
    "distinct (map cmd_name (int64_commands reg))" "distinct (map cmd_name (uint64_commands reg))" "distinct (map cmd_name (string_commands reg))"
    using assms(1) by (simp_all add: flags_ok_def all_names_def)
  have apart: "\<And>n. n \<in> cmd_name ` set (int32_commands reg) \<Longrightarrow> n \<notin> cmd_name ` set (bool_commands reg)"
    "\<And>n. n \<in> cmd_name ` set (int64_commands reg) \<Longrightarrow> n \<notin> cmd_name ` set (bool_commands reg) \<and> n \<notin> cmd_name ` set (int32_commands reg) \<and> n \<notin> cmd_name ` set (double_commands reg)"
    "\<And>n. n \<in> cmd_name ` set (uint64_commands reg) \<Longrightarrow> n \<notin> cmd_name ` set (bool_commands reg) \<and> n \<notin> cmd_name ` set (int32_commands reg) \<and> n \<notin> cmd_name ` set (double_commands reg) \<and> n \<notin> cmd_name ` set (int64_commands reg)"
    "\<And>n. n \<in> cmd_name ` set (string_commands reg) \<Longrightarrow> n \<notin> cmd_name ` set (bool_commands reg) \<and> n \<notin> cmd_name ` set (int32_commands reg) \<and> n \<notin> cmd_name ` set (double_commands reg) \<and> n \<notin> cmd_name ` set (int64_commands reg) \<and> n \<notin> cmd_name ` set (uint64_commands reg)"
    using assms(1) by (auto simp: flags_ok_def all_names_def)
  have flag: "flag_name name" if "name \<in> cmd_name ` set cs" "list_all flag_name (map cmd_name cs)" for name and cs :: "'b command list"
    using that by (auto simp: list_all_iff)
  show ?thesis
  proof (cases a)
    case (BoolFlag name b)
    with assms(2) show ?thesis
      by (simp only: parse_one_def setting_argument.simps apply_setting.simps fits.simps)
        (rule try_sets [OF names(1) once(1)]; simp add: bool_text)
  next
    case (IntFlag ty name i)
    show ?thesis
    proof (cases ty)
      case Int32
      with IntFlag assms(2) have n: "name \<in> cmd_name ` set (int32_commands reg)" "type_min Int32 \<le> i" "i \<le> type_max Int32" by simp_all
      with apart(1) [OF n(1)] have none: "name \<notin> cmd_name ` set (bool_commands reg)"
        by simp
      show ?thesis
        unfolding IntFlag Int32 parse_one_def setting_argument.simps apply_setting.simps
          try_absent [OF names(1) flag [OF n(1) names(2)] none(1)]
        by (rule try_sets [where conv = "StringToValue_num (num_get Int32)",
          OF names(2) once(2) n(1) show_int_nonempty int_text [OF n(2,3)]])
    next
      case Int64
      with IntFlag assms(2) have n: "name \<in> cmd_name ` set (int64_commands reg)" "type_min Int64 \<le> i" "i \<le> type_max Int64" by simp_all
      with apart(2) [OF n(1)] have none: "name \<notin> cmd_name ` set (bool_commands reg)" "name \<notin> cmd_name ` set (int32_commands reg)" "name \<notin> cmd_name ` set (double_commands reg)"
        by simp_all
      show ?thesis
        unfolding IntFlag Int64 parse_one_def setting_argument.simps apply_setting.simps
          try_absent [OF names(1) flag [OF n(1) names(4)] none(1)]
          try_absent [OF names(2) flag [OF n(1) names(4)] none(2)]
          try_absent [OF names(3) flag [OF n(1) names(4)] none(3)]
        by (rule try_sets [where conv = "StringToValue_num (num_get Int64)",
          OF names(4) once(3) n(1) show_int_nonempty int_text [OF n(2,3)]])
    next
      case UInt64
      with IntFlag assms(2) have n: "name \<in> cmd_name ` set (uint64_commands reg)" "type_min UInt64 \<le> i" "i \<le> type_max UInt64" by simp_all
      with apart(3) [OF n(1)] have none: "name \<notin> cmd_name ` set (bool_commands reg)" "name \<notin> cmd_name ` set (int32_commands reg)" "name \<notin> cmd_name ` set (double_commands reg)" "name \<notin> cmd_name ` set (int64_commands reg)"
        by simp_all
      show ?thesis
        unfolding IntFlag UInt64 parse_one_def setting_argument.simps apply_setting.simps
          try_absent [OF names(1) flag [OF n(1) names(5)] none(1)]
          try_absent [OF names(2) flag [OF n(1) names(5)] none(2)]
          try_absent [OF names(3) flag [OF n(1) names(5)] none(3)]
          try_absent [OF names(4) flag [OF n(1) names(5)] none(4)]
        by (rule try_sets [where conv = "StringToValue_num (num_get UInt64)",
          OF names(5) once(4) n(1) show_int_nonempty int_text [OF n(2,3)]])
    qed
  next
    case (StringFlag name content)
    with assms(2) have n: "name \<in> cmd_name ` set (string_commands reg)" "content \<noteq> []" by simp_all
    with apart(4) [OF n(1)] have none: "name \<notin> cmd_name ` set (bool_commands reg)" "name \<notin> cmd_name ` set (int32_commands reg)" "name \<notin> cmd_name ` set (double_commands reg)" "name \<notin> cmd_name ` set (int64_commands reg)" "name \<notin> cmd_name ` set (uint64_commands reg)"
      by simp_all
    show ?thesis
      unfolding StringFlag parse_one_def setting_argument.simps apply_setting.simps
        try_absent [OF names(1) flag [OF n(1) names(6)] none(1)]
        try_absent [OF names(2) flag [OF n(1) names(6)] none(2)]
        try_absent [OF names(3) flag [OF n(1) names(6)] none(3)]
        try_absent [OF names(4) flag [OF n(1) names(6)] none(4)]
        try_absent [OF names(5) flag [OF n(1) names(6)] none(5)]
      by (rule try_sets [where conv = StringToValue_string, OF names(6) once(5) n StringToValue_string_def])
  qed
qed

section \<open>The whole command line\<close>

lemma apply_setting_same_names [simp]: "same_names (apply_setting a reg) reg"
  by (cases "(a, reg)" rule: apply_setting.cases) (simp_all add: same_names_def)

lemma same_names_all: "same_names r s \<Longrightarrow> all_names r = all_names s"
  by (simp add: same_names_def all_names_def)

lemma same_names_flags_ok: "same_names r s \<Longrightarrow> flags_ok r = flags_ok s"
  by (simp add: flags_ok_def same_names_all)

lemma same_names_fits: "same_names r s \<Longrightarrow> fits r a = fits s a"
proof -
  assume same: "same_names r s"
  then have "cmd_name ` set (bool_commands r) = cmd_name ` set (bool_commands s)"
    "cmd_name ` set (int32_commands r) = cmd_name ` set (int32_commands s)"
    "cmd_name ` set (int64_commands r) = cmd_name ` set (int64_commands s)"
    "cmd_name ` set (uint64_commands r) = cmd_name ` set (uint64_commands s)"
    "cmd_name ` set (string_commands r) = cmd_name ` set (string_commands s)"
    unfolding same_names_def by (metis list.set_map)+
  then show ?thesis by (cases "(r, a)" rule: fits.cases) simp_all
qed

lemma parse_one_left:
  "parse_one dget arg reg = return (False, r) \<Longrightarrow> r = reg"
  by (auto simp: parse_one_def try_argument_def return_def split: prod.splits parse_status.splits)

text \<open>A command line: settings of flags, and other arguments.\<close>

datatype line_item = Setting flag_setting | Other string

fun item_argument :: "line_item \<Rightarrow> string" where
  "item_argument (Setting a) = setting_argument a"
| "item_argument (Other arg) = arg"

fun apply_item :: "line_item \<Rightarrow> 'd registry \<Rightarrow> 'd registry" where
  "apply_item (Setting a) reg = apply_setting a reg"
| "apply_item (Other arg) reg = reg"

fun others :: "line_item list \<Rightarrow> string list" where
  "others [] = []"
| "others (Setting a # items) = others items"
| "others (Other arg # items) = arg # others items"

text \<open>An argument that no flag takes and that does not call for help.\<close>

fun item_ok :: "(string \<Rightarrow> 'd option \<times> bool \<times> bool) \<Rightarrow> bool \<Rightarrow> 'd registry \<Rightarrow> line_item \<Rightarrow> bool" where
  "item_ok dget with_help reg (Setting a) = fits reg a"
| "item_ok dget with_help reg (Other arg) = (flag_outcome dget reg arg = Some False \<and> \<not> (with_help \<and> is_help arg))"

lemma same_names_item_ok: "same_names r s \<Longrightarrow> item_ok dget h r = item_ok dget h s"
proof
  fix x assume "same_names r s"
  then show "item_ok dget h r x = item_ok dget h s x" by (cases x) (simp_all add: same_names_fits flag_outcome_same)
qed

lemma parse_loop_settings:
  assumes "flags_ok reg" "list_all (item_ok dget h reg) items" "u \<le> i" "i \<le> length argv" "drop i argv = map item_argument items"
  shows "\<exists>u' argv'. parse_loop dget h (length argv) i u reg argv = return (fold apply_item items reg, u', argv') \<and>
    take u' argv' = take u argv @ others items"
  using assms
proof (induction items arbitrary: i u reg argv)
  case Nil
  then have "i = length argv" by simp
  then have "parse_loop dget h (length argv) i u reg argv = return (reg, u, argv)" by (subst parse_loop.simps) simp
  then show ?case by simp
next
  case (Cons x items)
  from Cons.prems(4,5) have i: "i < length argv" by (cases "i = length argv") auto
  then have arg: "argv ! i = item_argument x" "drop (Suc i) argv = map item_argument items"
    using Cons.prems(5) by (simp_all add: Cons_nth_drop_Suc [symmetric])
  show ?case
  proof (cases x)
    case (Setting a)
    let ?reg = "apply_setting a reg"
    have "parse_one dget (argv ! i) reg = return (True, ?reg)"
      using parse_one_setting [OF Cons.prems(1), of a dget] Cons.prems(2) arg Setting by simp
    then have "parse_loop dget h (length argv) i u reg argv = parse_loop dget h (length argv) (Suc i) u ?reg argv"
      using i by (subst parse_loop.simps) simp
    moreover have "flags_ok ?reg" "list_all (item_ok dget h ?reg) items"
      using Cons.prems(1,2) by (simp_all add: same_names_flags_ok [OF apply_setting_same_names] same_names_item_ok [OF apply_setting_same_names])
    ultimately show ?thesis using Cons.IH [of ?reg u "Suc i" argv] Cons.prems(3) i arg Setting by simp
  next
    case (Other rest)
    let ?argv = "swap_args argv u i"
    from Cons.prems(2) Other have left: "flag_outcome dget reg rest = Some False" "\<not> (h \<and> is_help rest)" by simp_all
    then have "parse_one dget (argv ! i) reg = return (False, reg)"
      using arg Other by (cases rule: parse_one_cases [of dget rest reg]) (auto dest: parse_one_left)
    then have "parse_loop dget h (length argv) i u reg argv = parse_loop dget h (length ?argv) (Suc i) (Suc u) reg ?argv"
      using i left(2) arg Other by (subst parse_loop.simps) (auto simp: is_help_def)
    moreover have "drop (Suc i) ?argv = map item_argument items" using swap_args_drop [OF Cons.prems(3), of argv] arg by simp
    moreover have "take (Suc u) ?argv = take u argv @ [rest]" using swap_args_take [OF Cons.prems(3) i] arg Other by simp
    ultimately show ?thesis using Cons.IH [of reg "Suc u" "Suc i" ?argv] Cons.prems i Other by simp
  qed
qed

text \<open>C29. What is written on a command line is what the flags have afterwards. For any command line of
  settings (boolean flags as \<open>true\<close> or \<open>false\<close>, numbers printed in decimal, any text that is not empty) mixed
  with arguments that no flag takes, on registries with distinct identifiers: the parser returns, the
  registries are those in which each setting has been stored in turn, so that the last one for a flag wins
  and every other flag has its old value, nothing is logged, and what is left of the arguments is the
  program name and the others, in their order.\<close>

theorem command_line_roundtrip:
  assumes "flags_ok reg" "list_all (item_ok dget with_help reg) items"
  shows "\<exists>argc' argv'. parse_commandline_flags dget with_help reg (prog # map item_argument items) =
      return (fold apply_item items reg, argc', argv') \<and> take argc' argv' = prog # others items"
  using parse_loop_settings [OF assms, of 1 1 "prog # map item_argument items"]
  by (simp add: parse_commandline_flags_def)

theorem command_line_roundtrip_witness:
  "\<exists>argc' argv'. parse_commandline_flags no_double True sample_registry
      [''prog'', ''--port=8'', ''x'', ''--gpu=false'', ''--port=9''] =
      return (sample_registry
        \<lparr>int32_commands := [\<lparr>cmd_name = ''port'', cmd_value = Some 9, cmd_text = ''port'', cmd_default = Some 80\<rparr>],
         bool_commands := [\<lparr>cmd_name = ''gpu'', cmd_value = False, cmd_text = ''use it'', cmd_default = True\<rparr>]\<rparr>, argc', argv') \<and>
    take argc' argv' = [''prog'', ''x'']"
proof -
  let ?items = "[Setting (IntFlag Int32 ''port'' 8), Other ''x'', Setting (BoolFlag ''gpu'' False), Setting (IntFlag Int32 ''port'' 9)]"
  have ok: "flags_ok sample_registry"
    by (simp add: flags_ok_def all_names_def sample_registry_def register_flag_def flag_name_def)
  have "flag_outcome no_double sample_registry ''x'' = Some False" by code_simp
  then have items: "list_all (item_ok no_double True sample_registry) ?items"
    by (simp add: is_help_def) (simp add: sample_registry_def register_flag_def)
  have shown: "show_int 8 = ''8''" "show_int 9 = ''9''" by code_simp+
  have settings: "fold apply_item ?items sample_registry = sample_registry
        \<lparr>int32_commands := [\<lparr>cmd_name = ''port'', cmd_value = Some 9, cmd_text = ''port'', cmd_default = Some 80\<rparr>],
         bool_commands := [\<lparr>cmd_name = ''gpu'', cmd_value = False, cmd_text = ''use it'', cmd_default = True\<rparr>]\<rparr>"
    by (simp add: set_value_def sample_registry_def register_flag_def)
  have "map item_argument ?items = [''--port=8'', ''x'', ''--gpu=false'', ''--port=9'']" by (simp add: shown)
  with command_line_roundtrip [OF ok items, of "''prog''"] show ?thesis unfolding settings by simp
qed

end
