(* ===== verification/CoreQueue.thy ===== *)
theory CoreQueue
  imports Prelude
begin

text \<open>
  core/Queue.h: the blocking queue. Every operation runs under \<open>_queue_lock\<close>, so it is one
  atomic function; \<open>sleeping\<close> are the threads waiting on \<open>_cv\<close>. \<open>_cv.wait(lock, p)\<close> is a loop:
  a thread that finds \<open>p\<close> false sleeps, and a woken thread tests \<open>p\<close> again, so a blocked
  operation is the same operation started again (\<open>None\<close> is "went to sleep"). Spurious wake-ups
  are steps of the system. \<open>_num_elements\<close> is an \<open>int\<close> of 32 bits in the code and unbounded here: what is
  proved of a queue is about fewer than \<open>2^31\<close> elements at a time, and the overflow that one more would cause
  is not modelled.
\<close>

section \<open>State and operations\<close>

record 'a queue =
  elements :: "'a list"
  num_elements :: int
  sleeping :: "nat list"

definition new_queue :: "'a queue" where
  "new_queue = \<lparr>elements = [], num_elements = 0, sleeping = []\<rparr>"

definition enqueue :: "'a \<Rightarrow> 'a queue \<Rightarrow> 'a queue" where
  "enqueue x q = q\<lparr>elements := elements q @ [x], num_elements := num_elements q + 1, sleeping := []\<rparr>"

definition dequeue :: "nat \<Rightarrow> 'a queue \<Rightarrow> ('a option \<times> 'a queue) run" where
  "dequeue t q =
     (if \<not> (num_elements q \<noteq> 0) then return (None, q\<lparr>sleeping := t # sleeping q\<rparr>)
      else case elements q of
        [] \<Rightarrow> fail EmptyContainer
      | element # rest \<Rightarrow>
          let q' = q\<lparr>elements := rest, num_elements := num_elements q - 1\<rparr> in
          return (Some element, if num_elements q' = 0 then q'\<lparr>sleeping := []\<rparr> else q'))"

definition size_of_queue :: "'a queue \<Rightarrow> int" where
  "size_of_queue q = num_elements q"

definition queue_empty :: "'a queue \<Rightarrow> bool" where
  "queue_empty q \<longleftrightarrow> num_elements q = 0"

definition wait_empty :: "nat \<Rightarrow> 'a queue \<Rightarrow> bool \<times> 'a queue" where
  "wait_empty t q =
     (if num_elements q = 0 then (True, q) else (False, q\<lparr>sleeping := t # sleeping q\<rparr>))"

definition queue_ok :: "'a queue \<Rightarrow> bool" where
  "queue_ok q \<longleftrightarrow> num_elements q = int (length (elements q))"

lemma queue_ok_new [simp, inv_intros]: "queue_ok new_queue"
  by (simp add: queue_ok_def new_queue_def)

lemma queue_ok_enqueue [simp, inv_intros]: "queue_ok q \<Longrightarrow> queue_ok (enqueue x q)"
  by (simp add: queue_ok_def enqueue_def)

lemma elements_enqueue [simp]: "elements (enqueue x q) = elements q @ [x]"
  by (simp add: enqueue_def)

lemma sleeping_enqueue [simp]: "sleeping (enqueue x q) = []"
  by (simp add: enqueue_def)

lemma elements_new [simp]: "elements new_queue = []" "sleeping new_queue = []"
  by (simp_all add: new_queue_def)

lemma queue_empty_iff: "queue_ok q \<Longrightarrow> queue_empty q \<longleftrightarrow> elements q = []"
  by (simp add: queue_ok_def queue_empty_def)

lemma dequeue_empty:
  "queue_ok q \<Longrightarrow> elements q = [] \<Longrightarrow> dequeue t q = return (None, q\<lparr>sleeping := t # sleeping q\<rparr>)"
  by (simp add: queue_ok_def dequeue_def)

lemma dequeue_Cons:
  "queue_ok q \<Longrightarrow> elements q = x # xs \<Longrightarrow>
   dequeue t q = return (Some x, q\<lparr>elements := xs, num_elements := int (length xs),
                                   sleeping := (if xs = [] then [] else sleeping q)\<rparr>)"
  by (simp add: queue_ok_def dequeue_def Let_def)

section \<open>The interface of a queue\<close>

locale fifo =
  fixes enq :: "'a \<Rightarrow> 'q \<Rightarrow> 'q"
    and deq :: "nat \<Rightarrow> 'q \<Rightarrow> ('a option \<times> 'q) run"
    and is_empty :: "'q \<Rightarrow> bool"
    and contents :: "'q \<Rightarrow> 'a list"
    and ok :: "'q \<Rightarrow> bool"
  assumes enq_ok: "ok q \<Longrightarrow> ok (enq x q)"
    and enq_contents: "ok q \<Longrightarrow> contents (enq x q) = contents q @ [x]"
    and deq_blocks: "ok q \<Longrightarrow> contents q = [] \<Longrightarrow>
      \<exists>q'. deq t q = return (None, q') \<and> ok q' \<and> contents q' = []"
    and deq_first: "ok q \<Longrightarrow> contents q = x # xs \<Longrightarrow>
      \<exists>q'. deq t q = return (Some x, q') \<and> ok q' \<and> contents q' = xs"
    and is_empty: "ok q \<Longrightarrow> is_empty q \<longleftrightarrow> contents q = []"

text \<open>A sequence of operations, and the elements its \<open>dequeue\<close>s returned, in order.\<close>

datatype 'a queue_op = Enq 'a | Deq nat

fun run_ops :: "('a \<Rightarrow> 'q \<Rightarrow> 'q) \<Rightarrow> (nat \<Rightarrow> 'q \<Rightarrow> ('a option \<times> 'q) run) \<Rightarrow> 'q \<Rightarrow> 'a queue_op list
    \<Rightarrow> ('a list \<times> 'q) run" where
  "run_ops enq deq q [] = return ([], q)"
| "run_ops enq deq q (Enq x # ops) = run_ops enq deq (enq x q) ops"
| "run_ops enq deq q (Deq t # ops) =
     bind (deq t q) (\<lambda>(r, q').
     bind (run_ops enq deq q' ops) (\<lambda>(out, q'').
       return ((case r of None \<Rightarrow> out | Some x \<Rightarrow> x # out), q'')))"

fun enqueued :: "'a queue_op list \<Rightarrow> 'a list" where
  "enqueued [] = []"
| "enqueued (Enq x # ops) = x # enqueued ops"
| "enqueued (Deq t # ops) = enqueued ops"

context fifo
begin

lemma deq_cases [consumes 1, case_names blocks takes]:
  assumes "ok q"
  obtains (blocks) q' where "contents q = []" "deq t q = return (None, q')" "ok q'" "contents q' = []"
  | (takes) x xs q' where "contents q = x # xs" "deq t q = return (Some x, q')" "ok q'" "contents q' = xs"
proof (cases "contents q")
  case Nil
  with deq_blocks [OF assms] blocks show ?thesis by blast
next
  case (Cons x xs)
  with deq_first [OF assms] takes show ?thesis by blast
qed

lemma run_ops_fifo:
  "ok q \<Longrightarrow> \<exists>out q'. run_ops enq deq q ops = return (out, q') \<and> ok q' \<and>
     out @ contents q' = contents q @ enqueued ops"
proof (induction ops arbitrary: q rule: enqueued.induct)
  case (2 x ops)
  from "2.IH" [OF enq_ok [OF "2.prems", of x]] show ?case
    by (auto simp: enq_contents [OF "2.prems"])
next
  case (3 t ops)
  from "3.prems" show ?case
  proof (cases rule: deq_cases [where t = t])
    case (blocks q')
    with "3.IH" [of q'] show ?thesis by auto
  next
    case (takes x xs q')
    with "3.IH" [of q'] show ?thesis by auto
  qed
qed simp

end

interpretation queue_fifo: fifo enqueue dequeue queue_empty elements queue_ok
  by unfold_locales
    (auto simp: queue_empty_iff dequeue_empty dequeue_Cons, auto simp: queue_ok_def)

section \<open>Threads on one queue\<close>

text \<open>
  Any number of threads call the operations. A thread inside \<open>dequeue\<close> or \<open>wait_empty\<close> that is
  not asleep evaluates the predicate; a sleeping thread is in \<open>sleeping\<close>. \<open>wake\<close> is a spurious
  wake-up.
\<close>

datatype caller = Outside | InDequeue | InWaitEmpty

record 'a queue_system =
  shared_queue :: "'a queue"
  callers :: "nat \<Rightarrow> caller"

inductive queue_step :: "'a queue_system \<Rightarrow> 'a queue_system \<Rightarrow> bool" where
  call_enqueue: "callers s t = Outside \<Longrightarrow>
     queue_step s (s\<lparr>shared_queue := enqueue x (shared_queue s)\<rparr>)"
| call_dequeue: "callers s t = Outside \<Longrightarrow>
     queue_step s (s\<lparr>callers := (callers s)(t := InDequeue)\<rparr>)"
| dequeue_sleeps: "callers s t = InDequeue \<Longrightarrow> t \<notin> set (sleeping (shared_queue s)) \<Longrightarrow>
     dequeue t (shared_queue s) = return (None, q') \<Longrightarrow> queue_step s (s\<lparr>shared_queue := q'\<rparr>)"
| dequeue_returns: "callers s t = InDequeue \<Longrightarrow> t \<notin> set (sleeping (shared_queue s)) \<Longrightarrow>
     dequeue t (shared_queue s) = return (Some x, q') \<Longrightarrow>
     queue_step s (s\<lparr>shared_queue := q', callers := (callers s)(t := Outside)\<rparr>)"
| call_wait_empty: "callers s t = Outside \<Longrightarrow>
     queue_step s (s\<lparr>callers := (callers s)(t := InWaitEmpty)\<rparr>)"
| wait_empty_sleeps: "callers s t = InWaitEmpty \<Longrightarrow> t \<notin> set (sleeping (shared_queue s)) \<Longrightarrow>
     wait_empty t (shared_queue s) = (False, q') \<Longrightarrow> queue_step s (s\<lparr>shared_queue := q'\<rparr>)"
| wait_empty_returns: "callers s t = InWaitEmpty \<Longrightarrow> t \<notin> set (sleeping (shared_queue s)) \<Longrightarrow>
     wait_empty t (shared_queue s) = (True, q') \<Longrightarrow>
     queue_step s (s\<lparr>shared_queue := q', callers := (callers s)(t := Outside)\<rparr>)"
| wake: "t \<in> set (sleeping (shared_queue s)) \<Longrightarrow>
     queue_step s (s\<lparr>shared_queue := (shared_queue s)\<lparr>sleeping := removeAll t (sleeping (shared_queue s))\<rparr>\<rparr>)"

definition queue_init :: "'a queue_system" where
  "queue_init = \<lparr>shared_queue = new_queue, callers = (\<lambda>_. Outside)\<rparr>"

text \<open>No thread sleeps while the condition it waits for holds.\<close>

definition sleeps_rightly :: "'a queue_system \<Rightarrow> nat \<Rightarrow> bool" where
  "sleeps_rightly s t \<longleftrightarrow>
     (callers s t = InDequeue \<and> elements (shared_queue s) = []) \<or>
     (callers s t = InWaitEmpty \<and> elements (shared_queue s) \<noteq> [])"

definition queue_system_ok :: "'a queue_system \<Rightarrow> bool" where
  "queue_system_ok s \<longleftrightarrow> queue_ok (shared_queue s) \<and>
     (\<forall>t \<in> set (sleeping (shared_queue s)). sleeps_rightly s t)"

lemma dequeue_None_iff:
  "queue_ok q \<Longrightarrow> dequeue t q = return (None, q') \<longleftrightarrow>
     elements q = [] \<and> q' = q\<lparr>sleeping := t # sleeping q\<rparr>"
  by (cases "elements q") (auto simp: dequeue_empty dequeue_Cons)

lemma dequeue_Some_iff:
  "queue_ok q \<Longrightarrow> dequeue t q = return (Some x, q') \<longleftrightarrow>
     (\<exists>xs. elements q = x # xs \<and> q' = q\<lparr>elements := xs, num_elements := int (length xs),
                                   sleeping := (if xs = [] then [] else sleeping q)\<rparr>)"
  by (cases "elements q") (auto simp: dequeue_empty dequeue_Cons)

lemma wait_empty_iff:
  "queue_ok q \<Longrightarrow> wait_empty t q = (b, q') \<longleftrightarrow>
     b = (elements q = []) \<and> q' = (if elements q = [] then q else q\<lparr>sleeping := t # sleeping q\<rparr>)"
  by (auto simp: wait_empty_def queue_ok_def)

lemma dequeue_SomeD:
  "queue_ok q \<Longrightarrow> dequeue t q = return (Some x, q') \<Longrightarrow>
     queue_ok q' \<and> elements q = x # elements q' \<and> sleeping q' = (if elements q' = [] then [] else sleeping q)"
  by (auto simp: dequeue_Some_iff queue_ok_def)

lemma dequeue_NoneD:
  "queue_ok q \<Longrightarrow> dequeue t q = return (None, q') \<Longrightarrow>
     queue_ok q' \<and> elements q = [] \<and> elements q' = [] \<and> sleeping q' = t # sleeping q"
  by (auto simp: dequeue_None_iff queue_ok_def)

lemma queue_step_ok: "queue_step s s' \<Longrightarrow> queue_system_ok s \<Longrightarrow> queue_system_ok s'"
proof (induction rule: queue_step.induct)
  case (dequeue_returns s t x q')
  then show ?case
    using dequeue_SomeD [of "shared_queue s" t x q']
    by (auto simp: queue_system_ok_def sleeps_rightly_def split: if_splits)
next
  case (dequeue_sleeps s t q')
  then show ?case
    using dequeue_NoneD [of "shared_queue s" t q']
    by (auto simp: queue_system_ok_def sleeps_rightly_def)
next
  case (call_enqueue s t x)
  then show ?case by (simp add: queue_system_ok_def)
qed (auto simp: queue_system_ok_def sleeps_rightly_def wait_empty_iff queue_ok_def split: if_splits)

lemma queue_reachable_ok: "queue_step\<^sup>*\<^sup>* queue_init s \<Longrightarrow> queue_system_ok s"
proof (induction rule: rtranclp_induct)
  case base
  show ?case by (simp add: queue_system_ok_def queue_init_def)
next
  case (step s s')
  then show ?case by (blast intro: queue_step_ok)
qed

section \<open>Properties\<close>

text \<open>First in, first out, and no fault: whatever sequence of \<open>enqueue\<close> and \<open>dequeue\<close> calls
  runs on a new queue, the elements returned, followed by those still queued, are the elements
  enqueued, in order.\<close>

theorem queue_is_fifo:
  "\<exists>out q. run_ops enqueue dequeue new_queue ops = return (out, q) \<and> queue_ok q \<and>
     out @ elements q = enqueued ops"
  using queue_fifo.run_ops_fifo [of new_queue ops] by simp

text \<open>C20. No wake-up is lost, in every reachable state of any number of threads: the counter is the number
  of queued elements, a thread asleep in \<open>dequeue\<close> sees an empty queue and a thread asleep in
  \<open>wait_empty\<close> a queue that is not empty. The counter is an unbounded integer here and an \<open>int\<close> in the
  code, so this is about queues of fewer than \<open>2^31\<close> elements, for which the two agree.\<close>

theorem queue_no_lost_wakeup:
  assumes "queue_step\<^sup>*\<^sup>* queue_init s"
  shows "size_of_queue (shared_queue s) = int (length (elements (shared_queue s))) \<and>
    (queue_empty (shared_queue s) \<longleftrightarrow> elements (shared_queue s) = []) \<and>
    (\<forall>t \<in> set (sleeping (shared_queue s)). sleeps_rightly s t)"
  using queue_reachable_ok [OF assms]
  by (auto simp: queue_system_ok_def queue_ok_def size_of_queue_def queue_empty_def)

theorem queue_no_lost_wakeup_witness:
  "size_of_queue (new_queue\<lparr>sleeping := [3]\<rparr> :: nat queue) = 0 \<and>
   sleeps_rightly \<lparr>shared_queue = new_queue\<lparr>sleeping := [3]\<rparr> :: nat queue,
                   callers = (\<lambda>_. Outside)(3 := InDequeue)\<rparr> 3"
proof -
  let ?s = "\<lparr>shared_queue = new_queue, callers = (\<lambda>_. Outside)(3 := InDequeue)\<rparr> :: nat queue_system"
  let ?t = "\<lparr>shared_queue = new_queue\<lparr>sleeping := [3]\<rparr>, callers = (\<lambda>_. Outside)(3 := InDequeue)\<rparr>
     :: nat queue_system"
  have "queue_step queue_init ?s"
    using queue_step.call_dequeue [of queue_init 3] by (simp add: queue_init_def)
  moreover have "queue_step ?s ?t"
    using queue_step.dequeue_sleeps [of ?s 3 "new_queue\<lparr>sleeping := [3]\<rparr>"]
    by (simp add: dequeue_None_iff)
  ultimately have "queue_step\<^sup>*\<^sup>* queue_init ?t" by (meson r_into_rtranclp rtranclp_trans)
  from queue_no_lost_wakeup [OF this] show ?thesis by simp
qed

end
