(* ===== verification/QueuePrograms.thy ===== *)
theory QueuePrograms
  imports CoreQueue
begin

text \<open>
  core/Queue.h used by several threads, each of which makes the calls of a program of its own. A call is
  one move, as it holds the queue's lock from its first access to its last; \<open>dequeue\<close> and \<open>wait_empty\<close>
  give the lock up while they wait: a move then puts the thread to sleep, and once it is woken its next move
  tests the condition again. Spurious wake-ups are steps too.
\<close>

section \<open>Threads with programs\<close>

datatype 'a queue_call = Enqueue 'a | Dequeue | WaitEmpty

text \<open>\<open>put\<close> and \<open>got\<close> are the history: which thread enqueued (dequeued) which element, in order.\<close>

record 'a queue_threads =
  common :: "'a queue"
  calls :: "nat \<Rightarrow> 'a queue_call list"   \<comment> \<open>what each thread has still to do\<close>
  put :: "(nat \<times> 'a) list"
  got :: "(nat \<times> 'a) list"

definition start_calls :: "(nat \<Rightarrow> 'a queue_call list) \<Rightarrow> 'a queue_threads" where
  "start_calls programs = \<lparr>common = new_queue, calls = programs, put = [], got = []\<rparr>"

text \<open>The next move of a thread: \<open>None\<close> when it is asleep or has nothing left to do.\<close>

definition call_move :: "nat \<Rightarrow> 'a queue_threads \<Rightarrow> 'a queue_threads run option" where
  "call_move t s =
     (if t \<in> set (sleeping (common s)) then None
      else case calls s t of
        [] \<Rightarrow> None
      | Enqueue x # cs \<Rightarrow> Some (return
          (s\<lparr>common := enqueue x (common s), calls := (calls s)(t := cs), put := put s @ [(t, x)]\<rparr>))
      | Dequeue # cs \<Rightarrow> Some (bind (dequeue t (common s)) (\<lambda>(r, q). return (case r of
            None \<Rightarrow> s\<lparr>common := q\<rparr>
          | Some x \<Rightarrow> s\<lparr>common := q, calls := (calls s)(t := cs), got := got s @ [(t, x)]\<rparr>)))
      | WaitEmpty # cs \<Rightarrow> Some (return (case wait_empty t (common s) of (b, q) \<Rightarrow>
            if b then s\<lparr>common := q, calls := (calls s)(t := cs)\<rparr> else s\<lparr>common := q\<rparr>)))"

definition wake_up :: "nat \<Rightarrow> 'a queue_threads \<Rightarrow> 'a queue_threads" where
  "wake_up t s = s\<lparr>common := (common s)\<lparr>sleeping := removeAll t (sleeping (common s))\<rparr>\<rparr>"

text \<open>The states the threads \<open>0, \<dots>, n - 1\<close> reach with \<open>k\<close> moves and \<open>w\<close> spurious wake-ups.\<close>

inductive call_runs :: "nat \<Rightarrow> (nat \<Rightarrow> 'a queue_call list) \<Rightarrow> nat \<Rightarrow> nat \<Rightarrow> 'a queue_threads \<Rightarrow> bool"
  for n programs where
  begin_calls: "call_runs n programs 0 0 (start_calls programs)"
| move_calls: "call_runs n programs k w s \<Longrightarrow> t < n \<Longrightarrow> call_move t s = Some (l, Inr s') \<Longrightarrow>
     call_runs n programs (Suc k) w s'"
| wake_calls: "call_runs n programs k w s \<Longrightarrow> t \<in> set (sleeping (common s)) \<Longrightarrow>
     call_runs n programs k (Suc w) (wake_up t s)"

section \<open>Counting calls\<close>

fun enqueues :: "'a queue_call list \<Rightarrow> 'a list" where
  "enqueues [] = []"
| "enqueues (Enqueue x # cs) = x # enqueues cs"
| "enqueues (Dequeue # cs) = enqueues cs"
| "enqueues (WaitEmpty # cs) = enqueues cs"

fun dequeues :: "'a queue_call list \<Rightarrow> nat" where
  "dequeues [] = 0"
| "dequeues (Enqueue x # cs) = dequeues cs"
| "dequeues (Dequeue # cs) = Suc (dequeues cs)"
| "dequeues (WaitEmpty # cs) = dequeues cs"

text \<open>A program that enqueues first, then dequeues, and waits at the end. A producer, a consumer and a
  thread that only waits have such programs.\<close>

fun orderly :: "'a queue_call list \<Rightarrow> bool" where
  "orderly [] = True"
| "orderly (Enqueue x # cs) = orderly cs"
| "orderly (Dequeue # cs) = (orderly cs \<and> enqueues cs = [])"
| "orderly (WaitEmpty # cs) = (orderly cs \<and> enqueues cs = [] \<and> dequeues cs = 0)"

lemma only_waits: "enqueues cs = [] \<Longrightarrow> dequeues cs = 0 \<Longrightarrow> set cs \<subseteq> {WaitEmpty}"
  by (induction cs rule: enqueues.induct) auto

text \<open>The elements of one thread in a history.\<close>

definition by_thread :: "nat \<Rightarrow> (nat \<times> 'a) list \<Rightarrow> 'a list" where
  "by_thread t h = map snd (filter (\<lambda>e. fst e = t) h)"

lemma by_thread_simps [simp]:
  "by_thread t [] = []" "by_thread t (h @ [(u, x)]) = (if u = t then by_thread t h @ [x] else by_thread t h)"
  by (simp_all add: by_thread_def)

definition in_total :: "nat \<Rightarrow> ('b \<Rightarrow> nat) \<Rightarrow> (nat \<Rightarrow> 'b) \<Rightarrow> nat" where
  "in_total n f g = (\<Sum>t<n. f (g t))"

lemma in_total_update: "t < n \<Longrightarrow> in_total n f (g(t := x)) + f (g t) = in_total n f g + f x"
proof -
  assume t: "t < n"
  have "in_total n f g' = f (g' t) + (\<Sum>u \<in> {..<n} - {t}. f (g' u))" for g'
    unfolding in_total_def using t by (intro sum.remove) auto
  then show ?thesis by simp
qed

lemma in_total_0: "(\<And>t. t < n \<Longrightarrow> f (g t) = 0) \<Longrightarrow> in_total n f g = 0"
  by (simp add: in_total_def)

lemma in_total_ge: "t < n \<Longrightarrow> f (g t) \<le> in_total n f g"
  unfolding in_total_def by (intro member_le_sum) auto

section \<open>What a move does\<close>

lemma call_move_cases [consumes 2, case_names puts gets passes sleeps]:
  assumes "queue_ok (common s)" "call_move t s = Some r"
  obtains (puts) x cs where "calls s t = Enqueue x # cs" "t \<notin> set (sleeping (common s))" "r = return (s\<lparr>common := enqueue x (common s), calls := (calls s)(t := cs),
      put := put s @ [(t, x)]\<rparr>)"
  | (gets) x cs q where "calls s t = Dequeue # cs" "t \<notin> set (sleeping (common s))" "queue_ok q" "elements (common s) = x # elements q"
      "sleeping q = (if elements q = [] then [] else sleeping (common s))"
      "r = return (s\<lparr>common := q, calls := (calls s)(t := cs), got := got s @ [(t, x)]\<rparr>)"
  | (passes) cs where "calls s t = WaitEmpty # cs" "t \<notin> set (sleeping (common s))" "elements (common s) = []" "r = return (s\<lparr>calls := (calls s)(t := cs)\<rparr>)"
  | (sleeps) c cs where "calls s t = c # cs" "t \<notin> set (sleeping (common s))"
      "c = Dequeue \<and> elements (common s) = [] \<or> c = WaitEmpty \<and> elements (common s) \<noteq> []"
      "r = return (s\<lparr>common := (common s)\<lparr>sleeping := t # sleeping (common s)\<rparr>\<rparr>)"
proof -
  from assms(2) have awake: "t \<notin> set (sleeping (common s))" by (auto simp: call_move_def)
  from assms(2) awake obtain c cs where c: "calls s t = c # cs" by (cases "calls s t") (auto simp: call_move_def)
  show thesis
  proof (cases c)
    case (Enqueue x)
    with assms(2) awake c puts show ?thesis by (simp add: call_move_def)
  next
    case Dequeue
    show ?thesis
    proof (cases "elements (common s)")
      case Nil
      with assms awake c Dequeue sleeps show ?thesis by (simp add: call_move_def dequeue_empty)
    next
      case (Cons x xs)
      let ?q = "(common s)\<lparr>elements := xs, num_elements := int (length xs), sleeping := (if xs = [] then [] else sleeping (common s))\<rparr>"
      have "r = return (s\<lparr>common := ?q, calls := (calls s)(t := cs), got := got s @ [(t, x)]\<rparr>)"
        using assms awake c Dequeue Cons by (simp add: call_move_def dequeue_Cons)
      with c Dequeue awake Cons gets [of cs ?q x] show ?thesis by (simp add: queue_ok_def)
    qed
  next
    case WaitEmpty
    show ?thesis
    proof (cases "elements (common s) = []")
      case True
      with assms awake c WaitEmpty passes show ?thesis by (simp add: call_move_def wait_empty_def queue_ok_def)
    next
      case False
      with assms awake c WaitEmpty sleeps show ?thesis by (simp add: call_move_def wait_empty_def queue_ok_def)
    qed
  qed
qed

lemma call_move_None: "call_move t s = None \<longleftrightarrow> t \<in> set (sleeping (common s)) \<or> calls s t = []"
  by (auto simp: call_move_def split: list.splits queue_call.splits)

section \<open>The invariant\<close>

text \<open>A sleeping thread waits for what is not so, and the history accounts for every call made.\<close>

definition rightly_asleep :: "'a queue_threads \<Rightarrow> nat \<Rightarrow> bool" where
  "rightly_asleep s t \<longleftrightarrow> (case calls s t of
     Dequeue # cs \<Rightarrow> elements (common s) = [] | WaitEmpty # cs \<Rightarrow> elements (common s) \<noteq> [] | _ \<Rightarrow> False)"

definition history_ok :: "nat \<Rightarrow> (nat \<Rightarrow> 'a queue_call list) \<Rightarrow> 'a queue_threads \<Rightarrow> bool" where
  "history_ok n programs s \<longleftrightarrow> map snd (got s) @ elements (common s) = map snd (put s) \<and>
     (\<forall>t. by_thread t (put s) @ enqueues (calls s t) = enqueues (programs t) \<and>
        length (by_thread t (got s)) + dequeues (calls s t) = dequeues (programs t) \<and>
        (orderly (programs t) \<longrightarrow> orderly (calls s t))) \<and>
     length (put s) + in_total n (length \<circ> enqueues) (calls s) = in_total n (length \<circ> enqueues) programs \<and>
     length (got s) + in_total n dequeues (calls s) = in_total n dequeues programs"

definition threads_inv :: "nat \<Rightarrow> (nat \<Rightarrow> 'a queue_call list) \<Rightarrow> 'a queue_threads \<Rightarrow> bool" where
  "threads_inv n programs s \<longleftrightarrow> queue_ok (common s) \<and>
     (\<forall>t \<in> set (sleeping (common s)). t < n \<and> rightly_asleep s t) \<and> history_ok n programs s"

lemma orderly_Cons: "orderly (c # cs) \<Longrightarrow> orderly cs"
  by (cases c) simp_all

lemma in_total_tail:
  assumes "t < n" "g t = c # cs"
  shows "in_total n f (g(t := cs)) + f (c # cs) = in_total n f g + f cs"
  using in_total_update [OF assms(1), of f g cs] assms(2) by simp

lemma threads_inv_start: "threads_inv n programs (start_calls programs)"
  by (simp add: threads_inv_def start_calls_def history_ok_def)

lemma threads_inv_move:
  assumes "threads_inv n programs s" "t < n" "call_move t s = Some r"
  shows "\<exists>s'. r = return s' \<and> threads_inv n programs s'"
proof -
  from assms(1) have inv: "queue_ok (common s)" "\<And>u. u \<in> set (sleeping (common s)) \<Longrightarrow> u < n \<and> rightly_asleep s u"
    "history_ok n programs s" by (auto simp: threads_inv_def)
  from inv(3) have own: "by_thread t (put s) @ enqueues (calls s t) = enqueues (programs t)"
    "length (by_thread t (got s)) + dequeues (calls s t) = dequeues (programs t)" "orderly (programs t) \<longrightarrow> orderly (calls s t)"
    by (auto simp: history_ok_def)
  from inv(1) assms(3) show ?thesis
  proof (cases rule: call_move_cases)
    case (puts x cs)
    have "history_ok n programs (s\<lparr>common := enqueue x (common s), calls := (calls s)(t := cs), put := put s @ [(t, x)]\<rparr>)"
      using inv(3) own puts(1) in_total_tail [where g = "calls s", OF assms(2) puts(1), of "length \<circ> enqueues"] in_total_tail [where g = "calls s", OF assms(2) puts(1), of dequeues]
      by (auto simp: history_ok_def)
    then show ?thesis using puts inv(1) by (simp add: threads_inv_def)
  next
    case (gets x cs q)
    have "history_ok n programs (s\<lparr>common := q, calls := (calls s)(t := cs), got := got s @ [(t, x)]\<rparr>)"
      using inv(3) own gets(1,4) in_total_tail [where g = "calls s", OF assms(2) gets(1), of "length \<circ> enqueues"] in_total_tail [where g = "calls s", OF assms(2) gets(1), of dequeues]
      by (auto simp: history_ok_def)
    moreover have "u < n \<and> rightly_asleep (s\<lparr>common := q, calls := (calls s)(t := cs), got := got s @ [(t, x)]\<rparr>) u"
      if "u \<in> set (sleeping q)" for u
      using that gets(2,4,5) inv(2) [of u] by (auto simp: rightly_asleep_def split: if_splits list.splits queue_call.splits)
    ultimately show ?thesis using gets(3,6) by (simp add: threads_inv_def)
  next
    case (passes cs)
    have "history_ok n programs (s\<lparr>calls := (calls s)(t := cs)\<rparr>)"
      using inv(3) own passes(1) in_total_tail [where g = "calls s", OF assms(2) passes(1), of "length \<circ> enqueues"] in_total_tail [where g = "calls s", OF assms(2) passes(1), of dequeues]
      by (auto simp: history_ok_def)
    moreover have "u < n \<and> rightly_asleep (s\<lparr>calls := (calls s)(t := cs)\<rparr>) u" if "u \<in> set (sleeping (common s))" for u
      using that passes(2) inv(2) [of u] by (auto simp: rightly_asleep_def split: list.splits queue_call.splits)
    ultimately show ?thesis using passes(4) inv(1) by (simp add: threads_inv_def)
  next
    case (sleeps c cs)
    let ?s = "s\<lparr>common := (common s)\<lparr>sleeping := t # sleeping (common s)\<rparr>\<rparr>"
    have "history_ok n programs ?s" using inv(3) by (simp add: history_ok_def)
    moreover have "rightly_asleep ?s t" using sleeps(1,3) by (auto simp: rightly_asleep_def)
    moreover have "u < n \<and> rightly_asleep ?s u" if "u \<in> set (sleeping (common s))" for u
      using inv(2) [OF that] by (simp add: rightly_asleep_def split: list.splits queue_call.splits)
    ultimately show ?thesis using sleeps(4) inv(1) assms(2) by (simp add: threads_inv_def queue_ok_def)
  qed
qed

lemma wake_up_simps [simp]:
  "calls (wake_up t s) = calls s" "put (wake_up t s) = put s" "got (wake_up t s) = got s"
  "elements (common (wake_up t s)) = elements (common s)" "num_elements (common (wake_up t s)) = num_elements (common s)"
  "sleeping (common (wake_up t s)) = removeAll t (sleeping (common s))"
  by (simp_all add: wake_up_def)

lemma threads_inv_wake: "threads_inv n programs s \<Longrightarrow> threads_inv n programs (wake_up t s)"
proof -
  have "rightly_asleep (wake_up t s) u = rightly_asleep s u" "history_ok n programs (wake_up t s) = history_ok n programs s"
    "queue_ok (common (wake_up t s)) = queue_ok (common s)" for u
    unfolding rightly_asleep_def history_ok_def queue_ok_def wake_up_simps by (rule refl)+
  then show "threads_inv n programs s \<Longrightarrow> threads_inv n programs (wake_up t s)" by (simp add: threads_inv_def)
qed

lemma call_runs_inv: "call_runs n programs k w s \<Longrightarrow> threads_inv n programs s"
proof (induction rule: call_runs.induct)
  case (move_calls k w s t l s')
  from threads_inv_move [OF move_calls.IH move_calls.hyps(2,3)] show ?case by (auto simp: return_def)
qed (simp_all add: threads_inv_start threads_inv_wake)

section \<open>How many moves there can be\<close>

text \<open>A call that returns can wake every thread, but there is one call less to make.\<close>

definition awake :: "nat \<Rightarrow> 'a queue_threads \<Rightarrow> nat" where
  "awake n s = card ({..<n} - set (sleeping (common s)))"

lemma awake_le: "awake n s \<le> n"
  unfolding awake_def by (metis Diff_subset card_lessThan card_mono finite_lessThan)

lemma awake_sleep:
  assumes "t < n" "t \<notin> set (sleeping (common s))"
  shows "Suc (awake n (s\<lparr>common := (common s)\<lparr>sleeping := t # sleeping (common s)\<rparr>\<rparr>)) = awake n s"
proof -
  have "{..<n} - set (sleeping (common s)) = insert t ({..<n} - insert t (set (sleeping (common s))))" using assms by auto
  then have "card ({..<n} - set (sleeping (common s))) = Suc (card ({..<n} - insert t (set (sleeping (common s)))))"
    by (metis card_insert_disjoint finite_Diff finite_lessThan insertI1 DiffE)
  then show ?thesis by (simp add: awake_def)
qed

lemma awake_wake: "awake n (wake_up t s) \<le> Suc (awake n s)"
proof -
  have "{..<n} - set (removeAll t (sleeping (common s))) \<subseteq> insert t ({..<n} - set (sleeping (common s)))" by auto
  then have "card ({..<n} - set (removeAll t (sleeping (common s)))) \<le> card (insert t ({..<n} - set (sleeping (common s))))"
    by (intro card_mono) auto
  also have "\<dots> \<le> Suc (card ({..<n} - set (sleeping (common s))))" by (intro card_insert_le_m1) auto
  finally show ?thesis by (simp add: awake_def)
qed

lemma call_runs_bounded:
  "call_runs n programs k w s \<Longrightarrow>
    k + in_total n length (calls s) * (n + 1) + awake n s \<le> in_total n length programs * (n + 1) + n + w"
proof (induction rule: call_runs.induct)
  case begin_calls
  show ?case using awake_le [of n "start_calls programs"] by (simp add: start_calls_def)
next
  case (move_calls k w s t l s')
  have "Suc (in_total n length (calls s') * (n + 1) + awake n s') \<le> in_total n length (calls s) * (n + 1) + awake n s"
  proof -
    have done_one: ?thesis if "calls s t = c # cs" "calls s' = (calls s)(t := cs)" for c cs
    proof -
      have "in_total n length (calls s) = Suc (in_total n length (calls s'))"
        using in_total_tail [where g = "calls s", OF move_calls.hyps(2) that(1), of length] that(2) by simp
      then show ?thesis using awake_le [of n s'] by simp
    qed
    have "queue_ok (common s)" using call_runs_inv [OF move_calls.hyps(1)] by (simp add: threads_inv_def)
    from this move_calls.hyps(3) show ?thesis
    proof (cases rule: call_move_cases)
      case (sleeps c cs)
      then have "s' = s\<lparr>common := (common s)\<lparr>sleeping := t # sleeping (common s)\<rparr>\<rparr>" by (simp add: return_def)
      with awake_sleep [OF move_calls.hyps(2) sleeps(2)] show ?thesis by simp
    qed (use done_one in \<open>auto simp: return_def\<close>)
  qed
  with move_calls.IH show ?case by linarith
next
  case (wake_calls k w s t)
  then show ?case using awake_wake [of n t s] by simp
qed

section \<open>When nobody can move\<close>

lemma stuck_threads:
  assumes inv: "threads_inv n programs s" and stuck: "\<forall>t < n. call_move t s = None" and tidy: "\<forall>t < n. orderly (programs t)"
    and enough: "in_total n dequeues programs \<le> in_total n (length \<circ> enqueues) programs"
  shows "(\<forall>t < n. set (calls s t) \<subseteq> {WaitEmpty}) \<and> length (got s) = in_total n dequeues programs \<and>
    (in_total n dequeues programs = in_total n (length \<circ> enqueues) programs \<longrightarrow> (\<forall>t < n. calls s t = []))"
proof -
  from inv have h: "length (got s) + length (elements (common s)) = length (put s)"
    "length (put s) + in_total n (length \<circ> enqueues) (calls s) = in_total n (length \<circ> enqueues) programs"
    "length (got s) + in_total n dequeues (calls s) = in_total n dequeues programs"
    by (auto simp: threads_inv_def history_ok_def dest: arg_cong [where f = length])
  have rest: "calls s t = [] \<or> (\<exists>cs. calls s t = Dequeue # cs \<and> elements (common s) = [] \<and> enqueues cs = []) \<or>
      (\<exists>cs. calls s t = WaitEmpty # cs \<and> elements (common s) \<noteq> [] \<and> enqueues cs = [] \<and> dequeues cs = 0)" if "t < n" for t
  proof -
    have "orderly (calls s t)" using inv tidy that by (simp add: threads_inv_def history_ok_def)
    moreover have "t \<in> set (sleeping (common s)) \<or> calls s t = []" using stuck that by (simp add: call_move_None)
    then have "rightly_asleep s t \<or> calls s t = []" using inv by (auto simp: threads_inv_def)
    ultimately show ?thesis by (auto simp: rightly_asleep_def split: list.splits queue_call.splits)
  qed
  have "in_total n (length \<circ> enqueues) (calls s) = 0" using rest by (intro in_total_0) fastforce
  then have put: "length (put s) = in_total n (length \<circ> enqueues) programs" using h(2) by simp
  show ?thesis
  proof (cases "elements (common s) = []")
    case True
    then have "in_total n dequeues (calls s) = 0" "in_total n dequeues programs = length (got s)" using h put enough by simp_all
    then have "dequeues (calls s t) = 0" if "t < n" for t using in_total_ge [OF that, of dequeues "calls s"] by simp
    then have "calls s t = []" if "t < n" for t using rest [OF that] True that by fastforce
    then show ?thesis using \<open>in_total n dequeues programs = length (got s)\<close> by simp
  next
    case False
    then have "in_total n dequeues (calls s) = 0" using rest by (intro in_total_0) fastforce
    moreover have "set (calls s t) \<subseteq> {WaitEmpty}" if "t < n" for t using rest [OF that] False only_waits by fastforce
    moreover have "in_total n dequeues programs \<noteq> in_total n (length \<circ> enqueues) programs"
    proof -
      have "0 < length (elements (common s))" using False by simp
      then show ?thesis using h put \<open>in_total n dequeues (calls s) = 0\<close> by linarith
    qed
    ultimately have "length (got s) = in_total n dequeues programs" "\<forall>t < n. set (calls s t) \<subseteq> {WaitEmpty}"
      "in_total n dequeues programs \<noteq> in_total n (length \<circ> enqueues) programs" using h by simp_all
    then show ?thesis by simp
  qed
qed

section \<open>Producers and consumers\<close>

text \<open>C19. Threads that share a queue get every element once, in the order it was put in, and are never stuck
  while there is something to get. Whatever the programs of the threads, in every schedule with any
  spurious wake-ups: no move faults; the elements dequeued by all threads together, followed by those still
  queued, are the elements enqueued, in one order that keeps the order of each thread's own calls; each
  thread dequeues as often as its calls ask; and the moves are at most \<open>n + 1\<close> for each call of the programs,
  one to fall asleep for each thread and one more for each spurious wake-up. When each thread
  enqueues first, then dequeues and waits at the end, and there are enough elements for the calls of
  \<open>dequeue\<close>, then a state where no thread can move has all of these calls done and only calls of \<open>wait_empty\<close>
  left; and none of these either if every element was dequeued.\<close>

theorem producers_and_consumers:
  assumes "call_runs n programs k w s"
  shows "map snd (got s) @ elements (common s) = map snd (put s) \<and>
    (\<forall>t. by_thread t (put s) @ enqueues (calls s t) = enqueues (programs t) \<and>
       length (by_thread t (got s)) + dequeues (calls s t) = dequeues (programs t)) \<and>
    (\<forall>t < n. \<forall>l f. call_move t s \<noteq> Some (l, Inl f)) \<and>
    k \<le> in_total n length programs * (n + 1) + n + w \<and>
    ((\<forall>t < n. call_move t s = None) \<longrightarrow> (\<forall>t < n. orderly (programs t)) \<longrightarrow>
      in_total n dequeues programs \<le> in_total n (length \<circ> enqueues) programs \<longrightarrow>
      (\<forall>t < n. set (calls s t) \<subseteq> {WaitEmpty}) \<and> length (got s) = in_total n dequeues programs \<and>
      (in_total n dequeues programs = in_total n (length \<circ> enqueues) programs \<longrightarrow> (\<forall>t < n. calls s t = [])))"
proof -
  have inv: "threads_inv n programs s" by (rule call_runs_inv [OF assms])
  have "call_move t s \<noteq> Some (l, Inl f)" if "t < n" for t l f
    using threads_inv_move [OF inv that, of "(l, Inl f)"] by (auto simp: return_def)
  moreover have "k \<le> in_total n length programs * (n + 1) + n + w" using call_runs_bounded [OF assms] by simp
  ultimately show ?thesis using inv stuck_threads [OF inv] by (auto simp: threads_inv_def history_ok_def)
qed

text \<open>A consumer that comes before the producer sleeps, is woken, and gets the element.\<close>

definition sample_programs :: "nat \<Rightarrow> nat queue_call list" where
  "sample_programs t = (if t = 0 then [Enqueue 7] else if t = 1 then [Dequeue] else [])"

theorem producers_and_consumers_witness:
  "\<exists>s. call_runs 2 sample_programs 3 0 s \<and> map snd (got s) @ elements (common s) = [7] \<and> length (got s) = 1 \<and>
    (\<forall>t < 2. calls s t = [])"
proof -
  let ?s1 = "\<lparr>common = new_queue\<lparr>sleeping := [1]\<rparr>, calls = sample_programs, put = [], got = []\<rparr>"
  let ?s2 = "\<lparr>common = \<lparr>elements = [7], num_elements = 1, sleeping = []\<rparr>, calls = sample_programs(0 := []), put = [(0, 7)], got = []\<rparr>"
  let ?s3 = "\<lparr>common = \<lparr>elements = [], num_elements = 0, sleeping = []\<rparr>, calls = sample_programs(0 := [], 1 := []),
    put = [(0, 7)], got = [(1, 7)]\<rparr> :: nat queue_threads"
  have "call_move 1 (start_calls sample_programs) = Some ([], Inr ?s1)" "call_move 0 ?s1 = Some ([], Inr ?s2)"
    "call_move 1 ?s2 = Some ([], Inr ?s3)"
    by (simp_all add: call_move_def start_calls_def sample_programs_def new_queue_def dequeue_def enqueue_def return_def bind_Inr)
  note moves = this
  have "call_runs 2 sample_programs (Suc (Suc (Suc 0))) 0 ?s3"
    by (rule move_calls [OF move_calls [OF move_calls [OF begin_calls _ moves(1)] _ moves(2)] _ moves(3)]) simp_all
  then have run: "call_runs 2 sample_programs 3 0 ?s3" by (simp add: eval_nat_numeral)
  have "\<forall>t < 2. call_move t ?s3 = None" "\<forall>t < 2. orderly (sample_programs t)"
    by (auto simp: call_move_None sample_programs_def less_2_cases_iff)
  moreover have "in_total 2 dequeues sample_programs = 1" "in_total 2 (length \<circ> enqueues) sample_programs = 1"
    by (simp_all add: in_total_def sample_programs_def numeral_2_eq_2)
  ultimately have "length (got ?s3) = 1 \<and> (\<forall>t < 2. calls ?s3 t = []) \<and> map snd (got ?s3) @ elements (common ?s3) = map snd (put ?s3)"
    using producers_and_consumers [OF run] by (simp del: queue_threads.select_convs)
  with run show ?thesis by auto
qed

end
