(* ===== verification/Locks.thy ===== *)
theory Locks
  imports Prelude
begin

text \<open>
  core/Locks.h: the read-write lock over \<open>pthread_rwlock_t\<close>, its read guard, and the condition
  variable with a mutex of its own. An operation that would block the calling thread returns
  \<open>None\<close>; it is tried again when the state has changed. Threads are numbers. What the POSIX
  lock does is its documentation: a reader waits for a writer, a writer waits for everyone, and
  \<open>unlock\<close> releases what the calling thread holds.
\<close>

section \<open>RWLock\<close>

record rwlock =
  readers :: "nat list"     \<comment> \<open>threads holding the lock shared, one entry per hold\<close>
  writer :: "nat option"

definition rw_init :: rwlock where
  "rw_init = \<lparr>readers = [], writer = None\<rparr>"

definition lock :: "nat \<Rightarrow> rwlock \<Rightarrow> rwlock option" where
  "lock t l = (if writer l = None \<and> readers l = [] then Some (l\<lparr>writer := Some t\<rparr>) else None)"

definition lock_shared :: "nat \<Rightarrow> rwlock \<Rightarrow> rwlock option" where
  "lock_shared t l = (if writer l = None then Some (l\<lparr>readers := t # readers l\<rparr>) else None)"

definition unlock :: "nat \<Rightarrow> rwlock \<Rightarrow> rwlock" where
  "unlock t l = (if writer l = Some t then l\<lparr>writer := None\<rparr>
                 else l\<lparr>readers := remove1 t (readers l)\<rparr>)"

text \<open>The guard: constructor and destructor.\<close>

definition ReadLockGuard :: "nat \<Rightarrow> rwlock \<Rightarrow> rwlock option" where
  "ReadLockGuard t l = lock_shared t l"

definition destroy_ReadLockGuard :: "nat \<Rightarrow> rwlock \<Rightarrow> rwlock" where
  "destroy_ReadLockGuard t l = unlock t l"

definition rw_ok :: "rwlock \<Rightarrow> bool" where
  "rw_ok l \<longleftrightarrow> (writer l \<noteq> None \<longrightarrow> readers l = [])"

section \<open>The interface a client of the lock relies on\<close>

text \<open>
  \<open>held_r t l\<close> and \<open>held_w t l\<close>: thread \<open>t\<close> holds \<open>l\<close> shared, exclusively. The laws say who may
  hold the lock together, and that acquiring and releasing change the caller's holds only.
\<close>

locale rw_locking =
  fixes acq_w acq_r :: "nat \<Rightarrow> 'l \<Rightarrow> 'l option"
    and rel :: "nat \<Rightarrow> 'l \<Rightarrow> 'l"
    and held_w held_r :: "nat \<Rightarrow> 'l \<Rightarrow> bool"
    and ok :: "'l \<Rightarrow> bool"
  assumes excl: "ok l \<Longrightarrow> held_w t l \<Longrightarrow> held_w u l \<or> held_r u l \<Longrightarrow> u = t"
    and excl_self: "ok l \<Longrightarrow> held_w t l \<Longrightarrow> \<not> held_r t l"
    and acq_w: "ok l \<Longrightarrow> acq_w t l = Some l' \<Longrightarrow>
      ok l' \<and> held_w t l' \<and> \<not> held_w u l \<and> \<not> held_r u l"
    and acq_w_others: "ok l \<Longrightarrow> acq_w t l = Some l' \<Longrightarrow> u \<noteq> t \<Longrightarrow> \<not> held_w u l' \<and> \<not> held_r u l'"
    and acq_r: "ok l \<Longrightarrow> acq_r t l = Some l' \<Longrightarrow>
      ok l' \<and> held_r t l' \<and> \<not> held_w u l'"
    and acq_r_others: "ok l \<Longrightarrow> acq_r t l = Some l' \<Longrightarrow> u \<noteq> t \<Longrightarrow> held_r u l' = held_r u l"
    and rel_ok: "ok l \<Longrightarrow> ok (rel t l)"
    and rel_w: "ok l \<Longrightarrow> held_w t l \<Longrightarrow> \<not> held_w u (rel t l) \<and> \<not> held_r u (rel t l)"
    and rel_others: "ok l \<Longrightarrow> u \<noteq> t \<Longrightarrow> held_w u (rel t l) = held_w u l \<and> held_r u (rel t l) = held_r u l"
begin

lemma acq_w_fresh: "ok l \<Longrightarrow> acq_w t l = Some l' \<Longrightarrow> held_w u l' \<longleftrightarrow> u = t"
  using acq_w acq_w_others by blast

lemma acq_r_needs_no_writer: "ok l \<Longrightarrow> acq_r t l = Some l' \<Longrightarrow> held_w u l' \<Longrightarrow> False"
  using acq_r by blast

end

interpretation rw: rw_locking lock lock_shared unlock
  "\<lambda>t l. writer l = Some t" "\<lambda>t l. t \<in> set (readers l)" rw_ok
  by unfold_locales
    (auto simp: rw_ok_def lock_def lock_shared_def unlock_def in_set_remove1 split: if_splits)

lemma rw_init_ok [simp]: "rw_ok rw_init"
  by (simp add: rw_ok_def rw_init_def)

section \<open>LockedCondition\<close>

text \<open>
  The waiting threads of the condition variable. The closures act on data outside the object:
  \<open>wait\<close> is given the value of its predicate, \<open>notify_*\<close> the effect of its argument. A thread that
  finds the predicate false goes to sleep under the mutex, so no notification falls between.
  Which sleeper \<open>notify_one\<close> wakes is not determined: \<open>k\<close> is the choice.
\<close>

type_synonym sleepers = "nat list"

definition lc_wait :: "nat \<Rightarrow> bool \<Rightarrow> sleepers \<Rightarrow> bool \<times> sleepers" where
  "lc_wait t pred_value sl = (if pred_value then (True, sl) else (False, t # sl))"

definition lc_notify_all :: "('s \<Rightarrow> 's) \<Rightarrow> 's \<Rightarrow> sleepers \<Rightarrow> 's \<times> sleepers" where
  "lc_notify_all f data sl = (f data, [])"

definition lc_notify_one :: "nat \<Rightarrow> ('s \<Rightarrow> 's) \<Rightarrow> 's \<Rightarrow> sleepers \<Rightarrow> 's \<times> sleepers" where
  "lc_notify_one k f data sl =
     (f data, if sl = [] then [] else take (k mod length sl) sl @ drop (Suc (k mod length sl)) sl)"

end
