(* ===== verification/Worker.thy ===== *)
theory Worker
  imports Prelude Locks CoreQueue
begin

text \<open>
  core/Thread.h: the thread handle (\<open>Thread\<close>) and the worker with a job queue
  (\<open>ThreadWorker\<close>), on the queue of \<open>CoreQueue\<close> and the condition of \<open>Locks\<close>. The owner and the
  worker thread interleave at the accesses to shared state: \<open>_empty\<close> and \<open>_stopping\<close> are plain
  \<open>bool\<close>s, read and written in the order the code does (sequential consistency; the data races
  themselves, undefined in C++, are not modelled). A job is a number; what a job does is
  outside the model, and jobs do not call the worker. \<open>ran\<close> and \<open>added\<close> record the jobs run
  and the jobs enqueued, in order.
\<close>

section \<open>Thread\<close>

datatype thread_handle = NoThread | Joinable | NotJoinable

definition new_Thread :: thread_handle where
  "new_Thread = NoThread"

text \<open>Destroying or replacing a joinable \<open>std::thread\<close> terminates the process; joining or
  detaching one that is not joinable throws.\<close>

definition thread_start :: "thread_handle \<Rightarrow> thread_handle run" where
  "thread_start h = (if h = Joinable then fail Abort else return Joinable)"

definition thread_detach :: "thread_handle \<Rightarrow> thread_handle run" where
  "thread_detach h = (case h of
      NoThread \<Rightarrow> fail NullDeref | Joinable \<Rightarrow> return NotJoinable | NotJoinable \<Rightarrow> fail Exception)"

definition thread_join :: "thread_handle \<Rightarrow> thread_handle run" where
  "thread_join h = (case h of
      NoThread \<Rightarrow> fail NullDeref | Joinable \<Rightarrow> return NotJoinable | NotJoinable \<Rightarrow> fail Exception)"

definition destroy_Thread :: "thread_handle \<Rightarrow> unit run" where
  "destroy_Thread h = (if h = Joinable then fail Abort else return ())"

section \<open>ThreadWorker: state\<close>

datatype job = User nat | Noop

datatype worker_pc =
    WDequeue        \<comment> \<open>in \<open>_jobs.dequeue()\<close>\<close>
  | WTest job       \<comment> \<open>before \<open>if(_stopping)\<close>\<close>
  | WCall job       \<comment> \<open>before \<open>func()\<close>\<close>
  | WCheck          \<comment> \<open>before \<open>if(_jobs.empty())\<close>\<close>
  | WNotify         \<comment> \<open>before \<open>_lc.notify_all\<close>\<close>
  | WDone           \<comment> \<open>\<open>run\<close> has returned\<close>

text \<open>The flag of \<open>OWait\<close>, \<open>OStopping\<close>, \<open>OEnqueueNoop\<close> and \<open>OJoin\<close> says whether the destructor made the call.\<close>

datatype owner_pc =
    OIdle
  | OAdd nat           \<comment> \<open>in \<open>add_job\<close>, after \<open>_empty = false\<close>\<close>
  | OWait bool         \<comment> \<open>in \<open>wait\<close>\<close>
  | OStopping bool     \<comment> \<open>at the start of \<open>stop\<close>\<close>
  | OEnqueueNoop bool  \<comment> \<open>in \<open>stop\<close>, after \<open>_stopping = true\<close>\<close>
  | OJoin bool         \<comment> \<open>in \<open>join\<close>\<close>
  | OFault fault
  | OGone              \<comment> \<open>the destructor has returned\<close>

record worker =
  w_empty :: bool
  w_stopping :: bool
  w_lc :: sleepers
  w_jobs :: "job queue"
  w_thread :: thread_handle
  w_pc :: worker_pc
  o_pc :: owner_pc
  ran :: "nat list"
  added :: "nat list"

abbreviation owner_id :: nat where "owner_id \<equiv> 0"
abbreviation worker_id :: nat where "worker_id \<equiv> 1"

definition new_worker :: worker where
  "new_worker = \<lparr>w_empty = False, w_stopping = False, w_lc = [], w_jobs = new_queue,
     w_thread = Joinable, w_pc = WDequeue, o_pc = OIdle, ran = [], added = []\<rparr>"

fun job_effect :: "job \<Rightarrow> nat list" where
  "job_effect (User n) = [n]"
| "job_effect Noop = []"

section \<open>ThreadWorker: the worker thread\<close>

text \<open>One step of \<open>run\<close>; \<open>None\<close> when the thread is asleep in \<open>dequeue\<close> or has returned.\<close>

definition worker_move :: "worker \<Rightarrow> worker option" where
  "worker_move s = (case w_pc s of
      WDequeue \<Rightarrow>
        (if worker_id \<in> set (sleeping (w_jobs s)) then None
         else (case snd (dequeue worker_id (w_jobs s)) of
             Inr (Some j, q) \<Rightarrow> Some (s\<lparr>w_jobs := q, w_pc := WTest j\<rparr>)
           | Inr (None, q) \<Rightarrow> Some (s\<lparr>w_jobs := q\<rparr>)
           | Inl f \<Rightarrow> None))
    | WTest j \<Rightarrow> Some (if w_stopping s then s\<lparr>w_pc := WDone\<rparr> else s\<lparr>w_pc := WCall j\<rparr>)
    | WCall j \<Rightarrow> Some (s\<lparr>ran := ran s @ job_effect j, w_pc := WCheck\<rparr>)
    | WCheck \<Rightarrow> Some (if queue_empty (w_jobs s) then s\<lparr>w_pc := WNotify\<rparr> else s\<lparr>w_pc := WDequeue\<rparr>)
    | WNotify \<Rightarrow>
        (case lc_notify_all (\<lambda>_. True) (w_empty s) (w_lc s) of (e, sl) \<Rightarrow>
           Some (s\<lparr>w_empty := e, w_lc := sl, w_pc := WDequeue\<rparr>))
    | WDone \<Rightarrow> None)"

section \<open>ThreadWorker: the owner\<close>

inductive owner_step :: "worker \<Rightarrow> worker \<Rightarrow> bool" where
  add_job: "o_pc s = OIdle \<Longrightarrow> owner_step s (s\<lparr>w_empty := False, o_pc := OAdd n\<rparr>)"
| add_job_enqueue: "o_pc s = OAdd n \<Longrightarrow>
     owner_step s (s\<lparr>w_jobs := enqueue (User n) (w_jobs s), added := added s @ [n], o_pc := OIdle\<rparr>)"
| wait_call: "o_pc s = OIdle \<Longrightarrow> owner_step s (s\<lparr>o_pc := OWait False\<rparr>)"
| wait_test: "o_pc s = OWait d \<Longrightarrow> owner_id \<notin> set (w_lc s) \<Longrightarrow>
     lc_wait owner_id (w_empty s) (w_lc s) = (go, sl) \<Longrightarrow>
     owner_step s (s\<lparr>w_lc := sl, o_pc := (if go then (if d then OStopping True else OIdle) else OWait d)\<rparr>)"
| stop_call: "o_pc s = OIdle \<Longrightarrow> owner_step s (s\<lparr>o_pc := OStopping False\<rparr>)"
| stop_flag: "o_pc s = OStopping d \<Longrightarrow> owner_step s (s\<lparr>w_stopping := True, o_pc := OEnqueueNoop d\<rparr>)"
| stop_enqueue: "o_pc s = OEnqueueNoop d \<Longrightarrow>
     owner_step s (s\<lparr>w_jobs := enqueue Noop (w_jobs s), o_pc := OJoin d\<rparr>)"
| join_returns: "o_pc s = OJoin d \<Longrightarrow> w_pc s = WDone \<Longrightarrow> thread_join (w_thread s) = return h \<Longrightarrow>
     owner_step s (s\<lparr>w_thread := h, o_pc := (if d then OGone else OIdle)\<rparr>)"
| join_throws: "o_pc s = OJoin d \<Longrightarrow> thread_join (w_thread s) = fail f \<Longrightarrow>
     owner_step s (s\<lparr>o_pc := OFault f\<rparr>)"
| destructor: "o_pc s = OIdle \<Longrightarrow>
     owner_step s (s\<lparr>o_pc := (if \<not> w_stopping s then OWait True else OGone)\<rparr>)"

inductive worker_step :: "worker \<Rightarrow> worker \<Rightarrow> bool" where
  worker_moves: "worker_move s = Some s' \<Longrightarrow> worker_step s s'"
| owner_moves: "owner_step s s' \<Longrightarrow> worker_step s s'"
| wake_worker: "worker_id \<in> set (sleeping (w_jobs s)) \<Longrightarrow>
     worker_step s (s\<lparr>w_jobs := (w_jobs s)\<lparr>sleeping := removeAll worker_id (sleeping (w_jobs s))\<rparr>\<rparr>)"
| wake_owner: "owner_id \<in> set (w_lc s) \<Longrightarrow>
     worker_step s (s\<lparr>w_lc := removeAll owner_id (w_lc s)\<rparr>)"

inductive_cases owner_stepE: "owner_step s s'"
inductive_cases worker_stepE: "worker_step s s'"

abbreviation reaches :: "worker \<Rightarrow> worker \<Rightarrow> bool" where
  "reaches \<equiv> worker_step\<^sup>*\<^sup>*"

section \<open>Invariant\<close>

fun user_jobs :: "job list \<Rightarrow> nat list" where
  "user_jobs [] = []"
| "user_jobs (User n # js) = n # user_jobs js"
| "user_jobs (Noop # js) = user_jobs js"

lemma user_jobs_append [simp]: "user_jobs (xs @ ys) = user_jobs xs @ user_jobs ys"
  by (induction xs rule: user_jobs.induct) auto

lemma user_jobs_Cons: "user_jobs (j # js) = job_effect j @ user_jobs js"
  by (cases j) auto

fun in_flight :: "worker_pc \<Rightarrow> nat list" where
  "in_flight (WTest j) = job_effect j"
| "in_flight (WCall j) = job_effect j"
| "in_flight _ = []"

definition noop_queued :: "worker \<Rightarrow> bool" where
  "noop_queued s \<longleftrightarrow> Noop \<in> set (elements (w_jobs s)) \<or> (\<exists>j. w_pc s = WTest j)"

definition worker_ok :: "worker \<Rightarrow> bool" where
  "worker_ok s \<longleftrightarrow>
     queue_ok (w_jobs s) \<and>
     (w_pc s \<noteq> WDone \<longrightarrow> added s = ran s @ in_flight (w_pc s) @ user_jobs (elements (w_jobs s))) \<and>
     (\<exists>rest. added s = ran s @ rest) \<and>
     (set (sleeping (w_jobs s)) \<noteq> {} \<longrightarrow>
        w_pc s = WDequeue \<and> elements (w_jobs s) = [] \<and> set (sleeping (w_jobs s)) = {worker_id}) \<and>
     (\<forall>d. o_pc s = OEnqueueNoop d \<longrightarrow> w_stopping s) \<and>
     (\<forall>d. o_pc s = OJoin d \<longrightarrow> w_stopping s \<and>
        (w_pc s \<noteq> WDone \<longrightarrow> elements (w_jobs s) \<noteq> [] \<or> (\<exists>j. w_pc s = WTest j)))"

lemmas worker_defs = worker_ok_def worker_move_def lc_wait_def lc_notify_all_def user_jobs_Cons

lemma worker_ok_init: "worker_ok new_worker"
  by (simp add: worker_ok_def new_worker_def)

text \<open>The worker's \<open>dequeue\<close>, by the queue's interface.\<close>

lemma worker_dequeue_cases [consumes 1, case_names blocks takes]:
  assumes "queue_ok q"
  obtains q' where "snd (dequeue t q) = Inr (None, q')" "queue_ok q'" "elements q = []"
      "elements q' = []" "sleeping q' = t # sleeping q"
  | j q' where "snd (dequeue t q) = Inr (Some j, q')" "queue_ok q'" "elements q = j # elements q'"
      "sleeping q' = (if elements q' = [] then [] else sleeping q)"
  using assms
proof (cases rule: queue_fifo.deq_cases [where t = t])
  case (blocks q')
  with dequeue_NoneD [OF assms blocks(2)] that(1) show ?thesis by simp
next
  case (takes x xs q')
  with dequeue_SomeD [OF assms takes(2)] that(2) show ?thesis by simp
qed

lemma worker_move_ok:
  assumes "worker_move s = Some s'" "worker_ok s"
  shows "worker_ok s'"
proof (cases "w_pc s")
  case WDequeue
  have qok: "queue_ok (w_jobs s)" using assms(2) by (simp add: worker_ok_def)
  then show ?thesis
  proof (cases rule: worker_dequeue_cases [where t = worker_id])
    case (blocks q')
    with assms WDequeue show ?thesis by (auto simp: worker_defs split: if_splits)
  next
    case (takes j q')
    with assms WDequeue show ?thesis by (auto simp: worker_defs split: if_splits)
  qed
next
  case WCheck
  with assms show ?thesis
    by (auto simp: worker_defs queue_empty_iff split: if_splits)
qed (use assms in \<open>auto simp: worker_defs split: if_splits\<close>)

lemma owner_step_ok: "owner_step s s' \<Longrightarrow> worker_ok s \<Longrightarrow> worker_ok s'"
  by (induction rule: owner_step.induct) (auto simp: worker_ok_def user_jobs_Cons)

lemma worker_step_ok: "worker_step s s' \<Longrightarrow> worker_ok s \<Longrightarrow> worker_ok s'"
proof (induction rule: worker_step.induct)
  case (wake_worker s)
  then show ?case by (auto simp: worker_ok_def queue_ok_def)
next
  case (wake_owner s)
  then show ?case by (simp add: worker_ok_def)
qed (auto intro: worker_move_ok owner_step_ok)

lemma reaches_ok: "reaches new_worker s \<Longrightarrow> worker_ok s"
proof (induction rule: rtranclp_induct)
  case base
  show ?case by (rule worker_ok_init)
next
  case (step s s')
  then show ?case by (blast intro: worker_step_ok)
qed

section \<open>The worker on its own\<close>

text \<open>At most \<open>n\<close> moves of the worker thread, up to its end; \<open>None\<close> if it gets stuck.\<close>

fun worker_runs :: "nat \<Rightarrow> worker \<Rightarrow> worker option" where
  "worker_runs 0 s = Some s"
| "worker_runs (Suc n) s =
     (if w_pc s = WDone then Some s
      else case worker_move s of None \<Rightarrow> None | Some s' \<Rightarrow> worker_runs n s')"

fun pc_rank :: "worker_pc \<Rightarrow> nat" where
  "pc_rank WDone = 0"
| "pc_rank (WTest j) = 1"
| "pc_rank WDequeue = 2"
| "pc_rank WNotify = 3"
| "pc_rank WCheck = 4"
| "pc_rank (WCall j) = 5"

lemma joining_move:
  assumes "worker_ok s" "o_pc s = OJoin d" "w_pc s \<noteq> WDone"
  obtains s' where "worker_move s = Some s'" "o_pc s' = OJoin d" "pc_rank (w_pc s') < pc_rank (w_pc s)"
proof (cases "w_pc s")
  case WDequeue
  with assms have qok: "queue_ok (w_jobs s)" and ne: "elements (w_jobs s) \<noteq> []"
    and awake: "sleeping (w_jobs s) = []"
    by (auto simp: worker_ok_def)
  from qok show ?thesis
  proof (cases rule: worker_dequeue_cases [where t = worker_id])
    case (blocks q')
    with ne show ?thesis by simp
  next
    case (takes j q')
    with WDequeue awake assms(2) that show ?thesis by (simp add: worker_move_def)
  qed
next
  case (WTest j)
  then show ?thesis
    using assms that [of "s\<lparr>w_pc := WDone\<rparr>"] by (simp add: worker_move_def worker_ok_def)
next
  case (WCall j)
  with assms that show ?thesis by (simp add: worker_move_def)
next
  case WCheck
  with assms that show ?thesis by (simp add: worker_move_def)
next
  case WNotify
  with assms that show ?thesis by (simp add: worker_move_def lc_notify_all_def)
qed (use assms in simp)

lemma joining_runs:
  "worker_ok s \<Longrightarrow> o_pc s = OJoin d \<Longrightarrow> pc_rank (w_pc s) \<le> n \<Longrightarrow>
   \<exists>s'. worker_runs n s = Some s' \<and> w_pc s' = WDone"
proof (induction n arbitrary: s)
  case 0
  then show ?case by (cases "w_pc s") auto
next
  case (Suc n)
  show ?case
  proof (cases "w_pc s = WDone")
    case False
    from joining_move [OF Suc.prems(1,2) False] obtain s' where
      s': "worker_move s = Some s'" "o_pc s' = OJoin d" "pc_rank (w_pc s') < pc_rank (w_pc s)" .
    with Suc worker_move_ok have "\<exists>s''. worker_runs n s' = Some s'' \<and> w_pc s'' = WDone"
      by (meson le_trans less_Suc_eq_le order_less_le_trans)
    with False s' show ?thesis by simp
  qed simp
qed

section \<open>A destructor that waits for ever\<close>

definition never_empty :: "worker \<Rightarrow> bool" where
  "never_empty s \<longleftrightarrow> o_pc s = OWait True \<and> \<not> w_empty s \<and> w_pc s = WDequeue \<and>
     elements (w_jobs s) = [] \<and> queue_ok (w_jobs s)"

lemma never_empty_step: "worker_step s s' \<Longrightarrow> never_empty s \<Longrightarrow> never_empty s'"
proof (induction rule: worker_step.induct)
  case (worker_moves s s')
  then show ?case
    by (auto simp: never_empty_def worker_move_def dequeue_empty queue_ok_def split: if_splits)
next
  case (owner_moves s s')
  then show ?case
    by (auto simp: never_empty_def lc_wait_def elim!: owner_stepE)
qed (auto simp: never_empty_def queue_ok_def)

lemma never_empty_reaches: "reaches s s' \<Longrightarrow> never_empty s \<Longrightarrow> never_empty s'"
  by (induction rule: rtranclp_induct) (auto intro: never_empty_step)

section \<open>Properties\<close>

text \<open>C21. Jobs run in the order they were added, each at most once, and as long as the worker
  thread has not returned every job added has run, is being handled or is still queued.\<close>

theorem worker_job_order:
  assumes "reaches new_worker s"
  shows "(\<exists>rest. added s = ran s @ rest) \<and>
    (w_pc s = WDone \<or> added s = ran s @ in_flight (w_pc s) @ user_jobs (elements (w_jobs s)))"
  using reaches_ok [OF assms] by (auto simp: worker_ok_def)

theorem worker_job_order_witness:
  "(\<exists>rest. added (new_worker\<lparr>w_jobs := enqueue (User 7) new_queue, added := [7]\<rparr>) =
      ran (new_worker\<lparr>w_jobs := enqueue (User 7) new_queue, added := [7]\<rparr>) @ rest)"
proof -
  let ?a = "new_worker\<lparr>o_pc := OAdd 7\<rparr>"
  let ?b = "new_worker\<lparr>w_jobs := enqueue (User 7) new_queue, added := [7]\<rparr>"
  have "worker_step new_worker ?a"
    using owner_step.add_job [of new_worker 7] by (simp add: worker_step.owner_moves new_worker_def)
  moreover have "worker_step ?a ?b"
    using owner_step.add_job_enqueue [of ?a 7] by (simp add: worker_step.owner_moves new_worker_def)
  ultimately have "reaches new_worker ?b" by (meson r_into_rtranclp rtranclp_trans)
  from worker_job_order [OF this] show ?thesis by blast
qed

text \<open>C22. \<open>stop\<close> ends: in every reachable state where the owner has come to \<open>join\<close>, the worker
  thread returns from \<open>run\<close> within five moves of its own.\<close>

theorem worker_stop_terminates:
  assumes "reaches new_worker s" and "o_pc s = OJoin d"
  shows "\<exists>s'. worker_runs 5 s = Some s' \<and> w_pc s' = WDone"
  using joining_runs [OF reaches_ok [OF assms(1)] assms(2), of 5] by (cases "w_pc s") auto

text \<open>The stop of a worker that never had a job, up to \<open>join\<close>.\<close>

lemma stop_trace:
  "reaches new_worker (new_worker\<lparr>w_stopping := True, w_jobs := enqueue Noop new_queue, o_pc := OJoin False\<rparr>)"
proof -
  let ?a = "new_worker\<lparr>o_pc := OStopping False\<rparr>"
  let ?b = "new_worker\<lparr>w_stopping := True, o_pc := OEnqueueNoop False\<rparr>"
  let ?c = "new_worker\<lparr>w_stopping := True, w_jobs := enqueue Noop new_queue, o_pc := OJoin False\<rparr>"
  have "worker_step new_worker ?a"
    using owner_step.stop_call [of new_worker] by (simp add: worker_step.owner_moves new_worker_def)
  moreover have "worker_step ?a ?b"
    using owner_step.stop_flag [of ?a False] by (simp add: worker_step.owner_moves new_worker_def)
  moreover have "worker_step ?b ?c"
    using owner_step.stop_enqueue [of ?b False] by (simp add: worker_step.owner_moves new_worker_def)
  ultimately show ?thesis by (meson r_into_rtranclp rtranclp_trans)
qed

theorem worker_stop_terminates_witness:
  "\<exists>s'. worker_runs 5 (new_worker\<lparr>w_stopping := True, w_jobs := enqueue Noop new_queue,
      o_pc := OJoin False\<rparr>) = Some s' \<and> w_pc s' = WDone"
  by (rule worker_stop_terminates [OF stop_trace, of False]) simp

text \<open>A worker destroyed before any job was added is never destroyed: the destructor waits for
  \<open>_empty\<close>, which only a finished job sets, so from that state no step leads to its end.\<close>

theorem worker_destructor_hangs:
  "\<exists>s. reaches new_worker s \<and> o_pc s = OWait True \<and> added s = [] \<and> OGone \<notin> o_pc ` {s'. reaches s s'}"
proof (intro exI conjI)
  let ?s = "new_worker\<lparr>o_pc := OWait True\<rparr>"
  show "reaches new_worker ?s"
    using owner_step.destructor [of new_worker]
    by (auto intro!: r_into_rtranclp worker_step.owner_moves simp: new_worker_def)
  have "never_empty ?s" by (simp add: never_empty_def new_worker_def)
  then show "OGone \<notin> o_pc ` {s'. reaches ?s s'}"
    by (auto dest!: never_empty_reaches simp: never_empty_def)
qed (simp_all add: new_worker_def)

text \<open>Waiting for the worker does not mean its jobs have run: the worker can find the queue
  empty, the owner then add a job, and the worker then set \<open>_empty\<close>. The destructor's \<open>wait\<close>
  passes, \<open>stop\<close> follows, and the worker thread returns without running the job.\<close>

theorem worker_loses_job:
  "\<exists>s. reaches new_worker s \<and> o_pc s = OGone \<and> added s = [1, 2] \<and> ran s = [1]"
proof -
  let ?q1 = "enqueue (User 1) new_queue"
  let ?q2 = "enqueue (User 2) new_queue"
  let ?q3 = "enqueue Noop ?q2"
  let ?q4 = "new_queue\<lparr>elements := [Noop], num_elements := 1\<rparr>"
  let ?s1 = "new_worker\<lparr>o_pc := OAdd 1\<rparr>"
  let ?s2 = "new_worker\<lparr>w_jobs := ?q1, added := [1]\<rparr>"
  let ?s3 = "new_worker\<lparr>added := [1], w_pc := WTest (User 1)\<rparr>"
  let ?s4 = "new_worker\<lparr>added := [1], w_pc := WCall (User 1)\<rparr>"
  let ?s5 = "new_worker\<lparr>added := [1], ran := [1], w_pc := WCheck\<rparr>"
  let ?s6 = "new_worker\<lparr>added := [1], ran := [1], w_pc := WNotify\<rparr>"
  let ?s7 = "new_worker\<lparr>added := [1], ran := [1], w_pc := WNotify, o_pc := OAdd 2\<rparr>"
  let ?s8 = "new_worker\<lparr>added := [1, 2], ran := [1], w_pc := WNotify, w_jobs := ?q2\<rparr>"
  let ?s9 = "new_worker\<lparr>added := [1, 2], ran := [1], w_jobs := ?q2, w_empty := True\<rparr>"
  let ?s10 = "?s9\<lparr>o_pc := OWait True\<rparr>"
  let ?s11 = "?s9\<lparr>o_pc := OStopping True\<rparr>"
  let ?s12 = "?s9\<lparr>w_stopping := True, o_pc := OEnqueueNoop True\<rparr>"
  let ?s13 = "?s9\<lparr>w_stopping := True, w_jobs := ?q3, o_pc := OJoin True\<rparr>"
  let ?s14 = "?s9\<lparr>w_stopping := True, w_jobs := ?q4, o_pc := OJoin True, w_pc := WTest (User 2)\<rparr>"
  let ?s15 = "?s9\<lparr>w_stopping := True, w_jobs := ?q4, o_pc := OJoin True, w_pc := WDone\<rparr>"
  let ?s16 = "?s15\<lparr>o_pc := OGone, w_thread := NotJoinable\<rparr>"
  note defs = new_worker_def new_queue_def enqueue_def
  note exec = worker_move_def dequeue_def queue_empty_def lc_notify_all_def defs
  note own = worker_step.owner_moves and wrk = worker_step.worker_moves
  have 1: "worker_step new_worker ?s1"
    using own [OF owner_step.add_job [of new_worker 1]] by (simp add: defs)
  have 2: "worker_step ?s1 ?s2"
    using own [OF owner_step.add_job_enqueue [of ?s1 1]] by (simp add: defs)
  have 3: "worker_step ?s2 ?s3" "worker_step ?s3 ?s4" "worker_step ?s4 ?s5" "worker_step ?s5 ?s6"
    by (rule wrk, simp add: exec)+
  have 4: "worker_step ?s6 ?s7"
    using own [OF owner_step.add_job [of ?s6 2]] by (simp add: defs)
  have 5: "worker_step ?s7 ?s8"
    using own [OF owner_step.add_job_enqueue [of ?s7 2]] by (simp add: defs)
  have 6: "worker_step ?s8 ?s9" by (rule wrk) (simp add: exec)
  have 7: "worker_step ?s9 ?s10"
    using own [OF owner_step.destructor [of ?s9]] by (simp add: defs)
  have 8: "worker_step ?s10 ?s11"
    using own [OF owner_step.wait_test [of ?s10 True]] by (simp add: defs lc_wait_def)
  have 9: "worker_step ?s11 ?s12"
    using own [OF owner_step.stop_flag [of ?s11 True]] by (simp add: defs)
  have 10: "worker_step ?s12 ?s13"
    using own [OF owner_step.stop_enqueue [of ?s12 True]] by (simp add: defs)
  have 11: "worker_step ?s13 ?s14" "worker_step ?s14 ?s15" by (rule wrk, simp add: exec)+
  have 12: "worker_step ?s15 ?s16"
    using own [OF owner_step.join_returns [of ?s15 True NotJoinable]] by (simp add: defs thread_join_def)
  have "reaches new_worker ?s16"
    by (rule r_into_rtranclp 1 2 3 4 5 6 7 8 9 10 11 12 converse_rtranclp_into_rtranclp)+
  then show ?thesis by (intro exI [of _ ?s16]) (simp add: defs)
qed

end
