(* ===== verification/StackTrace.thy ===== *)
theory StackTrace
  imports Prelude
begin

text \<open>
  core/ThreadLocal.h and utils/CustomStackTrace.h/.cpp: thread-local objects and the per-thread
  stacks of layer names built on them. Threads are numbers. Objects created with \<open>new\<close> live in a
  store from addresses to values; an address is not used again after its object is deleted,
  so an access through a dangling pointer is visible as \<open>UseAfterFree\<close>. The two hash maps keyed
  by thread id are association lists: their order is the iteration order. Mutexes are not
  shown: an operation is one function.
\<close>

section \<open>Objects\<close>

record 'v store =
  objects :: "(nat \<times> 'v) list"
  next_address :: nat

definition new_store :: "'v store" where
  "new_store = \<lparr>objects = [], next_address = 1\<rparr>"

definition new_object :: "'v \<Rightarrow> 'v store \<Rightarrow> nat \<times> 'v store" where
  "new_object v h = (next_address h,
     \<lparr>objects = (next_address h, v) # objects h, next_address = next_address h + 1\<rparr>)"

definition read_object :: "nat \<Rightarrow> 'v store \<Rightarrow> 'v run" where
  "read_object a h = (case map_of (objects h) a of None \<Rightarrow> fail UseAfterFree | Some v \<Rightarrow> return v)"

definition write_object :: "nat \<Rightarrow> 'v \<Rightarrow> 'v store \<Rightarrow> 'v store run" where
  "write_object a v h =
     (if map_of (objects h) a = None then fail UseAfterFree
      else return (h\<lparr>objects := AList.update a v (objects h)\<rparr>))"

definition delete_object :: "nat \<Rightarrow> 'v store \<Rightarrow> 'v store run" where
  "delete_object a h =
     (if map_of (objects h) a = None then fail BadFree
      else return (h\<lparr>objects := AList.delete a (objects h)\<rparr>))"

section \<open>ThreadLocal\<close>

text \<open>The value of the key in every thread; \<open>None\<close> is the null pointer.\<close>

type_synonym thread_key = "nat \<Rightarrow> nat option"

definition tl_get :: "'v \<Rightarrow> nat \<Rightarrow> bool \<Rightarrow> thread_key \<Rightarrow> 'v store \<Rightarrow> nat option \<times> thread_key \<times> 'v store" where
  "tl_get default_value t create_local key h =
     (case key t of
        Some p \<Rightarrow> (Some p, key, h)
      | None \<Rightarrow>
          if create_local
          then (case new_object default_value h of (p, h') \<Rightarrow> (Some p, key(t := Some p), h'))
          else (None, key, h))"

definition tl_set :: "'v \<Rightarrow> nat \<Rightarrow> nat option \<Rightarrow> thread_key \<Rightarrow> 'v store \<Rightarrow> (thread_key \<times> 'v store) run" where
  "tl_set default_value t p key h =
     (case tl_get default_value t False key h of
        (Some q, _, _) \<Rightarrow> bind (delete_object q h) (\<lambda>h'. return (key(t := p), h'))
      | (None, _, _) \<Rightarrow> return (key(t := p), h))"

text \<open>The constructor logs when no key can be made, and the key is then indeterminate (\<open>None\<close>). The
  destructor deletes the key without running the threads' destructors on it.\<close>

definition new_ThreadLocal :: "bool \<Rightarrow> thread_key option run" where
  "new_ThreadLocal created =
     bind (cc_check ''Check failed:pthread_key_create(&_thread_specific_key, data_destructor) == 0 '' created)
       (\<lambda>_. return (if created then Some (\<lambda>_. None) else None))"

definition destroy_ThreadLocal :: "thread_key \<Rightarrow> thread_key" where
  "destroy_ThreadLocal key = (\<lambda>_. None)"

text \<open>\<open>operator*\<close> and the conversion to a pointer: both create the object when there is none.\<close>

definition tl_object :: "'v \<Rightarrow> nat \<Rightarrow> thread_key \<Rightarrow> 'v store \<Rightarrow> nat \<times> thread_key \<times> 'v store" where
  "tl_object default_value t key h =
     (case tl_get default_value t True key h of (p, key', h') \<Rightarrow> (the p, key', h'))"

text \<open>The end of a thread: the key's destructor deletes the thread's object.\<close>

definition tl_thread_exit :: "nat \<Rightarrow> thread_key \<Rightarrow> 'v store \<Rightarrow> (thread_key \<times> 'v store) run" where
  "tl_thread_exit t key h =
     (case key t of
        None \<Rightarrow> return (key, h)
      | Some p \<Rightarrow> bind (delete_object p h) (\<lambda>h'. return (key(t := None), h')))"

text \<open>An object made through the key lives until its thread ends, but is never deleted when the key is
  destroyed first.\<close>

lemma destroyed_key_leaks:
  assumes "key t = None"
  shows "case tl_object v t key h of (p, key', h') \<Rightarrow>
    tl_thread_exit t key' h' = bind (delete_object p h') (\<lambda>h''. return (key'(t := None), h'')) \<and>
    tl_thread_exit t (destroy_ThreadLocal key') h' = return (destroy_ThreadLocal key', h') \<and>
    map_of (objects h') p = Some v"
  using assms by (simp add: tl_object_def tl_get_def new_object_def tl_thread_exit_def destroy_ThreadLocal_def split_def)

section \<open>CustomStackTrace\<close>

record 'a stack_trace =
  stack_objects :: "'a list store"        \<comment> \<open>each \<open>std::stack\<close>, top first\<close>
  log_stack :: thread_key
  stack_buffer :: "(nat \<times> nat) list"
  flag_objects :: "bool store"
  is_pushing :: thread_key
  pushing_buffer :: "(nat \<times> nat) list"

definition new_trace :: "'a stack_trace" where
  "new_trace = \<lparr>stack_objects = new_store, log_stack = (\<lambda>_. None), stack_buffer = [],
     flag_objects = new_store, is_pushing = (\<lambda>_. None), pushing_buffer = []\<rparr>"

text \<open>\<open>insert\<close> of an \<open>unordered_map\<close> leaves an existing entry as it is.\<close>

definition map_insert :: "'k \<Rightarrow> 'v \<Rightarrow> ('k \<times> 'v) list \<Rightarrow> ('k \<times> 'v) list" where
  "map_insert k v m = (if map_of m k = None then m @ [(k, v)] else m)"

definition get_threadlocal :: "'v \<Rightarrow> nat \<Rightarrow> thread_key \<Rightarrow> 'v store \<Rightarrow> (nat \<times> nat) list
    \<Rightarrow> nat \<times> thread_key \<times> 'v store \<times> (nat \<times> nat) list" where
  "get_threadlocal default_value t key h buffer =
     (case tl_get default_value t False key h of
        (Some p, _, _) \<Rightarrow> (p, key, h, buffer)
      | (None, _, _) \<Rightarrow>
          (case tl_get default_value t True key h of
             (p, key', h') \<Rightarrow> (the p, key', h', map_insert t (the p) buffer)))"

definition stack_of_thread :: "nat \<Rightarrow> 'a stack_trace \<Rightarrow> nat \<times> 'a stack_trace" where
  "stack_of_thread t s =
     (case get_threadlocal [] t (log_stack s) (stack_objects s) (stack_buffer s) of
        (p, key, h, buffer) \<Rightarrow> (p, s\<lparr>log_stack := key, stack_objects := h, stack_buffer := buffer\<rparr>))"

definition set_pushing :: "nat \<Rightarrow> bool \<Rightarrow> 'a stack_trace \<Rightarrow> 'a stack_trace run" where
  "set_pushing t b s =
     (case get_threadlocal False t (is_pushing s) (flag_objects s) (pushing_buffer s) of
        (p, key, h, buffer) \<Rightarrow>
          bind (write_object p b h) (\<lambda>h'.
            return (s\<lparr>is_pushing := key, flag_objects := h', pushing_buffer := buffer\<rparr>)))"

definition trace_push :: "nat \<Rightarrow> 'a \<Rightarrow> 'a stack_trace \<Rightarrow> 'a stack_trace run" where
  "trace_push t item s =
     bind (set_pushing t True s) (\<lambda>s.
     case stack_of_thread t s of (p, s) \<Rightarrow>
     bind (read_object p (stack_objects s)) (\<lambda>st.
     bind (write_object p (item # st) (stack_objects s)) (\<lambda>h.
       return (s\<lparr>stack_objects := h\<rparr>))))"

definition trace_pop :: "nat \<Rightarrow> 'a \<Rightarrow> 'a stack_trace \<Rightarrow> 'a stack_trace run" where
  "trace_pop t item s =
     bind (set_pushing t False s) (\<lambda>s.
     case stack_of_thread t s of (p, s) \<Rightarrow>
     bind (read_object p (stack_objects s)) (\<lambda>st.
     case st of
       [] \<Rightarrow> fail EmptyContainer
     | x # rest \<Rightarrow>
         if item = x
         then bind (write_object p rest (stack_objects s)) (\<lambda>h. return (s\<lparr>stack_objects := h\<rparr>))
         else return s))"

definition trace_clear :: "nat \<Rightarrow> 'a stack_trace \<Rightarrow> 'a stack_trace run" where
  "trace_clear t s =
     (case stack_of_thread t s of (p, s) \<Rightarrow>
        bind (write_object p [] (stack_objects s)) (\<lambda>h. return (s\<lparr>stack_objects := h\<rparr>)))"

fun empty_loop :: "'a list store \<Rightarrow> (nat \<times> nat) list \<Rightarrow> bool run" where
  "empty_loop h [] = return True"
| "empty_loop h ((tid, p) # ps) =
     bind (read_object p h) (\<lambda>st. if st \<noteq> [] then return False else empty_loop h ps)"

definition trace_empty :: "'a stack_trace \<Rightarrow> bool run" where
  "trace_empty s = empty_loop (stack_objects s) (stack_buffer s)"

text \<open>The calls of the callback, in order, and the store with the drained stacks.\<close>

fun dump_loop :: "nat \<Rightarrow> bool \<Rightarrow> (nat \<times> nat) list \<Rightarrow> 'a list store \<Rightarrow> (nat \<times> nat) list
    \<Rightarrow> ((nat \<times> nat option \<times> 'a) list \<times> 'a list store) run" where
  "dump_loop me only_current pushing h [] = return ([], h)"
| "dump_loop me only_current pushing h ((tid, p) # ps) =
     (if only_current \<and> tid \<noteq> me then dump_loop me only_current pushing h ps
      else bind (read_object p h) (\<lambda>st.
           bind (write_object p [] h) (\<lambda>h'.
           bind (dump_loop me only_current pushing h' ps) (\<lambda>(calls, h'').
             return (map (\<lambda>x. (tid, map_of pushing tid, x)) st @ calls, h'')))))"

definition trace_dump :: "nat \<Rightarrow> bool \<Rightarrow> 'a stack_trace
    \<Rightarrow> ((nat \<times> nat option \<times> 'a) list \<times> 'a stack_trace) run" where
  "trace_dump me only_current s =
     bind (dump_loop me only_current (pushing_buffer s) (stack_objects s) (stack_buffer s))
       (\<lambda>(calls, h). return (calls, s\<lparr>stack_objects := h\<rparr>))"

definition trace_thread_exit :: "nat \<Rightarrow> 'a stack_trace \<Rightarrow> 'a stack_trace run" where
  "trace_thread_exit t s =
     bind (tl_thread_exit t (is_pushing s) (flag_objects s)) (\<lambda>(key, h).
     bind (tl_thread_exit t (log_stack s) (stack_objects s)) (\<lambda>(key', h').
       return (s\<lparr>is_pushing := key, flag_objects := h, log_stack := key', stack_objects := h'\<rparr>)))"

section \<open>The failure writer\<close>

text \<open>
  The callback \<open>install_layer_stack_tracer\<close> hands to \<open>dump\<close>: \<open>hasher\<close> and \<open>show_tid\<close> are the
  library's hash and printing of a thread id; the state is \<open>current_tid\<close> and the text so far.
\<close>

definition layer_callback :: "(nat \<Rightarrow> u64) \<Rightarrow> (nat \<Rightarrow> string) \<Rightarrow> bool store \<Rightarrow> u64 \<times> string
    \<Rightarrow> nat \<times> nat option \<times> string \<Rightarrow> (u64 \<times> string) run" where
  "layer_callback hasher show_tid flags st call =
     (case st of (current_tid, out) \<Rightarrow> case call of (tid, is_forwarding, layer_name) \<Rightarrow>
        bind (if current_tid \<noteq> hasher tid
              then (let out1 = (if current_tid \<noteq> -1 then out @ [CHR 0x0A] else out);
                        out2 = out1 @ ''Thread ['' @ show_tid tid @ '']''
                    in case is_forwarding of
                         None \<Rightarrow> return (hasher tid, out2)
                       | Some p \<Rightarrow> bind (read_object p flags) (\<lambda>b.
                           return (hasher tid, out2 @ (if b then ''Forwarding'' else ''Backwarding''))))
              else return (current_tid, out))
          (\<lambda>(cur, out). return (cur, out @ layer_name @ '','')))"

fun layer_calls :: "(nat \<Rightarrow> u64) \<Rightarrow> (nat \<Rightarrow> string) \<Rightarrow> bool store \<Rightarrow> u64 \<times> string
    \<Rightarrow> (nat \<times> nat option \<times> string) list \<Rightarrow> (u64 \<times> string) run" where
  "layer_calls hasher show_tid flags st [] = return st"
| "layer_calls hasher show_tid flags st (c # cs) =
     bind (layer_callback hasher show_tid flags st c) (\<lambda>st'. layer_calls hasher show_tid flags st' cs)"

definition failure_writer :: "(nat \<Rightarrow> u64) \<Rightarrow> (nat \<Rightarrow> string) \<Rightarrow> nat \<Rightarrow> bool \<Rightarrow> string \<Rightarrow> string stack_trace
    \<Rightarrow> (string \<times> string stack_trace) run" where
  "failure_writer hasher show_tid me only_current data s =
     bind (trace_empty s) (\<lambda>e.
       if \<not> e
       then bind (trace_dump me only_current s) (\<lambda>(calls, s').
            bind (layer_calls hasher show_tid (flag_objects s') (-1, []) calls) (\<lambda>(cur, out).
              return (out @ [CHR 0x0A] @ data, s')))
       else return (data, s))"

section \<open>What a trace stands for\<close>

text \<open>The trace_contents of every thread's stack; a thread without an object has the empty one.\<close>

definition trace_contents :: "'a stack_trace \<Rightarrow> nat \<Rightarrow> 'a list" where
  "trace_contents s t = (case log_stack s t of None \<Rightarrow> []
     | Some p \<Rightarrow> (case map_of (objects (stack_objects s)) p of None \<Rightarrow> [] | Some st \<Rightarrow> st))"

text \<open>A key and its buffer agree: the buffer lists each thread once with its object, the objects
  exist, are distinct, and lie below the next address.\<close>

definition key_ok :: "thread_key \<Rightarrow> 'v store \<Rightarrow> (nat \<times> nat) list \<Rightarrow> bool" where
  "key_ok key h buffer \<longleftrightarrow>
     distinct (map fst buffer) \<and> map_of buffer = key \<and>
     (\<forall>t p. key t = Some p \<longrightarrow> p < next_address h \<and> p \<in> fst ` set (objects h)) \<and>
     (\<forall>t u p. key t = Some p \<longrightarrow> key u = Some p \<longrightarrow> t = u) \<and>
     (\<forall>p \<in> fst ` set (objects h). p < next_address h)"

definition trace_ok :: "'a stack_trace \<Rightarrow> bool" where
  "trace_ok s \<longleftrightarrow>
     key_ok (log_stack s) (stack_objects s) (stack_buffer s) \<and>
     key_ok (is_pushing s) (flag_objects s) (pushing_buffer s)"

lemma trace_ok_new [inv_intros]: "trace_ok new_trace"
  by (simp add: trace_ok_def key_ok_def new_trace_def new_store_def)

lemma trace_contents_new [simp]: "trace_contents new_trace = (\<lambda>_. [])"
  by (simp add: trace_contents_def new_trace_def fun_eq_iff)

lemma map_of_in_objects: "p \<in> fst ` set xs \<Longrightarrow> \<exists>v. map_of xs p = Some v"
  using domIff [of p "map_of xs"] by (auto simp: dom_map_of_conv_image_fst)

lemma key_okD:
  assumes "key_ok key h buffer"
  shows "\<And>u p. key u = Some p \<Longrightarrow> p < next_address h"
    "\<And>u p. key u = Some p \<Longrightarrow> p \<in> fst ` set (objects h)"
    "\<And>p. p \<in> fst ` set (objects h) \<Longrightarrow> p < next_address h"
    "\<And>u w p. key u = Some p \<Longrightarrow> key w = Some p \<Longrightarrow> u = w"
    "map_of buffer = key" "distinct (map fst buffer)"
  using assms unfolding key_ok_def by blast+

lemma map_of_append_new: "k \<notin> fst ` set xs \<Longrightarrow> map_of (xs @ [(k, v)]) = (map_of xs)(k := Some v)"
  by (induction xs) auto

lemma get_threadlocal_ok:
  assumes "key_ok key h buffer"
  obtains p key' h' buffer' v where
    "get_threadlocal d t key h buffer = (p, key', h', buffer')"
    "key_ok key' h' buffer'" "key' t = Some p" "map_of (objects h') p = Some v"
    "v = (case key t of None \<Rightarrow> d | Some q \<Rightarrow> the (map_of (objects h) q))"
    "\<And>u. u \<noteq> t \<Longrightarrow> key' u = key u"
    "\<And>u q. key u = Some q \<Longrightarrow> map_of (objects h') q = map_of (objects h) q"
proof (cases "key t")
  case None
  let ?p = "next_address h"
  let ?h = "\<lparr>objects = (?p, d) # objects h, next_address = ?p + 1\<rparr>"
  note below = key_okD [OF assms]
  have fresh: "?p \<notin> fst ` set (objects h)" using below(3) less_irrefl by metis
  have nokey: "key u \<noteq> Some ?p" for u using below(1) less_irrefl by metis
  have buf: "t \<notin> fst ` set buffer"
    using None below(5) by (metis map_of_eq_None_iff)
  have "distinct (map fst (buffer @ [(t, ?p)]))" using below(6) buf by simp
  moreover have "map_of (buffer @ [(t, ?p)]) = key(t := Some ?p)"
    unfolding map_of_append_new [OF buf] using below(5) by simp
  moreover have "\<forall>u p. (key(t := Some ?p)) u = Some p \<longrightarrow> p < ?p + 1 \<and> p \<in> insert ?p (fst ` set (objects h))"
    using below by (metis fun_upd_apply insertI1 insertI2 less_add_one less_SucI option.inject Suc_eq_plus1)
  moreover have "\<forall>u w p. (key(t := Some ?p)) u = Some p \<longrightarrow> (key(t := Some ?p)) w = Some p \<longrightarrow> u = w"
    using below nokey by (metis fun_upd_apply option.inject)
  moreover have "\<forall>p \<in> insert ?p (fst ` set (objects h)). p < ?p + 1"
    using below(3) by (metis insertE less_add_one less_SucI Suc_eq_plus1)
  ultimately have "key_ok (key(t := Some ?p)) ?h (buffer @ [(t, ?p)])"
    unfolding key_ok_def store.select_convs list.set(2) image_insert fst_conv by (intro conjI)
  moreover have "get_threadlocal d t key h buffer = (?p, key(t := Some ?p), ?h, buffer @ [(t, ?p)])"
    using None buf by (simp add: get_threadlocal_def tl_get_def new_object_def map_insert_def map_of_eq_None_iff)
  moreover have "\<And>u q. key u = Some q \<Longrightarrow> map_of (objects ?h) q = map_of (objects h) q"
    using nokey by (metis map_of_Cons_code(2) store.select_convs(1))
  ultimately show ?thesis
    by (intro that [of ?p "key(t := Some ?p)" ?h "buffer @ [(t, ?p)]" d]) (use None in simp_all)
next
  case (Some p)
  have "p \<in> fst ` set (objects h)" by (rule key_okD(2) [OF assms Some])
  then obtain v where v: "map_of (objects h) p = Some v" using map_of_in_objects by metis
  show ?thesis
    by (rule that [of p key h buffer v])
      (simp_all add: Some assms v get_threadlocal_def tl_get_def)
qed

lemma write_object_ok:
  assumes "key_ok key h buffer" "key t = Some p"
  obtains h' where "write_object p v h = return h'" "key_ok key h' buffer"
    "map_of (objects h') = (map_of (objects h))(p := Some v)"
proof
  have mem: "p \<in> fst ` set (objects h)" by (rule key_okD(2) [OF assms])
  let ?h = "h\<lparr>objects := AList.update p v (objects h)\<rparr>"
  show "write_object p v h = return ?h"
    using map_of_in_objects [OF mem] by (auto simp: write_object_def)
  have same: "fst ` set (AList.update p v (objects h)) = fst ` set (objects h)"
    using mem by (auto simp: dom_update)
  have sel: "objects ?h = AList.update p v (objects h)" "next_address ?h = next_address h" by simp_all
  show "key_ok key ?h buffer"
    using assms(1) unfolding key_ok_def sel same .
  show "map_of (objects ?h) = (map_of (objects h))(p := Some v)"
    by (simp add: update_conv')
qed

lemma trace_contents_flags [simp]:
  "trace_contents (s\<lparr>is_pushing := a, flag_objects := b, pushing_buffer := c\<rparr>) = trace_contents s"
  by (simp add: trace_contents_def fun_eq_iff cong: option.case_cong)

lemma set_pushing_ok:
  assumes "trace_ok s"
  obtains s' where "set_pushing t b s = return s'" "trace_ok s'" "trace_contents s' = trace_contents s"
    "is_pushing s' t \<noteq> None" "stack_buffer s' = stack_buffer s" "log_stack s' = log_stack s"
proof -
  from assms have "key_ok (is_pushing s) (flag_objects s) (pushing_buffer s)" by (simp add: trace_ok_def)
  from get_threadlocal_ok [OF this, of False t] obtain p key h buf v where
    g: "get_threadlocal False t (is_pushing s) (flag_objects s) (pushing_buffer s) = (p, key, h, buf)"
      "key_ok key h buf" "key t = Some p" by metis
  from write_object_ok [OF g(2,3), of b] obtain h' where
    w: "write_object p b h = return h'" "key_ok key h' buf" by metis
  show ?thesis
    by (rule that [of "s\<lparr>is_pushing := key, flag_objects := h', pushing_buffer := buf\<rparr>"])
      (use g w assms in \<open>simp_all add: set_pushing_def trace_ok_def\<close>)
qed

lemma stack_of_thread_ok:
  assumes "trace_ok s"
  obtains p s' where "stack_of_thread t s = (p, s')" "trace_ok s'" "trace_contents s' = trace_contents s"
    "log_stack s' t = Some p" "read_object p (stack_objects s') = return (trace_contents s t)"
proof -
  from assms have "key_ok (log_stack s) (stack_objects s) (stack_buffer s)" by (simp add: trace_ok_def)
  from this obtain p key h buf v where
    g: "get_threadlocal [] t (log_stack s) (stack_objects s) (stack_buffer s) = (p, key, h, buf)"
      "key_ok key h buf" "key t = Some p" "map_of (objects h) p = Some v"
      "v = (case log_stack s t of None \<Rightarrow> [] | Some q \<Rightarrow> the (map_of (objects (stack_objects s)) q))"
      "\<And>u. u \<noteq> t \<Longrightarrow> key u = log_stack s u"
      "\<And>u q. log_stack s u = Some q \<Longrightarrow> map_of (objects h) q = map_of (objects (stack_objects s)) q"
    by (rule get_threadlocal_ok [of _ _ _ "[]" t, OF _ that])
  let ?s = "s\<lparr>log_stack := key, stack_objects := h, stack_buffer := buf\<rparr>"
  have here: "v = trace_contents s t"
  proof (cases "log_stack s t")
    case (Some q)
    with map_of_in_objects [OF key_okD(2) [OF \<open>key_ok (log_stack s) _ _\<close> Some]] g(5) show ?thesis
      by (auto simp: trace_contents_def)
  qed (simp add: g(5) trace_contents_def)
  have "trace_contents ?s u = trace_contents s u" for u
  proof (cases "u = t")
    case True
    have "trace_contents ?s t = v" by (simp add: trace_contents_def g(3,4))
    with here True show ?thesis by simp
  next
    case False
    with g(6,7) [of u] show ?thesis by (auto simp: trace_contents_def split: option.split)
  qed
  with here show ?thesis
    by (intro that [of p ?s])
      (use g(1-4) assms in \<open>simp_all add: stack_of_thread_def trace_ok_def read_object_def fun_eq_iff\<close>)
qed

lemma write_stack_ok:
  assumes "trace_ok s" "log_stack s t = Some p"
  obtains h where "write_object p v (stack_objects s) = return h" "trace_ok (s\<lparr>stack_objects := h\<rparr>)"
    "trace_contents (s\<lparr>stack_objects := h\<rparr>) = (trace_contents s)(t := v)"
proof -
  from assms have k: "key_ok (log_stack s) (stack_objects s) (stack_buffer s)" by (simp add: trace_ok_def)
  from write_object_ok [OF k assms(2), of v] obtain h where
    h: "write_object p v (stack_objects s) = return h" "key_ok (log_stack s) h (stack_buffer s)"
      "map_of (objects h) = (map_of (objects (stack_objects s)))(p := Some v)" by metis
  have "trace_contents (s\<lparr>stack_objects := h\<rparr>) u = ((trace_contents s)(t := v)) u" for u
  proof (cases "u = t")
    case False
    then have "log_stack s u \<noteq> Some p" using key_okD(4) [OF k assms(2)] by metis
    with False show ?thesis by (simp add: trace_contents_def h(3) split: option.split)
  qed (simp add: trace_contents_def h(3) assms(2))
  then show ?thesis
    by (intro that [of h]) (use h assms in \<open>simp_all add: trace_ok_def fun_eq_iff\<close>)
qed

section \<open>The specification: one stack of names per thread\<close>

datatype 'a trace_op = Push nat 'a | Pop nat 'a | Clear nat

fun trace_step :: "'a trace_op \<Rightarrow> 'a stack_trace \<Rightarrow> 'a stack_trace run" where
  "trace_step (Push t x) s = trace_push t x s"
| "trace_step (Pop t x) s = trace_pop t x s"
| "trace_step (Clear t) s = trace_clear t s"

fun trace_steps :: "'a trace_op list \<Rightarrow> 'a stack_trace \<Rightarrow> 'a stack_trace run" where
  "trace_steps [] s = return s"
| "trace_steps (c # cs) s = bind (trace_step c s) (trace_steps cs)"

text \<open>The intended effect; \<open>None\<close> where a thread pops its empty stack.\<close>

fun spec_step :: "'a trace_op \<Rightarrow> (nat \<Rightarrow> 'a list) \<Rightarrow> (nat \<Rightarrow> 'a list) option" where
  "spec_step (Push t x) a = Some (a(t := x # a t))"
| "spec_step (Pop t x) a =
     (case a t of [] \<Rightarrow> None | y # ys \<Rightarrow> Some (a(t := if x = y then ys else y # ys)))"
| "spec_step (Clear t) a = Some (a(t := []))"

fun spec_steps :: "'a trace_op list \<Rightarrow> (nat \<Rightarrow> 'a list) \<Rightarrow> (nat \<Rightarrow> 'a list) option" where
  "spec_steps [] a = Some a"
| "spec_steps (c # cs) a = (case spec_step c a of None \<Rightarrow> None | Some a' \<Rightarrow> spec_steps cs a')"

fun op_thread :: "'a trace_op \<Rightarrow> nat" where
  "op_thread (Push t x) = t"
| "op_thread (Pop t x) = t"
| "op_thread (Clear t) = t"

lemma trace_push_ok:
  assumes "trace_ok s"
  obtains s' where "trace_push t x s = return s'" "trace_ok s'"
    "trace_contents s' = (trace_contents s)(t := x # trace_contents s t)" "log_stack s' t \<noteq> None"
proof -
  obtain s1 where 1: "set_pushing t True s = return s1" "trace_ok s1" "trace_contents s1 = trace_contents s"
    using set_pushing_ok [OF assms] by metis
  obtain p s2 where 2: "stack_of_thread t s1 = (p, s2)" "trace_ok s2" "trace_contents s2 = trace_contents s"
    "log_stack s2 t = Some p" "read_object p (stack_objects s2) = return (trace_contents s t)"
    using stack_of_thread_ok [OF 1(2), of t] 1(3) by metis
  obtain h where "write_object p (x # trace_contents s t) (stack_objects s2) = return h"
    "trace_ok (s2\<lparr>stack_objects := h\<rparr>)"
    "trace_contents (s2\<lparr>stack_objects := h\<rparr>) = (trace_contents s2)(t := x # trace_contents s t)"
    using write_stack_ok [OF 2(2,4)] by metis
  with 1 2 that show ?thesis by (simp add: trace_push_def)
qed

lemma trace_clear_ok:
  assumes "trace_ok s"
  obtains s' where "trace_clear t s = return s'" "trace_ok s'"
    "trace_contents s' = (trace_contents s)(t := [])" "log_stack s' t \<noteq> None"
proof -
  obtain p s2 where 2: "stack_of_thread t s = (p, s2)" "trace_ok s2" "trace_contents s2 = trace_contents s"
    "log_stack s2 t = Some p" using stack_of_thread_ok [OF assms, of t] by metis
  obtain h where "write_object p [] (stack_objects s2) = return h" "trace_ok (s2\<lparr>stack_objects := h\<rparr>)"
    "trace_contents (s2\<lparr>stack_objects := h\<rparr>) = (trace_contents s2)(t := [])"
    using write_stack_ok [OF 2(2,4)] by metis
  with 2 that show ?thesis by (simp add: trace_clear_def)
qed

lemma trace_pop_empty:
  assumes "trace_ok s" "trace_contents s t = []"
  shows "trace_pop t x s = fail EmptyContainer"
proof -
  obtain s1 where 1: "set_pushing t False s = return s1" "trace_ok s1" "trace_contents s1 = trace_contents s"
    using set_pushing_ok [OF assms(1)] by metis
  obtain p s2 where "stack_of_thread t s1 = (p, s2)"
    "read_object p (stack_objects s2) = return (trace_contents s t)"
    using stack_of_thread_ok [OF 1(2), of t] 1(3) by metis
  with 1 assms(2) show ?thesis by (simp add: trace_pop_def)
qed

lemma trace_pop_ok:
  assumes "trace_ok s" "trace_contents s t = y # ys"
  obtains s' where "trace_pop t x s = return s'" "trace_ok s'"
    "trace_contents s' = (trace_contents s)(t := if x = y then ys else y # ys)" "log_stack s' t \<noteq> None"
proof -
  obtain s1 where 1: "set_pushing t False s = return s1" "trace_ok s1" "trace_contents s1 = trace_contents s"
    using set_pushing_ok [OF assms(1)] by metis
  obtain p s2 where 2: "stack_of_thread t s1 = (p, s2)" "trace_ok s2" "trace_contents s2 = trace_contents s"
    "log_stack s2 t = Some p" "read_object p (stack_objects s2) = return (y # ys)"
    using stack_of_thread_ok [OF 1(2), of t] 1(3) assms(2) by metis
  obtain h where h: "write_object p ys (stack_objects s2) = return h" "trace_ok (s2\<lparr>stack_objects := h\<rparr>)"
    "trace_contents (s2\<lparr>stack_objects := h\<rparr>) = (trace_contents s2)(t := ys)"
    using write_stack_ok [OF 2(2,4)] by metis
  show ?thesis
  proof (cases "x = y")
    case True
    with 1 2 h that show ?thesis by (simp add: trace_pop_def)
  next
    case False
    have "(trace_contents s)(t := y # ys) = trace_contents s" using assms(2) by (metis fun_upd_triv)
    with False 1 2 that show ?thesis by (simp add: trace_pop_def)
  qed
qed

text \<open>One operation refines its specification.\<close>

lemma trace_step_refines:
  assumes "trace_ok s"
  shows "case spec_step c (trace_contents s) of
      None \<Rightarrow> trace_step c s = fail EmptyContainer
    | Some a \<Rightarrow> \<exists>s'. trace_step c s = return s' \<and> trace_ok s' \<and> trace_contents s' = a \<and>
        log_stack s' (op_thread c) \<noteq> None"
proof (cases c)
  case (Push t x)
  with trace_push_ok [OF assms, of t x] show ?thesis by simp metis
next
  case (Clear t)
  with trace_clear_ok [OF assms, of t] show ?thesis by simp metis
next
  case (Pop t x)
  show ?thesis
  proof (cases "trace_contents s t")
    case Nil
    with Pop trace_pop_empty [OF assms Nil] show ?thesis by simp
  next
    case (Cons y ys)
    obtain s' where "trace_pop t x s = return s'" "trace_ok s'" "log_stack s' t \<noteq> None"
      "trace_contents s' = (trace_contents s)(t := if x = y then ys else y # ys)"
      using trace_pop_ok [OF assms Cons] by metis
    with Pop Cons show ?thesis by auto
  qed
qed

lemma trace_steps_refine:
  assumes "trace_ok s"
  shows "case spec_steps cs (trace_contents s) of
      None \<Rightarrow> trace_steps cs s = fail EmptyContainer
    | Some a \<Rightarrow> \<exists>s'. trace_steps cs s = return s' \<and> trace_ok s' \<and> trace_contents s' = a"
  using assms
proof (induction cs arbitrary: s)
  case (Cons c cs)
  show ?case
  proof (cases "spec_step c (trace_contents s)")
    case None
    with trace_step_refines [OF Cons.prems, of c] show ?thesis by simp
  next
    case (Some a)
    with trace_step_refines [OF Cons.prems, of c] obtain s' where
      "trace_step c s = return s'" "trace_ok s'" "trace_contents s' = a" by auto
    with Some Cons.IH [of s'] show ?thesis by (simp cong: option.case_cong)
  qed
qed simp

text \<open>C25. Whatever sequence of \<open>push\<close>, \<open>pop\<close> and \<open>clear\<close> calls any threads make on a fresh
  \<open>CustomStackTrace\<close>, each thread works on a stack of its own: \<open>push\<close> puts the item on the calling
  thread's stack, \<open>pop\<close> removes the top only when it equals the given item, \<open>clear\<close> empties it, no
  call touches another thread's stack, and the sequence faults exactly when some call pops an
  empty stack.\<close>

theorem stack_trace_refines_stacks:
  "case spec_steps cs (\<lambda>_. []) of
      None \<Rightarrow> trace_steps cs new_trace = fail EmptyContainer
    | Some a \<Rightarrow> \<exists>s. trace_steps cs new_trace = return s \<and> trace_ok s \<and> trace_contents s = a"
  using trace_steps_refine [OF trace_ok_new, of cs] by simp

section \<open>Draining the stacks\<close>

lemma write_object_known:
  assumes "map_of (objects h) p = Some st"
  obtains h' where "write_object p v h = return h'" "map_of (objects h') = (map_of (objects h))(p := Some v)"
  using that [of "h\<lparr>objects := AList.update p v (objects h)\<rparr>"] assms
  by (simp add: write_object_def update_conv')

lemma dump_loop_drains:
  assumes "\<And>t p. (t, p) \<in> set ps \<Longrightarrow> \<exists>st. map_of (objects h) p = Some st" "distinct (map snd ps)"
  shows "\<exists>h'. dump_loop me False pushing h ps =
      return (concat (map (\<lambda>(t, p). map (\<lambda>x. (t, map_of pushing t, x)) (the (map_of (objects h) p))) ps), h') \<and>
    map_of (objects h') = (\<lambda>a. if a \<in> snd ` set ps then Some [] else map_of (objects h) a)"
  using assms
proof (induction ps arbitrary: h)
  case (Cons tp ps)
  obtain t p where tp: "tp = (t, p)" by (cases tp)
  with Cons.prems(1) [of t p] obtain st where st: "map_of (objects h) p = Some st" by auto
  from write_object_known [OF st, of "[]"] obtain h1 where
    h1: "write_object p [] h = return h1" "map_of (objects h1) = (map_of (objects h))(p := Some [])" by metis
  have notin: "p \<notin> snd ` set ps" using Cons.prems(2) tp by simp
  then have same: "\<And>u q. (u, q) \<in> set ps \<Longrightarrow> map_of (objects h1) q = map_of (objects h) q"
    by (metis h1(2) fun_upd_other image_eqI snd_conv)
  have "\<exists>st. map_of (objects h1) q = Some st" if "(u, q) \<in> set ps" for u q
    using Cons.prems(1) [of u q] same [OF that] that by auto
  then obtain h2 where h2: "dump_loop me False pushing h1 ps =
      return (concat (map (\<lambda>(t, p). map (\<lambda>x. (t, map_of pushing t, x)) (the (map_of (objects h1) p))) ps), h2)"
    "map_of (objects h2) = (\<lambda>a. if a \<in> snd ` set ps then Some [] else map_of (objects h1) a)"
    using Cons.IH [of h1] Cons.prems(2) by auto
  have "map (\<lambda>(t, p). map (\<lambda>x. (t, map_of pushing t, x)) (the (map_of (objects h1) p))) ps =
      map (\<lambda>(t, p). map (\<lambda>x. (t, map_of pushing t, x)) (the (map_of (objects h) p))) ps"
    by (rule map_cong [OF refl]) (auto simp: same)
  note calls = h2(1) [unfolded this]
  have "map_of (objects h2) = (\<lambda>a. if a \<in> snd ` set (tp # ps) then Some [] else map_of (objects h) a)"
    using h2(2) h1(2) notin tp by (auto simp: fun_eq_iff)
  with h1(1) calls tp st show ?case by (simp add: read_object_def)
qed (simp add: fun_eq_iff)

lemma empty_loop_all_empty:
  "(\<And>t p. (t, p) \<in> set ps \<Longrightarrow> map_of (objects h) p = Some []) \<Longrightarrow> empty_loop h ps = return True"
proof (induction ps)
  case (Cons tp ps)
  obtain t p where "tp = (t, p)" by (cases tp)
  moreover from this Cons.prems [of t p] have "map_of (objects h) p = Some []" by simp
  moreover have "empty_loop h ps = return True" using Cons.prems by (intro Cons.IH) (metis list.set_intros(2))
  ultimately show ?case by (simp add: read_object_def)
qed simp

lemma filter_calls:
  assumes "distinct (map fst ps)"
  shows "map (\<lambda>c. snd (snd c)) (filter (\<lambda>c. fst c = t) (concat (map (\<lambda>(t, p). map (\<lambda>x. (t, m t, x)) (f p)) ps))) =
    (case map_of ps t of None \<Rightarrow> [] | Some p \<Rightarrow> f p)"
  using assms
proof (induction ps)
  case (Cons tp ps)
  obtain u p where tp: "tp = (u, p)" by (cases tp)
  have here: "map (\<lambda>c. snd (snd c)) (filter (\<lambda>c. fst c = t) (map (\<lambda>x. (u, m u, x)) xs)) = (if u = t then xs else [])"
    for xs by (induction xs) auto
  have "u = t \<Longrightarrow> map_of ps t = None" using Cons.prems tp by (simp add: map_of_eq_None_iff)
  with Cons here tp show ?case by auto
qed simp

lemma trace_steps_ok:
  assumes "trace_steps cs new_trace = return s"
  shows "trace_ok s" "spec_steps cs (\<lambda>_. []) = Some (trace_contents s)"
  using trace_steps_refine [OF trace_ok_new, of cs] assms by (auto split: option.splits)

lemma trace_ok_snd_distinct:
  assumes "key_ok key h ps"
  shows "distinct (map snd ps)"
proof -
  note k = key_okD [OF assms]
  have "distinct ps" using k(6) by (simp add: distinct_map)
  moreover have "inj_on snd (set ps)"
  proof (rule inj_onI)
    fix x y assume xy: "x \<in> set ps" "y \<in> set ps" "snd x = snd y"
    have "key (fst x) = Some (snd x)" "key (fst y) = Some (snd y)"
      using k(5,6) xy by (metis map_of_is_SomeI prod.collapse)+
    with k(4) xy(3) have "fst x = fst y" by metis
    with xy(3) show "x = y" by (simp add: prod_eq_iff)
  qed
  ultimately show ?thesis by (simp add: distinct_map)
qed

text \<open>C26. After any calls, \<open>dump\<close> over all threads hands the callback every thread's items from the
  top of its stack down, and nothing else; it leaves all stacks empty, so \<open>empty\<close> then answers
  true.\<close>

theorem dump_drains:
  assumes "trace_steps cs new_trace = return s"
  shows "\<exists>calls s'. trace_dump me False s = return (calls, s') \<and> trace_empty s' = return True \<and>
    (\<forall>t. map (\<lambda>c. snd (snd c)) (filter (\<lambda>c. fst c = t) calls) = trace_contents s t)"
proof -
  let ?ps = "stack_buffer s"
  have k: "key_ok (log_stack s) (stack_objects s) ?ps" using trace_steps_ok(1) [OF assms] by (simp add: trace_ok_def)
  have known: "\<exists>st. map_of (objects (stack_objects s)) p = Some st" if "(t, p) \<in> set ?ps" for t p
    by (rule map_of_in_objects, rule key_okD(2) [OF k, of t])
      (use that key_okD(5,6) [OF k] in \<open>metis map_of_is_SomeI\<close>)
  obtain h where
    d: "dump_loop me False (pushing_buffer s) (stack_objects s) ?ps =
      return (concat (map (\<lambda>(t, p). map (\<lambda>x. (t, map_of (pushing_buffer s) t, x))
        (the (map_of (objects (stack_objects s)) p))) ?ps), h)"
      "map_of (objects h) = (\<lambda>a. if a \<in> snd ` set ?ps then Some [] else map_of (objects (stack_objects s)) a)"
    using dump_loop_drains [of ?ps "stack_objects s" me "pushing_buffer s"] known trace_ok_snd_distinct [OF k]
    by blast
  have "empty_loop h ?ps = return True" by (rule empty_loop_all_empty) (force simp: d(2))
  moreover have "(case map_of ?ps t of None \<Rightarrow> [] | Some p \<Rightarrow> the (map_of (objects (stack_objects s)) p)) =
      trace_contents s t" for t
    using map_of_in_objects [OF key_okD(2) [OF k, of t]] unfolding key_okD(5) [OF k]
    by (auto simp: trace_contents_def split: option.split)
  ultimately show ?thesis
    using d(1) filter_calls [OF key_okD(6) [OF k], of _ "map_of (pushing_buffer s)"
      "\<lambda>p. the (map_of (objects (stack_objects s)) p)"]
    by (simp add: trace_dump_def trace_empty_def)
qed

theorem dump_drains_witness:
  "\<exists>s calls s'. trace_dump 0 False s = return (calls, s') \<and> trace_empty s' = return True \<and>
    map (\<lambda>c. snd (snd c)) (filter (\<lambda>c. fst c = 1) calls) = [''fc2'', ''fc1'']"
proof -
  let ?cs = "[Push 1 ''fc1'', Push 2 ''conv'', Push 1 ''fc2'']"
  have "\<exists>a. spec_steps ?cs (\<lambda>_. []) = Some a \<and> a 1 = [''fc2'', ''fc1'']" by simp
  then obtain a where a: "spec_steps ?cs (\<lambda>_. []) = Some a" "a 1 = [''fc2'', ''fc1'']" by blast
  then obtain s where s: "trace_steps ?cs new_trace = return s" "trace_contents s 1 = [''fc2'', ''fc1'']"
    using trace_steps_refine [OF trace_ok_new, of ?cs] unfolding trace_contents_new a(1) option.case by blast
  from dump_drains [OF s(1), of 0] s(2) show ?thesis by metis
qed

section \<open>The end of a thread\<close>

lemma delete_object_ok:
  assumes "key_ok key h buffer" "key t = Some p"
  obtains h' where "delete_object p h = return h'" "map_of (objects h') = (map_of (objects h))(p := None)"
proof
  show "delete_object p h = return (h\<lparr>objects := AList.delete p (objects h)\<rparr>)"
    using map_of_in_objects [OF key_okD(2) [OF assms]] by (auto simp: delete_object_def)
qed (simp add: delete_conv')

lemma dump_loop_dangling:
  "(t, p) \<in> set ps \<Longrightarrow> map_of (objects h) p = None \<Longrightarrow> dump_loop me False pushing h ps = fail UseAfterFree"
proof (induction ps arbitrary: h)
  case (Cons uq ps)
  obtain u q where uq: "uq = (u, q)" by (cases uq)
  show ?case
  proof (cases "map_of (objects h) q")
    case None
    with uq show ?thesis by (simp add: read_object_def)
  next
    case (Some st)
    with Cons.prems uq have "p \<noteq> q" "(t, p) \<in> set ps" by auto
    obtain h1 where h1: "write_object q [] h = return h1" "map_of (objects h1) = (map_of (objects h))(q := Some [])"
      using write_object_known [OF Some, of "[]"] by metis
    with Cons.IH [of h1] \<open>p \<noteq> q\<close> \<open>(t, p) \<in> set ps\<close> Cons.prems(2) uq Some show ?thesis
      by (simp add: read_object_def)
  qed
qed simp

lemma empty_loop_dangling:
  assumes "(t, p) \<in> set ps" "map_of (objects h) p = None" "\<And>u q st. (u, q) \<in> set ps \<Longrightarrow> map_of (objects h) q = Some st \<Longrightarrow> st = []"
  shows "empty_loop h ps = fail UseAfterFree"
  using assms
proof (induction ps)
  case (Cons uq ps)
  obtain u q where uq: "uq = (u, q)" by (cases uq)
  show ?case
  proof (cases "map_of (objects h) q")
    case (Some st)
    with Cons.prems uq have "(t, p) \<in> set ps" "st = []" by auto
    moreover have "empty_loop h ps = fail UseAfterFree"
      using Cons.prems \<open>(t, p) \<in> set ps\<close> by (intro Cons.IH) auto
    ultimately show ?thesis using uq Some by (simp add: read_object_def)
  qed (simp add: uq read_object_def)
qed simp

lemma trace_steps_nil: "trace_steps [] = return"
  by (rule ext) simp

lemma trace_steps_one: "trace_steps [c] = trace_step c"
  by (rule ext) (simp add: trace_steps_nil)

lemma trace_steps_append:
  "trace_steps (cs @ ds) s = bind (trace_steps cs s) (trace_steps ds)"
proof (induction cs arbitrary: s)
  case (Cons c cs)
  have "trace_steps (cs @ ds) = (\<lambda>s. bind (trace_steps cs s) (trace_steps ds))" by (rule ext) (rule Cons.IH)
  then show ?case by (simp add: bind_assoc)
qed simp

lemma trace_steps_last:
  assumes "trace_steps (cs @ [c]) new_trace = return s"
  shows "log_stack s (op_thread c) \<noteq> None"
proof -
  from assms have "snd (bind (trace_steps cs new_trace) (trace_step c)) = Inr s"
    by (simp add: trace_steps_append trace_steps_one)
  then obtain s1 where 1: "snd (trace_steps cs new_trace) = Inr s1" "snd (trace_step c s1) = Inr s"
    by (rule snd_bind_InrE)
  then have "trace_ok s1"
    using trace_steps_refine [OF trace_ok_new, of cs] by (auto split: option.splits)
  from trace_step_refines [OF this, of c] 1(2) show ?thesis by (auto split: option.splits)
qed

text \<open>A thread that used the trace and ends leaves dangling pointers behind: the destructor
  of its thread-local objects frees its stack, but the trace's own table keeps the pointer, so the
  next \<open>dump\<close> over all threads, from any thread, reads freed memory, and so does the next
  \<open>empty\<close> when all the stacks had been popped.\<close>

theorem ended_thread_dangles:
  assumes "trace_steps (cs @ [c]) new_trace = return s"
  shows "\<exists>s'. trace_thread_exit (op_thread c) s = return s' \<and>
    trace_dump me False s' = fail UseAfterFree \<and>
    (trace_contents s = (\<lambda>_. []) \<longrightarrow> trace_empty s' = fail UseAfterFree)"
proof -
  let ?t = "op_thread c"
  have ok: "trace_ok s" using trace_steps_ok [OF assms] by simp
  then have k: "key_ok (log_stack s) (stack_objects s) (stack_buffer s)"
    and f: "key_ok (is_pushing s) (flag_objects s) (pushing_buffer s)" by (simp_all add: trace_ok_def)
  obtain p where p: "log_stack s ?t = Some p" using trace_steps_last [OF assms] by auto
  obtain h where h: "delete_object p (stack_objects s) = return h"
    "map_of (objects h) = (map_of (objects (stack_objects s)))(p := None)"
    using delete_object_ok [OF k p] by metis
  have "\<exists>key fl. tl_thread_exit ?t (is_pushing s) (flag_objects s) = return (key, fl)"
  proof (cases "is_pushing s ?t")
    case (Some q)
    from delete_object_ok [OF f Some] obtain g where "delete_object q (flag_objects s) = return g" by metis
    with Some show ?thesis by (simp add: tl_thread_exit_def)
  qed (simp add: tl_thread_exit_def)
  then obtain key fl where e: "tl_thread_exit ?t (is_pushing s) (flag_objects s) = return (key, fl)" by blast
  let ?s = "s\<lparr>is_pushing := key, flag_objects := fl, log_stack := (log_stack s)(?t := None), stack_objects := h\<rparr>"
  have "trace_thread_exit ?t s = return ?s"
    by (simp add: trace_thread_exit_def e p h(1)) (simp add: tl_thread_exit_def p h(1))
  moreover have mem: "(?t, p) \<in> set (stack_buffer s)" using p key_okD(5) [OF k] by (metis map_of_SomeD)
  moreover have "empty_loop h (stack_buffer s) = fail UseAfterFree" if "trace_contents s = (\<lambda>_. [])"
  proof (rule empty_loop_dangling [OF mem])
    fix u q st
    assume q: "(u, q) \<in> set (stack_buffer s)" "map_of (objects h) q = Some st"
    then have "log_stack s u = Some q" using key_okD(5,6) [OF k] by (metis map_of_is_SomeI)
    moreover from q(2) h(2) have "map_of (objects (stack_objects s)) q = Some st" by (auto split: if_splits)
    ultimately have "trace_contents s u = st" by (simp add: trace_contents_def)
    with that show "st = []" by simp
  qed (simp add: h(2))
  ultimately show ?thesis
    using dump_loop_dangling [OF mem, of h me "pushing_buffer s"]
    by (intro exI [of _ ?s]) (simp add: trace_dump_def trace_empty_def h(2))
qed

theorem ended_thread_dangles_witness:
  "\<exists>s s'. trace_steps ([Push 1 ''fc1''] @ [Pop 1 ''fc1'']) new_trace = return s \<and>
    trace_thread_exit 1 s = return s' \<and> trace_dump 0 False s' = fail UseAfterFree \<and>
    trace_empty s' = fail UseAfterFree"
proof -
  let ?cs = "[Push 1 ''fc1''] @ [Pop 1 ''fc1'']"
  have "spec_steps ?cs (\<lambda>_. []) = Some (\<lambda>_. [])" by (simp add: fun_eq_iff)
  then obtain s where "trace_steps ?cs new_trace = return s" "trace_contents s = (\<lambda>_. [])"
    using trace_steps_refine [OF trace_ok_new, of ?cs] unfolding trace_contents_new by auto
  with ended_thread_dangles [of "[Push 1 ''fc1'']" "Pop 1 ''fc1''" s 0] show ?thesis by auto
qed

end
