(* ===== verification/Allocator.thy ===== *)
theory Allocator
  imports Prelude
begin

text \<open>
  math/Allocator.h: the heap behind \<open>posix_memalign\<close> and \<open>free\<close>, the \<open>CpuAllocator\<close> on it, and
  the contract of the abstract class \<open>Allocator\<close> as a locale, which the pool and its clients
  rely on. The C library's choice of an address is the parameter \<open>pick\<close>; \<open>posix_memalign\<close> takes
  it only when it is what the manual promises (a fresh, non-null, aligned block that overlaps no
  other) and reports an error otherwise, so every legal behaviour comes from some \<open>pick\<close>.
\<close>

section \<open>The C heap\<close>

record memory =
  blocks :: "(ptr \<times> u64) list"     \<comment> \<open>allocated blocks: address and size\<close>

type_synonym heap_choice = "(ptr \<times> u64) list \<Rightarrow> u64 \<Rightarrow> ptr option"

definition no_memory :: memory where
  "no_memory = \<lparr>blocks = []\<rparr>"

definition apart :: "ptr \<times> u64 \<Rightarrow> ptr \<times> u64 \<Rightarrow> bool" where
  "apart a b \<longleftrightarrow> fst a \<noteq> fst b \<and>
     (unat (fst a) + unat (snd a) \<le> unat (fst b) \<or> unat (fst b) + unat (snd b) \<le> unat (fst a))"

definition legal_block :: "u64 \<Rightarrow> ptr \<Rightarrow> u64 \<Rightarrow> memory \<Rightarrow> bool" where
  "legal_block align p n m \<longleftrightarrow> p \<noteq> 0 \<and> unat p mod unat align = 0 \<and>
     unat p + unat n \<le> 2 ^ 64 \<and> list_all (apart (p, n)) (blocks m)"

definition posix_memalign :: "heap_choice \<Rightarrow> u64 \<Rightarrow> u64 \<Rightarrow> memory \<Rightarrow> (ptr \<times> memory) option" where
  "posix_memalign pick align n m =
     (case pick (blocks m) n of
        None \<Rightarrow> None
      | Some p \<Rightarrow> if legal_block align p n m then Some (p, m\<lparr>blocks := (p, n) # blocks m\<rparr>) else None)"

definition heap_free :: "ptr \<Rightarrow> memory \<Rightarrow> memory run" where
  "heap_free p m =
     (if p = 0 then return m
      else if map_of (blocks m) p = None then fail BadFree
      else return (m\<lparr>blocks := AList.delete p (blocks m)\<rparr>))"

text \<open>The allocated blocks by address, and the state the C library keeps.\<close>

definition live :: "memory \<Rightarrow> ptr \<Rightarrow> u64 option" where
  "live m = map_of (blocks m)"

definition memory_ok :: "memory \<Rightarrow> bool" where
  "memory_ok m \<longleftrightarrow> distinct (map fst (blocks m)) \<and>
     (\<forall>a \<in> set (blocks m). fst a \<noteq> 0 \<and> unat (fst a) + unat (snd a) \<le> 2 ^ 64) \<and>
     (\<forall>a \<in> set (blocks m). \<forall>b \<in> set (blocks m). fst a \<noteq> fst b \<longrightarrow> apart a b)"

section \<open>CpuAllocator\<close>

definition cpu_alloc :: "heap_choice \<Rightarrow> u64 \<Rightarrow> memory \<Rightarrow> (ptr \<times> memory) run" where
  "cpu_alloc pick n m =
     (case posix_memalign pick 32 n m of
        Some (p, m') \<Rightarrow>
          bind (cc_check ''Check failed:ptr Fail to allocate CPU memory: size='' (p \<noteq> 0)) (\<lambda>_. return (p, m'))
      | None \<Rightarrow>
          bind (cc_check ''Check failed:(posix_memalign(&ptr, 32ul, size)) == (0) '' False) (\<lambda>_.
            fail Indeterminate))"   \<comment> \<open>\<open>ptr\<close> is read although nothing was stored in it\<close>

definition cpu_free :: "ptr \<Rightarrow> memory \<Rightarrow> memory run" where
  "cpu_free p m = (if p \<noteq> 0 then heap_free p m else return m)"

definition cpu_get_name :: string where
  "cpu_get_name = ''cpu_alloc''"

section \<open>The contract of the class Allocator\<close>

text \<open>Freeing a list of pointers, one after the other.\<close>

fun free_ptrs :: "(ptr \<Rightarrow> 'm \<Rightarrow> 'm run) \<Rightarrow> ptr list \<Rightarrow> 'm \<Rightarrow> 'm run" where
  "free_ptrs free [] m = return m"
| "free_ptrs free (p # ps) m = bind (free p m) (free_ptrs free ps)"

lemma free_ptrs_append: "free_ptrs free (ps @ qs) m = bind (free_ptrs free ps m) (free_ptrs free qs)"
proof (induction ps arbitrary: m)
  case (Cons p ps)
  have "free_ptrs free (ps @ qs) = (\<lambda>m. bind (free_ptrs free ps m) (free_ptrs free qs))"
    by (rule ext) (rule Cons.IH)
  then show ?case by (simp add: bind_assoc)
qed simp

text \<open>
  \<open>blocks_of m\<close> are the blocks handed out and not freed. \<open>alloc\<close> returns a fresh block of the size
  asked for or does not return; \<open>free\<close> of such a block succeeds and gives back that block only.
\<close>

locale raw_allocator =
  fixes alloc :: "u64 \<Rightarrow> 'm \<Rightarrow> (ptr \<times> 'm) run"
    and free :: "ptr \<Rightarrow> 'm \<Rightarrow> 'm run"
    and blocks_of :: "'m \<Rightarrow> ptr \<Rightarrow> u64 option"
    and ok :: "'m \<Rightarrow> bool"
  assumes alloc_block: "ok m \<Longrightarrow> snd (alloc n m) = Inr (p, m') \<Longrightarrow>
      ok m' \<and> p \<noteq> 0 \<and> blocks_of m p = None \<and> blocks_of m' = (blocks_of m)(p := Some n)"
    and free_block: "ok m \<Longrightarrow> blocks_of m p = Some n \<Longrightarrow>
      \<exists>m'. free p m = return m' \<and> ok m' \<and> blocks_of m' = (blocks_of m)(p := None)"
    and live_not_null: "ok m \<Longrightarrow> blocks_of m p = Some n \<Longrightarrow> p \<noteq> 0"
begin

text \<open>Freeing a list of distinct live blocks gives back exactly those.\<close>

lemma free_list:
  "ok m \<Longrightarrow> distinct ps \<Longrightarrow> (\<And>p. p \<in> set ps \<Longrightarrow> blocks_of m p \<noteq> None) \<Longrightarrow>
   \<exists>m'. free_ptrs free ps m = return m' \<and> ok m' \<and>
     blocks_of m' = (\<lambda>q. if q \<in> set ps then None else blocks_of m q)"
proof (induction ps arbitrary: m)
  case (Cons p ps)
  from Cons.prems(3) [of p] obtain n where "blocks_of m p = Some n" by auto
  from free_block [OF Cons.prems(1) this] obtain m1 where
    m1: "free p m = return m1" "ok m1" "blocks_of m1 = (blocks_of m)(p := None)" by blast
  have "\<exists>m'. free_ptrs free ps m1 = return m' \<and> ok m' \<and>
      blocks_of m' = (\<lambda>q. if q \<in> set ps then None else blocks_of m1 q)"
    using Cons.prems m1 by (intro Cons.IH) auto
  with m1 show ?case by (auto simp: fun_eq_iff)
qed (simp add: fun_eq_iff)

end

lemma legal_block_fresh: "legal_block al p n m \<Longrightarrow> map_of (blocks m) p = None"
  by (auto simp: legal_block_def list_all_iff apart_def map_of_eq_None_iff)

lemma apart_sym: "apart a b \<longleftrightarrow> apart b a"
  by (auto simp: apart_def)

lemma memory_okD:
  assumes "memory_ok m"
  shows "distinct (map fst (blocks m))"
    "\<And>a. a \<in> set (blocks m) \<Longrightarrow> fst a \<noteq> 0"
    "\<And>a. a \<in> set (blocks m) \<Longrightarrow> unat (fst a) + unat (snd a) \<le> 2 ^ 64"
    "\<And>a b. a \<in> set (blocks m) \<Longrightarrow> b \<in> set (blocks m) \<Longrightarrow> fst a \<noteq> fst b \<Longrightarrow> apart a b"
  using assms unfolding memory_ok_def by blast+

lemma live_nonnull: "memory_ok m \<Longrightarrow> live m p = Some n \<Longrightarrow> p \<noteq> 0"
  unfolding live_def by (drule map_of_SomeD, drule (1) memory_okD(2)) simp

lemma posix_memalign_ok:
  assumes "memory_ok m" "posix_memalign pick al n m = Some (p, m')"
  shows "memory_ok m' \<and> p \<noteq> 0 \<and> live m p = None \<and> live m' = (live m)(p := Some n)"
proof -
  from assms(2) have leg: "legal_block al p n m" and m': "m' = m\<lparr>blocks := (p, n) # blocks m\<rparr>"
    by (auto simp: posix_memalign_def split: option.splits if_splits)
  have "p \<notin> fst ` set (blocks m)" using legal_block_fresh [OF leg] by (simp add: map_of_eq_None_iff)
  moreover have "\<forall>b \<in> set (blocks m). apart (p, n) b \<and> apart b (p, n)"
    using leg by (simp add: legal_block_def list_all_iff apart_sym)
  ultimately have "memory_ok m'"
    using assms(1) leg unfolding memory_ok_def m' by (auto simp: legal_block_def)
  with leg m' legal_block_fresh [OF leg] show ?thesis
    by (auto simp: legal_block_def live_def)
qed

lemma heap_free_ok:
  assumes "memory_ok m" "live m p = Some n"
  shows "\<exists>m'. heap_free p m = return m' \<and> memory_ok m' \<and> live m' = (live m)(p := None)"
proof -
  let ?m = "m\<lparr>blocks := AList.delete p (blocks m)\<rparr>"
  have sub: "set (AList.delete p (blocks m)) \<subseteq> set (blocks m)" by (auto simp: AList.delete_eq)
  have "p \<noteq> 0" by (rule live_nonnull [OF assms])
  moreover have "memory_ok ?m"
    using memory_okD [OF assms(1)] sub unfolding memory_ok_def
    by (simp add: distinct_delete) (meson subsetD)
  ultimately show ?thesis using assms(2) by (simp add: heap_free_def live_def delete_conv')
qed

interpretation cpu: raw_allocator "cpu_alloc pick" cpu_free live memory_ok for pick
proof unfold_locales
  show "memory_ok m \<Longrightarrow> snd (cpu_alloc pick n m) = Inr (p, m') \<Longrightarrow>
      memory_ok m' \<and> p \<noteq> 0 \<and> live m p = None \<and> live m' = (live m)(p := Some n)" for m n p m'
    using posix_memalign_ok by (auto simp: cpu_alloc_def split: option.splits prod.splits)
next
  show "memory_ok m \<Longrightarrow> live m p = Some n \<Longrightarrow>
      \<exists>m'. cpu_free p m = return m' \<and> memory_ok m' \<and> live m' = (live m)(p := None)" for m p n
    using heap_free_ok [of m p n] by (auto simp: cpu_free_def heap_free_def split: if_splits)
qed (rule live_nonnull)

lemma memory_ok_new [simp, inv_intros]: "memory_ok no_memory"
  by (simp add: memory_ok_def no_memory_def)

lemma live_new [simp]: "live no_memory = (\<lambda>_. None)"
  by (simp add: live_def no_memory_def fun_eq_iff)

text \<open>Two live blocks share no byte.\<close>

lemma live_apart:
  "memory_ok m \<Longrightarrow> live m p = Some n \<Longrightarrow> live m q = Some k \<Longrightarrow> p \<noteq> q \<Longrightarrow> apart (p, n) (q, k)"
  unfolding live_def by (drule map_of_SomeD, drule map_of_SomeD, drule (2) memory_okD(4)) simp_all

end
