(* ===== verification/PoolAllocator.thy ===== *)
theory PoolAllocator
  imports Allocator NumParse
begin

text \<open>
  math/PoolAllocator.h and .cpp: the pool that keeps freed buffers by size. \<open>_allocator\<close> is a
  virtual object, so the operations take its \<open>alloc\<close> and \<open>free\<close> as arguments and thread its
  state; \<open>raw_allocator\<close> is its contract. The hash map \<open>_pool\<close> is an association list, its order
  the iteration order. The pool's mutex is not shown: an operation is one function. Both the
  limit and the byte counter are 64-bit words.
\<close>

record pool =
  free_lists :: "(u64 \<times> ptr list) list"
  size_limit :: u64
  pool_memory_size :: u64
  pool_name :: string

definition get_name :: "pool \<Rightarrow> string" where
  "get_name p = pool_name p"

definition new_pool :: "u64 \<Rightarrow> string \<Rightarrow> pool" where
  "new_pool limit name =
     \<lparr>free_lists = [], size_limit = limit, pool_memory_size = 0, pool_name = name\<rparr>"

fun free_all_loop :: "(ptr \<Rightarrow> 'm \<Rightarrow> 'm run) \<Rightarrow> (u64 \<times> ptr list) list \<Rightarrow> 'm \<Rightarrow> 'm run" where
  "free_all_loop free [] m = return m"
| "free_all_loop free (it # its) m = bind (free_ptrs free (snd it) m) (free_all_loop free its)"

definition pool_free_all :: "(ptr \<Rightarrow> 'm \<Rightarrow> 'm run) \<Rightarrow> pool \<times> 'm \<Rightarrow> (pool \<times> 'm) run" where
  "pool_free_all free s = (case s of (p, m) \<Rightarrow>
     bind (free_all_loop free (free_lists p) m) (\<lambda>m'.
       return (p\<lparr>pool_memory_size := 0, free_lists := []\<rparr>, m')))"

definition destroy_pool :: "(ptr \<Rightarrow> 'm \<Rightarrow> 'm run) \<Rightarrow> pool \<times> 'm \<Rightarrow> (pool \<times> 'm) run" where
  "destroy_pool free s = pool_free_all free s"

definition pool_alloc :: "(u64 \<Rightarrow> 'm \<Rightarrow> (ptr \<times> 'm) run) \<Rightarrow> (ptr \<Rightarrow> 'm \<Rightarrow> 'm run)
    \<Rightarrow> u64 \<Rightarrow> pool \<times> 'm \<Rightarrow> (ptr \<times> pool \<times> 'm) run" where
  "pool_alloc alloc free n s = (case s of (p, m) \<Rightarrow>
     if size_limit p > 0 then
       (let it = map_of (free_lists p) n in
        if it = None \<or> it = Some [] then
          bind (if pool_memory_size p \<ge> size_limit p then pool_free_all free (p, m) else return (p, m)) (\<lambda>(p, m).
          bind (alloc n m) (\<lambda>(q, m'). return (q, p, m')))
        else
          (let bufs = the it; buf = last bufs in
           return (buf, p\<lparr>free_lists := AList.update n (butlast bufs) (free_lists p),
                           pool_memory_size := n\<rparr>, m)))
     else bind (alloc n m) (\<lambda>(q, m'). return (q, p, m')))"

text \<open>\<open>_pool[size]\<close> makes an empty list where there was none.\<close>

definition pool_free :: "(ptr \<Rightarrow> 'm \<Rightarrow> 'm run) \<Rightarrow> ptr \<Rightarrow> u64 \<Rightarrow> pool \<times> 'm \<Rightarrow> (pool \<times> 'm) run" where
  "pool_free free q n s = (case s of (p, m) \<Rightarrow>
     if size_limit p > 0 then
       (let it = (case map_of (free_lists p) n of None \<Rightarrow> [] | Some bufs \<Rightarrow> bufs) in
        return (p\<lparr>free_lists := AList.update n (it @ [q]) (free_lists p),
                   pool_memory_size := pool_memory_size p + n\<rparr>, m))
     else bind (free q m) (\<lambda>m'. return (p, m')))"

text \<open>\<open>show_ptr\<close> is the stream's printing of a pointer.\<close>

fun print_ptrs :: "(ptr \<Rightarrow> string) \<Rightarrow> u64 \<Rightarrow> ptr list \<Rightarrow> u64 \<Rightarrow> u64 run" where
  "print_ptrs show_ptr n [] memory_size = return memory_size"
| "print_ptrs show_ptr n (p # ps) memory_size =
     bind (log_msg INFO (''  ptr:'' @ show_ptr p)) (\<lambda>_. print_ptrs show_ptr n ps (memory_size + n))"

fun print_lists :: "(ptr \<Rightarrow> string) \<Rightarrow> (u64 \<times> ptr list) list \<Rightarrow> u64 \<Rightarrow> u64 run" where
  "print_lists show_ptr [] memory_size = return memory_size"
| "print_lists show_ptr (it # its) memory_size =
     bind (log_msg INFO ('' size:'' @ show_nat (unat (fst it)))) (\<lambda>_.
     bind (print_ptrs show_ptr (fst it) (snd it) memory_size) (print_lists show_ptr its))"

definition print_all :: "(ptr \<Rightarrow> string) \<Rightarrow> pool \<Rightarrow> unit run" where
  "print_all show_ptr p =
     bind (log_msg INFO (pool_name p @ '':'')) (\<lambda>_.
     bind (print_lists show_ptr (free_lists p) 0) (\<lambda>memory_size.
       log_msg INFO (''memory size: '' @ show_nat (unat memory_size))))"

section \<open>What the pool holds\<close>

text \<open>The cached buffers with their sizes, and the bytes they take.\<close>

definition cached :: "pool \<Rightarrow> (ptr \<times> u64) list" where
  "cached p = concat (map (\<lambda>(n, bufs). map (\<lambda>q. (q, n)) bufs) (free_lists p))"

definition cached_bytes :: "pool \<Rightarrow> nat" where
  "cached_bytes p = (\<Sum>(q, n) \<leftarrow> cached p. unat n)"

lemma cached_simps [simp]:
  "cached (p\<lparr>pool_memory_size := c\<rparr>) = cached p"
  "cached (new_pool limit name) = []"
  "free_lists p = [] \<Longrightarrow> cached p = []"
  by (simp_all add: cached_def new_pool_def)

text \<open>The list of a size is a part of the cache: replacing it replaces that part.\<close>

lemma cached_split:
  assumes "distinct (map fst fl)"
  shows "mset (concat (map (\<lambda>(n, bufs). map (\<lambda>q. (q, n)) bufs) (AList.update n bufs fl))) +
      mset (map (\<lambda>q. (q, n)) (case map_of fl n of None \<Rightarrow> [] | Some old \<Rightarrow> old)) =
    mset (concat (map (\<lambda>(n, bufs). map (\<lambda>q. (q, n)) bufs) fl)) + mset (map (\<lambda>q. (q, n)) bufs)"
  using assms
proof (induction fl)
  case (Cons e fl)
  obtain k b where e: "e = (k, b)" by (cases e)
  show ?case
  proof (cases "k = n")
    case False
    with Cons e show ?thesis by simp
  qed (simp add: e)
qed simp

lemma cached_push:
  assumes "distinct (map fst (free_lists p))"
  shows "mset (cached (p\<lparr>free_lists := AList.update n
      ((case map_of (free_lists p) n of None \<Rightarrow> [] | Some bufs \<Rightarrow> bufs) @ [q]) (free_lists p)\<rparr>)) =
    add_mset (q, n) (mset (cached p))"
  using cached_split [OF assms, of n "(case map_of (free_lists p) n of None \<Rightarrow> [] | Some bufs \<Rightarrow> bufs) @ [q]"]
  by (simp add: cached_def)

lemma cached_pop:
  assumes "distinct (map fst (free_lists p))" "map_of (free_lists p) n = Some bufs" "bufs \<noteq> []"
  shows "mset (cached p) =
    add_mset (last bufs, n) (mset (cached (p\<lparr>free_lists := AList.update n (butlast bufs) (free_lists p)\<rparr>)))"
proof -
  have "mset (map (\<lambda>q. (q, n)) bufs) = add_mset (last bufs, n) (mset (map (\<lambda>q. (q, n)) (butlast bufs)))"
    using assms(3) by (cases bufs rule: rev_cases) simp_all
  with cached_split [OF assms(1), of n "butlast bufs"] assms(2) show ?thesis
    by (simp add: cached_def)
qed

lemma free_all_loop_ptrs:
  "free_all_loop free fl m = free_ptrs free (map fst (concat (map (\<lambda>(n, bufs). map (\<lambda>q. (q, n)) bufs) fl))) m"
proof (induction fl arbitrary: m)
  case (Cons e fl)
  obtain k b where e: "e = (k, b)" by (cases e)
  have "free_all_loop free fl = free_ptrs free (map fst (concat (map (\<lambda>(n, bufs). map (\<lambda>q. (q, n)) bufs) fl)))"
    by (rule ext) (rule Cons.IH)
  with e show ?case by (simp add: free_ptrs_append comp_def)
qed simp

lemma mset_keys:
  assumes "mset xs = mset ys"
  shows "distinct (map fst xs) = distinct (map fst ys)" "fst ` set xs = fst ` set ys"
    "distinct (map fst xs) \<Longrightarrow> map_of xs = map_of ys"
proof -
  show d: "distinct (map fst xs) = distinct (map fst ys)"
    using assms by (metis mset_map mset_eq_imp_distinct_iff)
  have "set xs = set ys" using assms by (rule mset_eq_setD)
  then show "fst ` set xs = fst ` set ys" by simp
  show "distinct (map fst xs) \<Longrightarrow> map_of xs = map_of ys"
    using d \<open>set xs = set ys\<close> by (simp add: map_of_inject_set)
qed

section \<open>The contract of an allocator that is told the size on free\<close>

text \<open>
  \<open>out\<close> are the buffers the client holds, with their sizes. \<open>alloc\<close> hands out a buffer the client
  does not hold; \<open>free\<close> of a buffer the client holds, with its size, succeeds.
\<close>

locale sized_allocator =
  fixes palloc :: "u64 \<Rightarrow> 's \<Rightarrow> (ptr \<times> 's) run"
    and pfree :: "ptr \<Rightarrow> u64 \<Rightarrow> 's \<Rightarrow> 's run"
    and inv :: "(ptr \<Rightarrow> u64 option) \<Rightarrow> 's \<Rightarrow> bool"
  assumes palloc_inv: "inv out s \<Longrightarrow> snd (palloc n s) = Inr (q, s') \<Longrightarrow>
      q \<noteq> 0 \<and> out q = None \<and> inv (out(q := Some n)) s'"
    and pfree_inv: "inv out s \<Longrightarrow> out q = Some n \<Longrightarrow>
      \<exists>s'. pfree q n s = return s' \<and> inv (out(q := None)) s'"

definition pool_inv :: "('m \<Rightarrow> ptr \<Rightarrow> u64 option) \<Rightarrow> ('m \<Rightarrow> bool) \<Rightarrow> (ptr \<Rightarrow> u64 option) \<Rightarrow> pool \<times> 'm \<Rightarrow> bool" where
  "pool_inv blocks_of ok out s \<longleftrightarrow> (case s of (p, m) \<Rightarrow>
     ok m \<and> distinct (map fst (free_lists p)) \<and> (size_limit p = 0 \<longrightarrow> cached p = []) \<and>
     distinct (map fst (cached p)) \<and> fst ` set (cached p) \<inter> dom out = {} \<and>
     blocks_of m = map_of (cached p) ++ out)"

lemma pool_invI:
  assumes "ok m" "distinct (map fst (free_lists p))" "size_limit p = 0 \<Longrightarrow> cached p = []"
    "distinct (map fst (cached p))" "\<And>q. q \<in> fst ` set (cached p) \<Longrightarrow> out q = None"
    "blocks_of m = map_of (cached p) ++ out"
  shows "pool_inv blocks_of ok out (p, m)"
proof -
  have "fst ` set (cached p) \<inter> dom out = {}" using assms(5) by (meson disjoint_iff domIff)
  with assms show ?thesis by (simp add: pool_inv_def)
qed

lemma pool_invD:
  assumes "pool_inv blocks_of ok out (p, m)"
  shows "ok m" "distinct (map fst (free_lists p))" "size_limit p = 0 \<Longrightarrow> cached p = []"
    "distinct (map fst (cached p))" "\<And>q. q \<in> fst ` set (cached p) \<Longrightarrow> out q = None"
    "blocks_of m = map_of (cached p) ++ out"
  using assms unfolding pool_inv_def by (blast | auto)+

context raw_allocator
begin

lemma pool_free_all_ok:
  assumes "pool_inv blocks_of ok out (p, m)"
  obtains m' where "pool_free_all free (p, m) = return (p\<lparr>pool_memory_size := 0, free_lists := []\<rparr>, m')"
    "ok m'" "blocks_of m' = out"
proof -
  note d = pool_invD [OF assms]
  have "blocks_of m q \<noteq> None" if "q \<in> set (map fst (cached p))" for q
    using that d(4,6) map_of_eq_None_iff [of "cached p" q] by (auto simp: map_add_def split: option.split)
  from free_list [OF d(1,4) this] obtain m' where
    "free_ptrs free (map fst (cached p)) m = return m'" "ok m'"
    "blocks_of m' = (\<lambda>q. if q \<in> set (map fst (cached p)) then None else blocks_of m q)" by blast
  moreover have "(\<lambda>q. if q \<in> set (map fst (cached p)) then None else blocks_of m q) = out"
  proof
    fix q show "(if q \<in> set (map fst (cached p)) then None else blocks_of m q) = out q"
      using d(5) [of q] d(6) map_of_eq_None_iff [of "cached p" q]
      by (auto simp: map_add_def split: option.split)
  qed
  ultimately show ?thesis
    by (intro that [of m']) (simp_all add: pool_free_all_def free_all_loop_ptrs cached_def)
qed

lemma raw_alloc_inv:
  assumes "pool_inv blocks_of ok out (p, m)" "snd (alloc n m) = Inr (q, m')"
  shows "q \<noteq> 0 \<and> out q = None \<and> pool_inv blocks_of ok (out(q := Some n)) (p, m')"
proof -
  note d = pool_invD [OF assms(1)]
  from alloc_block [OF d(1) assms(2)] have a: "ok m'" "q \<noteq> 0" "blocks_of m q = None" "blocks_of m' = (blocks_of m)(q := Some n)"
    by simp_all
  from a(3) d(6) have new: "out q = None" "map_of (cached p) q = None"
    by (auto simp: map_add_def split: option.splits)
  have "pool_inv blocks_of ok (out(q := Some n)) (p, m')"
  proof (rule pool_invI)
    show "blocks_of m' = map_of (cached p) ++ out(q \<mapsto> n)" using a(4) d(6) by simp
    show "(out(q := Some n)) r = None" if "r \<in> fst ` set (cached p)" for r
      using d(5) [OF that] that new(2) by (auto simp: map_of_eq_None_iff)
  qed (use a d in simp_all)
  with a new show ?thesis by simp
qed

lemma pool_pop_inv:
  assumes "pool_inv blocks_of ok out (p, m)" "map_of (free_lists p) n = Some bufs" "bufs \<noteq> []"
    "size_limit p \<noteq> 0"
  shows "last bufs \<noteq> 0 \<and> out (last bufs) = None \<and> pool_inv blocks_of ok (out(last bufs := Some n))
    (p\<lparr>free_lists := AList.update n (butlast bufs) (free_lists p), pool_memory_size := c\<rparr>, m)"
    (is "_ \<and> _ \<and> pool_inv blocks_of ok ?out (?p, m)")
proof -
  note d = pool_invD [OF assms(1)]
  let ?q = "last bufs"
  have "cached ?p = cached (p\<lparr>free_lists := AList.update n (butlast bufs) (free_lists p)\<rparr>)"
    by (simp add: cached_def)
  then have m: "mset (cached p) = mset ((?q, n) # cached ?p)"
    using cached_pop [OF d(2) assms(2,3)] by simp
  note k = mset_keys [OF m]
  have keys: "?q \<notin> fst ` set (cached ?p)" "distinct (map fst (cached ?p))"
    "map_of (cached p) = (map_of (cached ?p))(?q := Some n)"
    using k(1,3) d(4) by simp_all
  have "blocks_of m ?q = Some n" using d(5) [of ?q] k(2) d(6) keys(3) by (simp add: map_add_def)
  moreover have out: "out ?q = None" using d(5) [of ?q] k(2) by simp
  moreover have "pool_inv blocks_of ok ?out (?p, m)"
  proof (rule pool_invI)
    show "ok m" by (rule d(1))
    show "distinct (map fst (free_lists ?p))" using d(2) by (simp add: distinct_update)
    show "size_limit ?p = 0 \<Longrightarrow> cached ?p = []" using assms(4) by simp
    show "distinct (map fst (cached ?p))" by (rule keys(2))
    show "?out r = None" if "r \<in> fst ` set (cached ?p)" for r
      using d(5) [of r] k(2) keys(1) that by (simp, metis)
    have "map_of (cached ?p) ?q = None" using keys(1) by (simp add: map_of_eq_None_iff)
    then show "blocks_of m = map_of (cached ?p) ++ ?out"
      unfolding d(6) keys(3) using out by (auto simp: fun_eq_iff map_add_def split: option.split)
  qed
  ultimately show ?thesis using d(1) free_block alloc_block live_not_null by blast
qed

lemma pool_alloc_inv:
  assumes "pool_inv blocks_of ok out s" "snd (pool_alloc alloc free n s) = Inr (q, s')"
  shows "q \<noteq> 0 \<and> out q = None \<and> pool_inv blocks_of ok (out(q := Some n)) s'"
proof -
  obtain p m where s: "s = (p, m)" by (cases s)
  have direct: "q \<noteq> 0 \<and> out q = None \<and> pool_inv blocks_of ok (out(q := Some n)) s'"
    if "pool_inv blocks_of ok out (p0, m0)"
      "snd (bind (alloc n m0) (\<lambda>(q, m'). return (q, p0, m'))) = Inr (q, s')" for p0 m0
    using that(2) raw_alloc_inv [OF that(1)] by (elim snd_bind_InrE) auto
  show ?thesis
  proof (cases "size_limit p > 0 \<and> map_of (free_lists p) n \<noteq> None \<and> map_of (free_lists p) n \<noteq> Some []")
    case True
    then obtain bufs where b: "map_of (free_lists p) n = Some bufs" "bufs \<noteq> []" "size_limit p \<noteq> 0" by auto
    with True assms(2) s pool_pop_inv [OF assms(1) [unfolded s] b, of n] show ?thesis
      by (auto simp: pool_alloc_def Let_def)
  next
    case False
    show ?thesis
    proof (cases "size_limit p > 0 \<and> pool_memory_size p \<ge> size_limit p")
      case True
      obtain m1 where m1: "pool_free_all free (p, m) = return (p\<lparr>pool_memory_size := 0, free_lists := []\<rparr>, m1)"
        "ok m1" "blocks_of m1 = out" by (rule pool_free_all_ok [OF assms(1) [unfolded s]])
      have "pool_inv blocks_of ok out (p\<lparr>pool_memory_size := 0, free_lists := []\<rparr>, m1)"
        using m1 by (intro pool_invI) simp_all
      with direct True False assms(2) s m1(1) show ?thesis by (auto simp: pool_alloc_def Let_def)
    next
      case False2: False
      with direct [OF assms(1) [unfolded s]] False assms(2) s show ?thesis
        by (auto simp: pool_alloc_def Let_def split: if_splits)
    qed
  qed
qed

lemma pool_free_inv:
  assumes "pool_inv blocks_of ok out s" "out q = Some n"
  shows "\<exists>s'. pool_free free q n s = return s' \<and> pool_inv blocks_of ok (out(q := None)) s'"
proof -
  obtain p m where s: "s = (p, m)" by (cases s)
  note d = pool_invD [OF assms(1) [unfolded s]]
  have q: "q \<notin> fst ` set (cached p)" using d(5) [of q] assms(2) by auto
  show ?thesis
  proof (cases "size_limit p = 0")
    case True
    have "blocks_of m q = Some n" using assms(2) d(6) by (simp add: map_add_def)
    from free_block [OF d(1) this] obtain m' where
      m': "free q m = return m'" "ok m'" "blocks_of m' = (blocks_of m)(q := None)" by blast
    have "pool_inv blocks_of ok (out(q := None)) (p, m')"
      using m' d True by (intro pool_invI) simp_all
    with s m' True show ?thesis by (simp add: pool_free_def)
  next
    case False
    let ?it = "(case map_of (free_lists p) n of None \<Rightarrow> [] | Some bufs \<Rightarrow> bufs)"
    let ?p = "p\<lparr>free_lists := AList.update n (?it @ [q]) (free_lists p), pool_memory_size := pool_memory_size p + n\<rparr>"
    have "cached ?p = cached (p\<lparr>free_lists := AList.update n (?it @ [q]) (free_lists p)\<rparr>)"
      by (simp add: cached_def)
    then have m: "mset (cached ?p) = mset ((q, n) # cached p)"
      using cached_push [OF d(2), of n q] by simp
    note k = mset_keys [OF m]
    have dist: "distinct (map fst (cached ?p))" using k(1) q d(4) by simp
    have new: "map_of (cached p) q = None" using q by (simp add: map_of_eq_None_iff)
    have "pool_inv blocks_of ok (out(q := None)) (?p, m)"
    proof (rule pool_invI)
      show "ok m" by (rule d(1))
      show "distinct (map fst (free_lists ?p))" using d(2) by (simp add: distinct_update)
      show "size_limit ?p = 0 \<Longrightarrow> cached ?p = []" using False by simp
      show "distinct (map fst (cached ?p))" by (rule dist)
      show "(out(q := None)) r = None" if "r \<in> fst ` set (cached ?p)" for r
        using that d(5) [of r] k(2) by auto
      show "blocks_of m = map_of (cached ?p) ++ out(q := None)"
        unfolding d(6) k(3) [OF dist] using assms(2) new
        by (auto simp: fun_eq_iff map_add_def split: option.split)
    qed
    with s False show ?thesis by (simp add: pool_free_def Let_def word_gt_0)
  qed
qed

end

text \<open>So a pool over any allocator is itself an allocator that is told the size.\<close>

sublocale raw_allocator \<subseteq> pooled: sized_allocator "pool_alloc alloc free" "pool_free free"
  "pool_inv blocks_of ok"
  using pool_alloc_inv pool_free_inv by unfold_locales

interpretation cpu_pool: sized_allocator "pool_alloc (cpu_alloc pick) cpu_free" "pool_free cpu_free"
  "pool_inv live memory_ok" for pick
  by (rule cpu.pooled.sized_allocator_axioms)

section \<open>The limit and the byte counter\<close>

lemma pool_alloc_hit:
  assumes "map_of (free_lists p) n = Some bufs" "bufs \<noteq> []" "size_limit p > 0"
  shows "pool_alloc alloc free n (p, m) = return (last bufs,
    p\<lparr>free_lists := AList.update n (butlast bufs) (free_lists p), pool_memory_size := n\<rparr>, m)"
  using assms by (simp add: pool_alloc_def Let_def)

lemma cached_bytes_mset:
  "mset (cached p) = add_mset (q, n) (mset (cached p')) \<Longrightarrow> cached_bytes p = unat n + cached_bytes p'"
  unfolding cached_bytes_def by (simp only: sum_mset_sum_list [symmetric] mset_map) simp

text \<open>When the byte counter has reached the limit, an \<open>alloc\<close> that finds no cached buffer of
  the size first gives back every cached buffer, so the heap then holds the client's buffers and
  the new one, nothing else, and the counter starts again at zero.\<close>

theorem pool_flushes_at_limit:
  assumes "pool_inv live memory_ok out (p, m)" "size_limit p > 0" "pool_memory_size p \<ge> size_limit p"
    "map_of (free_lists p) n = None \<or> map_of (free_lists p) n = Some []"
    "snd (pool_alloc (cpu_alloc pick) cpu_free n (p, m)) = Inr (q, p', m')"
  shows "live m' = out(q := Some n) \<and> cached p' = [] \<and> pool_memory_size p' = 0"
proof -
  obtain m1 where m1: "pool_free_all cpu_free (p, m) = return (p\<lparr>pool_memory_size := 0, free_lists := []\<rparr>, m1)"
    "memory_ok m1" "live m1 = out" by (rule cpu.pool_free_all_ok [OF assms(1)])
  with assms have "snd (cpu_alloc pick n m1) = Inr (q, m')" "p' = p\<lparr>pool_memory_size := 0, free_lists := []\<rparr>"
    by (auto simp: pool_alloc_def Let_def elim!: snd_bind_InrE)
  with cpu.alloc_block [OF m1(2) this(1)] m1(3) show ?thesis by simp
qed

lemma pool_flushes_at_limit_witness:
  "live \<lparr>blocks = [(64, 256)]\<rparr> = [64 \<mapsto> 256] \<and>
   cached \<lparr>free_lists = [], size_limit = 512, pool_memory_size = 0, pool_name = ''p''\<rparr> = []"
proof -
  let ?p = "\<lparr>free_lists = [(512, [4096])], size_limit = 512, pool_memory_size = 512, pool_name = ''p''\<rparr>"
  let ?m = "\<lparr>blocks = [(4096, 512)]\<rparr>"
  have 1: "pool_inv live memory_ok (\<lambda>_. None) (?p, ?m)"
    by (simp add: pool_inv_def cached_def live_def memory_ok_def)
  have 2: "snd (pool_alloc (cpu_alloc (\<lambda>_ _. Some 64)) cpu_free 256 (?p, ?m)) =
      Inr (64, ?p\<lparr>pool_memory_size := 0, free_lists := []\<rparr>, \<lparr>blocks = [(64, 256)]\<rparr>)"
    by (simp add: pool_alloc_def pool_free_all_def cpu_free_def heap_free_def cpu_alloc_def
        posix_memalign_def legal_block_def)
  from pool_flushes_at_limit [OF 1 _ _ _ 2] show ?thesis by simp
qed

text \<open>Reusing a cached buffer sets the byte counter to that buffer's size instead of taking it
  off (\<open>_pool_memory_size = size\<close>): however much the pool still caches, the next miss of another
  size goes straight to the allocator without flushing, because the counter is below the
  limit.\<close>

theorem pool_hit_hides_cache:
  assumes "pool_inv live memory_ok out (p, m)" "map_of (free_lists p) n = Some bufs" "bufs \<noteq> []"
    "n < size_limit p" "map_of (free_lists p) k = None"
  shows "\<exists>p'. pool_alloc alloc free n (p, m) = return (last bufs, p', m) \<and>
    pool_memory_size p' = n \<and> cached_bytes p = unat n + cached_bytes p' \<and>
    pool_alloc alloc free k (p', m) = bind (alloc k m) (\<lambda>(q, m'). return (q, p', m'))"
proof -
  let ?p = "p\<lparr>free_lists := AList.update n (butlast bufs) (free_lists p), pool_memory_size := n\<rparr>"
  have pos: "size_limit p > 0" using assms(4) by (metis word_gt_0 word_not_simps(1))
  have "cached ?p = cached (p\<lparr>free_lists := AList.update n (butlast bufs) (free_lists p)\<rparr>)"
    by (simp add: cached_def)
  with cached_pop [OF pool_invD(2) [OF assms(1)] assms(2,3)]
  have "cached_bytes p = unat n + cached_bytes ?p" by (intro cached_bytes_mset) simp
  moreover have "map_of (free_lists ?p) k = None" using assms(2,5) by (auto simp: update_conv')
  then have "pool_alloc alloc free k (?p, m) = bind (alloc k m) (\<lambda>(q, m'). return (q, ?p, m'))"
    using assms(4) leD [of "size_limit p" n] by (auto simp: pool_alloc_def Let_def)
  ultimately show ?thesis using pool_alloc_hit [OF assms(2,3) pos] by (intro exI [of _ ?p]) simp
qed

text \<open>Five buffers of 512 bytes are cached under a limit of 1024; after one is reused, 2048 bytes
  remain, the counter says 512, and the next miss flushes nothing.\<close>

theorem pool_hit_hides_cache_witness:
  "\<exists>p p' m. cached_bytes p = 2560 \<and> size_limit p = 1024 \<and>
    pool_alloc (cpu_alloc (\<lambda>_ _. None)) cpu_free 512 (p, m) = return (1024, p', m) \<and>
    pool_memory_size p' = 512 \<and> cached_bytes p' = 2048"
proof -
  let ?p = "\<lparr>free_lists = [(512, [5120, 4096, 3072, 2048, 1024])], size_limit = 1024,
    pool_memory_size = 2560, pool_name = ''p''\<rparr>"
  let ?m = "\<lparr>blocks = [(5120, 512), (4096, 512), (3072, 512), (2048, 512), (1024, 512)]\<rparr>"
  have "pool_inv live memory_ok (\<lambda>_. None) (?p, ?m)"
    by (simp add: pool_inv_def cached_def live_def memory_ok_def apart_def)
  from pool_hit_hides_cache [OF this, of 512 "[5120, 4096, 3072, 2048, 1024]" 256 "cpu_alloc (\<lambda>_ _. None)" cpu_free]
  obtain p' where "pool_alloc (cpu_alloc (\<lambda>_ _. None)) cpu_free 512 (?p, ?m) = return (1024, p', ?m)"
    "pool_memory_size p' = 512" "cached_bytes ?p = 512 + cached_bytes p'" by auto
  moreover have "cached_bytes ?p = 2560" by (simp add: cached_bytes_def cached_def)
  ultimately show ?thesis by (intro exI [of _ ?p] exI [of _ p'] exI [of _ ?m]) auto
qed

section \<open>print_all\<close>

lemma print_ptrs_ok:
  "\<exists>l. print_ptrs show_ptr n ps c = (l, Inr (c + of_nat (length ps) * n)) \<and> length l = length ps"
proof (induction ps arbitrary: c)
  case (Cons p ps)
  from Cons.IH [of "c + n"] obtain l where
    "print_ptrs show_ptr n ps (c + n) = (l, Inr (c + n + of_nat (length ps) * n))" "length l = length ps" by blast
  then show ?case by (simp add: log_msg_def bind_def algebra_simps)
qed (simp add: return_def)

lemma print_lists_ok:
  "\<exists>l. print_lists show_ptr its c = (l, Inr (c + (\<Sum>(n, bufs) \<leftarrow> its. of_nat (length bufs) * n))) \<and>
    length l = length its + length (concat (map snd its))"
proof (induction its arbitrary: c)
  case (Cons e its)
  obtain n bufs where e: "e = (n, bufs)" by (cases e)
  obtain l1 where l1: "print_ptrs show_ptr n bufs c = (l1, Inr (c + of_nat (length bufs) * n))"
    "length l1 = length bufs" using print_ptrs_ok by blast
  obtain l2 where "print_lists show_ptr its (c + of_nat (length bufs) * n) =
      (l2, Inr (c + of_nat (length bufs) * n + (\<Sum>(n, bufs) \<leftarrow> its. of_nat (length bufs) * n)))"
    "length l2 = length its + length (concat (map snd its))" using Cons.IH by blast
  with l1 e show ?case by (simp add: log_msg_def bind_def algebra_simps)
qed (simp add: return_def)

lemma cached_bytes_lists:
  "of_nat (cached_bytes p) = (\<Sum>(n, bufs) \<leftarrow> free_lists p. of_nat (length bufs) * (n :: u64))"
proof -
  have "of_nat (\<Sum>(q, n) \<leftarrow> concat (map (\<lambda>(n, bufs). map (\<lambda>q. (q, n)) bufs) fl). unat (n :: u64)) =
      (\<Sum>(n, bufs) \<leftarrow> fl. of_nat (length bufs) * n)" for fl :: "(u64 \<times> ptr list) list"
  proof (induction fl)
    case (Cons e fl)
    obtain n bufs where "e = (n, bufs)" by (cases e)
    moreover have "of_nat (\<Sum>(q :: ptr, n) \<leftarrow> map (\<lambda>q. (q, n)) bufs. unat n) = of_nat (length bufs) * n"
      by (induction bufs) (simp_all add: algebra_simps)
    ultimately show ?case using Cons by simp
  qed simp
  then show ?thesis by (simp add: cached_bytes_def cached_def)
qed

text \<open>\<open>print_all\<close> logs the pool's name, one line per size and per cached buffer, and last the
  number of bytes really cached (whatever the byte counter says), modulo the width of
  \<open>size_t\<close>.\<close>

theorem print_all_reports_cached_bytes:
  "\<exists>l. print_all show_ptr p = (LogRecord INFO (pool_name p @ '':'') # l @
      [LogRecord INFO (''memory size: '' @ show_nat (cached_bytes p mod 2 ^ 64))], Inr ()) \<and>
    length l = length (free_lists p) + length (cached p)"
proof -
  obtain l where l: "print_lists show_ptr (free_lists p) 0 = (l, Inr (of_nat (cached_bytes p)))"
    "length l = length (free_lists p) + length (concat (map snd (free_lists p)))"
    using print_lists_ok [of show_ptr "free_lists p" 0] by (auto simp: cached_bytes_lists)
  moreover have "length (concat (map snd fl)) = length (concat (map (\<lambda>(n, bufs). map (\<lambda>q. (q, n)) bufs) fl))"
    for fl :: "(u64 \<times> ptr list) list" by (induction fl) auto
  moreover have "unat (of_nat (cached_bytes p) :: u64) = cached_bytes p mod 2 ^ 64"
    by (simp add: unat_of_nat take_bit_eq_mod)
  ultimately show ?thesis by (intro exI [of _ l]) (simp add: print_all_def log_msg_def bind_def cached_def)
qed

end
