(* ===== verification/Storage.thy ===== *)
theory Storage
  imports Locks PoolAllocator
begin

text \<open>
  math/Storage.h and .cpp: the storage engine, whose pool allocator is created by the first
  thread that asks for it. \<open>get_cpu_allocator\<close> checks under the shared lock and, when it found
  nothing, again under the exclusive one. A thread's call is a sequence of moves, one per lock
  operation, check and creation, and the threads interleave; the pool objects made with \<open>new\<close>
  are the list \<open>pools\<close>, a pointer to one is its index. The constructor of the engine is run
  before any thread (\<open>static\<close> local, forced by an initialisation function).
\<close>

datatype call_point =
    Start                \<comment> \<open>before the shared lock\<close>
  | Reading              \<comment> \<open>shared lock held, before the check\<close>
  | Found nat            \<comment> \<open>returning the pointer, shared lock still held\<close>
  | NotFound             \<comment> \<open>leaving the first block, shared lock still held\<close>
  | Retry                \<comment> \<open>before the exclusive lock\<close>
  | Checking             \<comment> \<open>exclusive lock held, before the second check\<close>
  | Creating             \<comment> \<open>exclusive lock held, the second check found null\<close>
  | Leaving              \<comment> \<open>exclusive lock held, before \<open>return\<close> reads the field\<close>
  | Got nat              \<comment> \<open>the call has returned this pointer\<close>

record engine =
  engine_lock :: rwlock
  cpu_allocator :: "nat option"
  pools :: "pool list"
  point :: "nat \<Rightarrow> call_point"

definition new_engine :: engine where
  "new_engine = \<lparr>engine_lock = rw_init, cpu_allocator = None, pools = [], point = (\<lambda>_. Start)\<rparr>"

text \<open>The flag is a 32-bit \<open>int\<close>, the limit a \<open>size_t\<close>: the conversion sign-extends.\<close>

definition FLAGS_pool_limit_size_default :: "32 word" where
  "FLAGS_pool_limit_size_default = 536870912"

definition pool_of_flag :: "32 word \<Rightarrow> pool" where
  "pool_of_flag flag = new_pool (scast flag) ''cpu_pool''"

text \<open>The next move of thread \<open>t\<close>; \<open>None\<close> when it is blocked or has returned.\<close>

definition engine_move :: "32 word \<Rightarrow> nat \<Rightarrow> engine \<Rightarrow> engine option" where
  "engine_move flag t s = (case point s t of
      Start \<Rightarrow> (case ReadLockGuard t (engine_lock s) of
          None \<Rightarrow> None
        | Some l \<Rightarrow> Some (s\<lparr>engine_lock := l, point := (point s)(t := Reading)\<rparr>))
    | Reading \<Rightarrow> Some (s\<lparr>point := (point s)(t :=
          (case cpu_allocator s of None \<Rightarrow> NotFound | Some p \<Rightarrow> Found p))\<rparr>)
    | Found p \<Rightarrow> Some (s\<lparr>engine_lock := destroy_ReadLockGuard t (engine_lock s), point := (point s)(t := Got p)\<rparr>)
    | NotFound \<Rightarrow> Some (s\<lparr>engine_lock := destroy_ReadLockGuard t (engine_lock s), point := (point s)(t := Retry)\<rparr>)
    | Retry \<Rightarrow> (case lock t (engine_lock s) of
          None \<Rightarrow> None
        | Some l \<Rightarrow> Some (s\<lparr>engine_lock := l, point := (point s)(t := Checking)\<rparr>))
    | Checking \<Rightarrow> Some (s\<lparr>point := (point s)(t :=
          (if cpu_allocator s = None then Creating else Leaving))\<rparr>)
    | Creating \<Rightarrow> Some (s\<lparr>pools := pools s @ [pool_of_flag flag], cpu_allocator := Some (length (pools s)),
          point := (point s)(t := Leaving)\<rparr>)
    | Leaving \<Rightarrow> (case cpu_allocator s of
          None \<Rightarrow> None
        | Some p \<Rightarrow> Some (s\<lparr>engine_lock := unlock t (engine_lock s), point := (point s)(t := Got p)\<rparr>))
    | Got p \<Rightarrow> None)"

text \<open>\<open>engine_runs n k s\<close>: threads \<open>0, \<dots>, n - 1\<close> have made \<open>k\<close> moves in some order, reaching \<open>s\<close>.\<close>

inductive engine_runs :: "32 word \<Rightarrow> nat \<Rightarrow> nat \<Rightarrow> engine \<Rightarrow> bool" for flag n where
  begin_run: "engine_runs flag n 0 new_engine"
| move_run: "engine_runs flag n k s \<Longrightarrow> t < n \<Longrightarrow> engine_move flag t s = Some s' \<Longrightarrow> engine_runs flag n (Suc k) s'"

section \<open>The invariant\<close>

fun reads :: "call_point \<Rightarrow> bool" where
  "reads Reading = True" | "reads (Found p) = True" | "reads NotFound = True" | "reads _ = False"

fun writes :: "call_point \<Rightarrow> bool" where
  "writes Checking = True" | "writes Creating = True" | "writes Leaving = True" | "writes _ = False"

fun point_ok :: "nat option \<Rightarrow> call_point \<Rightarrow> bool" where
  "point_ok a (Found p) \<longleftrightarrow> a = Some p"
| "point_ok a (Got p) \<longleftrightarrow> a = Some p"
| "point_ok a Creating \<longleftrightarrow> a = None"
| "point_ok a Leaving \<longleftrightarrow> a \<noteq> None"
| "point_ok a _ \<longleftrightarrow> True"

definition engine_inv :: "32 word \<Rightarrow> engine \<Rightarrow> bool" where
  "engine_inv flag s \<longleftrightarrow> rw_ok (engine_lock s) \<and>
     (\<forall>t. writer (engine_lock s) = Some t \<longleftrightarrow> writes (point s t)) \<and>
     distinct (readers (engine_lock s)) \<and> (\<forall>t. t \<in> set (readers (engine_lock s)) \<longleftrightarrow> reads (point s t)) \<and>
     (\<forall>t. point_ok (cpu_allocator s) (point s t)) \<and>
     (case cpu_allocator s of None \<Rightarrow> pools s = [] | Some p \<Rightarrow> p = 0 \<and> pools s = [pool_of_flag flag])"

lemma engine_invD:
  assumes "engine_inv flag s"
  shows "rw_ok (engine_lock s)" "\<And>t. writer (engine_lock s) = Some t \<longleftrightarrow> writes (point s t)"
    "distinct (readers (engine_lock s))" "\<And>t. t \<in> set (readers (engine_lock s)) \<longleftrightarrow> reads (point s t)"
    "\<And>t. point_ok (cpu_allocator s) (point s t)"
    "cpu_allocator s = None \<Longrightarrow> pools s = []" "\<And>p. cpu_allocator s = Some p \<Longrightarrow> p = 0 \<and> pools s = [pool_of_flag flag]"
  using assms by (simp_all add: engine_inv_def split: option.splits)

lemma engine_invI:
  assumes "rw_ok (engine_lock s)" "\<And>t. writer (engine_lock s) = Some t \<longleftrightarrow> writes (point s t)"
    "distinct (readers (engine_lock s))" "\<And>t. t \<in> set (readers (engine_lock s)) \<longleftrightarrow> reads (point s t)"
    "\<And>t. point_ok (cpu_allocator s) (point s t)"
    "cpu_allocator s = None \<Longrightarrow> pools s = []" "\<And>p. cpu_allocator s = Some p \<Longrightarrow> p = 0 \<and> pools s = [pool_of_flag flag]"
  shows "engine_inv flag s"
  using assms by (simp add: engine_inv_def split: option.split)

lemma engine_inv_new: "engine_inv flag new_engine"
  by (simp add: engine_inv_def new_engine_def rw_init_def rw_ok_def)

text \<open>A move that leaves the lock alone, between two points with the same holds.\<close>

lemma engine_inv_point:
  assumes "engine_inv flag s" "reads c = reads (point s t)" "writes c = writes (point s t)"
    "point_ok (cpu_allocator s) c"
  shows "engine_inv flag (s\<lparr>point := (point s)(t := c)\<rparr>)"
  by (rule engine_invI) (use engine_invD [OF assms(1)] assms(2-4) in auto)

lemma engine_inv_acquire_shared:
  assumes "engine_inv flag s" "lock_shared t (engine_lock s) = Some l" "point s t = Start"
  shows "engine_inv flag (s\<lparr>engine_lock := l, point := (point s)(t := Reading)\<rparr>)"
proof -
  note d = engine_invD [OF assms(1)]
  from assms(2) have l: "writer l = None" "readers l = t # readers (engine_lock s)" "writer (engine_lock s) = None"
    by (auto simp: lock_shared_def split: if_splits)
  have nw: "\<not> writes (point s u)" for u using d(2) l(3) by (metis option.distinct(1))
  show ?thesis
  proof (rule engine_invI)
    show "rw_ok (engine_lock (s\<lparr>engine_lock := l, point := (point s)(t := Reading)\<rparr>))"
      using rw.acq_r [OF d(1) assms(2)] by simp
  qed (use d l nw assms(3) in \<open>auto simp: fun_upd_def\<close>)
qed

lemma engine_inv_acquire:
  assumes "engine_inv flag s" "lock t (engine_lock s) = Some l" "point s t = Retry"
  shows "engine_inv flag (s\<lparr>engine_lock := l, point := (point s)(t := Checking)\<rparr>)"
proof -
  note d = engine_invD [OF assms(1)]
  from assms(2) have l: "writer l = Some t" "readers l = []" "writer (engine_lock s) = None" "readers (engine_lock s) = []"
    by (auto simp: lock_def split: if_splits)
  have nw: "\<not> writes (point s u)" "\<not> reads (point s u)" for u
    using d(2,4) l(3,4) by (metis option.distinct(1), metis empty_iff list.set(1))
  show ?thesis
  proof (rule engine_invI)
    show "rw_ok (engine_lock (s\<lparr>engine_lock := l, point := (point s)(t := Checking)\<rparr>))"
      using rw.acq_w [OF d(1) assms(2)] by simp
  qed (use d l nw assms(3) in \<open>auto simp: fun_upd_def\<close>)
qed

lemma engine_inv_release:
  assumes "engine_inv flag s" "reads (point s t) \<or> writes (point s t)"
    "\<not> reads c" "\<not> writes c" "point_ok (cpu_allocator s) c"
  shows "engine_inv flag (s\<lparr>engine_lock := unlock t (engine_lock s), point := (point s)(t := c)\<rparr>)"
proof -
  note d = engine_invD [OF assms(1)]
  have both: "\<not> (reads (point s t) \<and> writes (point s t))" by (cases "point s t") auto
  show ?thesis
  proof (rule engine_invI)
    show "rw_ok (engine_lock (s\<lparr>engine_lock := unlock t (engine_lock s), point := (point s)(t := c)\<rparr>))"
      using rw.rel_ok [OF d(1)] by simp
    fix u
    show "writer (engine_lock (s\<lparr>engine_lock := unlock t (engine_lock s), point := (point s)(t := c)\<rparr>)) = Some u
        \<longleftrightarrow> writes (point (s\<lparr>engine_lock := unlock t (engine_lock s), point := (point s)(t := c)\<rparr>) u)"
      using d(2) [of u] d(2) [of t] assms(4) by (auto simp: unlock_def)
    show "u \<in> set (readers (engine_lock (s\<lparr>engine_lock := unlock t (engine_lock s), point := (point s)(t := c)\<rparr>)))
        \<longleftrightarrow> reads (point (s\<lparr>engine_lock := unlock t (engine_lock s), point := (point s)(t := c)\<rparr>) u)"
      using d(2) [of t] d(3) d(4) [of u] d(4) [of t] assms(2,3) both by (auto simp: unlock_def)
  qed (use d assms(5) in \<open>auto simp: unlock_def\<close>)
qed

text \<open>Creation: the creator holds the lock alone, so no other thread relies on the field being null.\<close>

lemma engine_inv_create:
  assumes "engine_inv flag s" "point s t = Creating"
  shows "engine_inv flag (s\<lparr>pools := pools s @ [pool_of_flag flag], cpu_allocator := Some (length (pools s)),
    point := (point s)(t := Leaving)\<rparr>)"
proof -
  note d = engine_invD [OF assms(1)]
  have none: "cpu_allocator s = None" using d(5) [of t] assms(2) by simp
  have w: "writer (engine_lock s) = Some t" using d(2) [of t] assms(2) by simp
  have others: "point_ok (Some 0) (point s u)" if "u \<noteq> t" for u
  proof -
    have "\<not> writes (point s u)" using rw.excl [OF d(1) w, of u] d(2) [of u] that by blast
    with d(5) [of u] none show ?thesis by (cases "point s u") auto
  qed
  show ?thesis
    by (rule engine_invI) (use d others none assms(2) in \<open>auto simp: fun_upd_def\<close>)
qed

lemma engine_move_inv:
  assumes "engine_inv flag s" "engine_move flag t s = Some s'"
  shows "engine_inv flag s'"
proof -
  note d = engine_invD [OF assms(1)]
  have p: "point_ok (cpu_allocator s) (point s t)" by (rule d(5))
  show ?thesis
  proof (cases "point s t")
    case Start
    with assms engine_inv_acquire_shared [OF assms(1)] show ?thesis
      by (auto simp: engine_move_def ReadLockGuard_def split: option.splits)
  next
    case Reading
    with assms engine_inv_point [OF assms(1), of _ t] show ?thesis
      by (auto simp: engine_move_def split: option.splits)
  next
    case (Found x)
    with assms p engine_inv_release [OF assms(1), of t "Got x"] show ?thesis
      by (auto simp: engine_move_def destroy_ReadLockGuard_def)
  next
    case NotFound
    with assms p engine_inv_release [OF assms(1), of t Retry] show ?thesis
      by (auto simp: engine_move_def destroy_ReadLockGuard_def)
  next
    case Retry
    with assms engine_inv_acquire [OF assms(1)] show ?thesis
      by (auto simp: engine_move_def split: option.splits)
  next
    case Checking
    with assms engine_inv_point [OF assms(1), of _ t] show ?thesis
      by (auto simp: engine_move_def split: if_splits)
  next
    case Creating
    with assms engine_inv_create [OF assms(1)] show ?thesis by (auto simp: engine_move_def)
  next
    case Leaving
    with assms p engine_inv_release [OF assms(1), of t] show ?thesis
      by (auto simp: engine_move_def split: option.splits)
  qed (use assms(2) in \<open>simp add: engine_move_def\<close>)
qed

lemma engine_runs_inv: "engine_runs flag n k s \<Longrightarrow> engine_inv flag s"
  by (induction rule: engine_runs.induct) (auto intro: engine_inv_new engine_move_inv)

section \<open>Progress and termination\<close>

fun moves_left :: "call_point \<Rightarrow> nat" where
  "moves_left Start = 7" | "moves_left Reading = 6" | "moves_left NotFound = 5" | "moves_left Retry = 4"
| "moves_left Checking = 3" | "moves_left Creating = 2" | "moves_left Leaving = 1"
| "moves_left (Found p) = 1" | "moves_left (Got p) = 0"

lemma engine_move_decreases:
  assumes "engine_move flag t s = Some s'"
  shows "moves_left (point s' t) < moves_left (point s t) \<and> (\<forall>u. u \<noteq> t \<longrightarrow> point s' u = point s u)"
  using assms by (auto simp: engine_move_def split: call_point.splits option.splits if_splits)

lemma engine_runs_bounded:
  "engine_runs flag n k s \<Longrightarrow> k + (\<Sum>t<n. moves_left (point s t)) \<le> 7 * n"
proof (induction rule: engine_runs.induct)
  case (move_run k s t s')
  from engine_move_decreases [OF move_run.hyps(3)] have
    d: "moves_left (point s' t) < moves_left (point s t)" "\<And>u. u \<noteq> t \<Longrightarrow> point s' u = point s u" by auto
  have split: "(\<Sum>u<n. f u) = f t + (\<Sum>u\<in>{..<n} - {t}. f u)" for f :: "nat \<Rightarrow> nat"
    using move_run.hyps(2) by (intro sum.remove) simp_all
  have "(\<Sum>u\<in>{..<n} - {t}. moves_left (point s' u)) = (\<Sum>u\<in>{..<n} - {t}. moves_left (point s u))"
    using d(2) by (intro sum.cong) auto
  with d(1) split have "(\<Sum>u<n. moves_left (point s' u)) < (\<Sum>u<n. moves_left (point s u))" by simp
  with move_run.IH show ?case by simp
qed (simp add: new_engine_def)

lemma engine_runs_others: "engine_runs flag n k s \<Longrightarrow> n \<le> u \<Longrightarrow> point s u = Start"
  by (induction rule: engine_runs.induct) (auto simp: new_engine_def dest!: engine_move_decreases)

lemma engine_progress:
  assumes "engine_inv flag s" "point s t \<noteq> Got 0"
  shows "\<exists>u s'. engine_move flag u s = Some s' \<and> (u = t \<or> reads (point s u) \<or> writes (point s u))"
proof -
  note d = engine_invD [OF assms(1)]
  have holder: "\<exists>s'. engine_move flag u s = Some s'" if "reads (point s u) \<or> writes (point s u)" for u
    using that d(5) [of u] by (cases "point s u") (auto simp: engine_move_def)
  show ?thesis
  proof (cases "\<exists>u. reads (point s u) \<or> writes (point s u)")
    case False
    then have nr: "\<not> reads (point s t)" "\<not> writes (point s t)" by blast+
    from False have "writer (engine_lock s) = None" "readers (engine_lock s) = []"
      using d(2,4) by (metis option.exhaust, metis list.set_intros(1) neq_Nil_conv)
    moreover have "point s t = Start \<or> point s t = Retry"
      using nr assms(2) d(5) [of t] d(7) by (cases "point s t") auto
    ultimately show ?thesis
      by (intro exI [of _ t]) (auto simp: engine_move_def ReadLockGuard_def lock_shared_def lock_def)
  qed (use holder in blast)
qed

text \<open>A schedule given as the list of the threads that move.\<close>

fun engine_schedule :: "32 word \<Rightarrow> nat list \<Rightarrow> engine \<Rightarrow> engine option" where
  "engine_schedule flag [] s = Some s"
| "engine_schedule flag (t # ts) s =
     (case engine_move flag t s of None \<Rightarrow> None | Some s' \<Rightarrow> engine_schedule flag ts s')"

lemma engine_schedule_runs:
  "engine_runs flag n k s \<Longrightarrow> list_all (\<lambda>t. t < n) ts \<Longrightarrow> engine_schedule flag ts s = Some s' \<Longrightarrow>
   engine_runs flag n (k + length ts) s'"
proof (induction ts arbitrary: k s)
  case (Cons t ts)
  then obtain s1 where s1: "engine_move flag t s = Some s1" "engine_schedule flag ts s1 = Some s'"
    by (auto split: option.splits)
  with Cons.IH [OF move_run [OF Cons.prems(1) _ s1(1)] _ s1(2)] Cons.prems(2) show ?case by simp
qed simp

text \<open>Two threads that both miss under the shared lock; the second finds the first one's pool.\<close>

lemma two_callers:
  "\<exists>s. engine_schedule flag [0, 1, 0, 1, 1, 0, 0, 0, 0, 0, 1, 1, 1] new_engine = Some s \<and>
    point s 0 = Got 0 \<and> point s 1 = Got 0 \<and> length (pools s) = 1"
  by (simp add: engine_move_def new_engine_def rw_init_def ReadLockGuard_def destroy_ReadLockGuard_def
      lock_shared_def lock_def unlock_def)

text \<open>C23. However many threads ask the storage engine for its allocator at once, in whatever
  interleaving: at most one pool is ever created, with the limit from the flag, and every call that
  has returned has returned that pool.\<close>

theorem one_cpu_allocator:
  assumes "engine_runs flag n k s"
  shows "length (pools s) \<le> 1 \<and> (\<forall>t p. point s t = Got p \<longrightarrow> pools s ! p = pool_of_flag flag \<and> p < length (pools s))"
proof -
  note d = engine_invD [OF engine_runs_inv [OF assms]]
  have "length (pools s) \<le> 1" using d(6,7) by (cases "cpu_allocator s") auto
  moreover have "pools s ! p = pool_of_flag flag \<and> p < length (pools s)" if "point s t = Got p" for t p
    using d(5) [of t] d(7) [of p] that by auto
  ultimately show ?thesis by blast
qed

theorem one_cpu_allocator_witness:
  "\<exists>s. engine_runs 1024 2 13 s \<and> point s 1 = Got 0 \<and> pools s ! 0 = pool_of_flag 1024 \<and> length (pools s) \<le> 1"
proof -
  obtain s where s: "engine_schedule 1024 [0, 1, 0, 1, 1, 0, 0, 0, 0, 0, 1, 1, 1] new_engine = Some s"
    "point s 1 = Got 0" using two_callers by blast
  have "engine_runs 1024 2 (0 + length [0 :: nat, 1, 0, 1, 1, 0, 0, 0, 0, 0, 1, 1, 1]) s"
    by (rule engine_schedule_runs [OF begin_run _ s(1)]) simp
  then have "engine_runs 1024 2 13 s" by (simp add: eval_nat_numeral)
  with one_cpu_allocator [OF this] s(2) show ?thesis by blast
qed

text \<open>The moves of one thread in a schedule.\<close>

lemma engine_schedule_bounded:
  "engine_schedule flag ts s = Some s' \<Longrightarrow> count_list ts t + moves_left (point s' t) \<le> moves_left (point s t)"
proof (induction ts arbitrary: s)
  case (Cons u ts)
  then obtain s1 where s1: "engine_move flag u s = Some s1" "engine_schedule flag ts s1 = Some s'"
    by (auto split: option.splits)
  with Cons.IH [of s1] engine_move_decreases [OF s1(1)] show ?case by (cases "u = t") auto
qed simp

text \<open>When no thread can move, all calls have returned.\<close>

lemma engine_stuck_done:
  assumes "engine_runs flag n k s"
    and stuck: "\<forall>t < n. engine_move flag t s = None"
  shows "(\<forall>t < n. point s t = Got 0) \<and> engine_lock s = rw_init"
proof (intro conjI)
  note inv = engine_runs_inv [OF assms(1)]
  have outside: "\<not> reads (point s u) \<and> \<not> writes (point s u)" if "n \<le> u" for u
    using engine_runs_others [OF assms(1) that] by simp
  show "\<forall>t < n. point s t = Got 0"
  proof (intro allI impI)
    fix t assume "t < n"
    show "point s t = Got 0"
    proof (rule ccontr)
      assume "point s t \<noteq> Got 0"
      from engine_progress [OF inv this] obtain u s' where
        "engine_move flag u s = Some s'" "u = t \<or> reads (point s u) \<or> writes (point s u)" by blast
      with \<open>t < n\<close> outside stuck show False by (metis not_le option.distinct(1))
    qed
  qed
  then have "\<not> reads (point s u) \<and> \<not> writes (point s u)" for u
    using outside [of u] by (cases "u < n") auto
  with engine_invD(2,4) [OF inv] have "writer (engine_lock s) = None" "readers (engine_lock s) = []"
    by (metis option.exhaust, metis list.set_intros(1) neq_Nil_conv)
  then show "engine_lock s = rw_init" by (simp add: rw_init_def)
qed

text \<open>C24. The calls of \<open>get_cpu_allocator\<close> by \<open>n\<close> threads always end. In every schedule, given as the list of
  the threads that move, each thread makes at most seven moves, so there are at most \<open>7 * n\<close>; and as
  long as some call has not returned, some thread can move: in a state where none can, all of
  them hold the same pool and the lock is free.\<close>

theorem cpu_allocator_calls_end:
  assumes "engine_schedule flag ts new_engine = Some s" "list_all (\<lambda>t. t < n) ts"
  shows "(\<forall>t. count_list ts t \<le> 7) \<and> length ts \<le> 7 * n \<and>
    ((\<exists>t < n. point s t \<noteq> Got 0) \<longrightarrow> (\<exists>t < n. engine_move flag t s \<noteq> None)) \<and>
    ((\<forall>t < n. engine_move flag t s = None) \<longrightarrow> (\<forall>t < n. point s t = Got 0) \<and> engine_lock s = rw_init)"
proof -
  have runs: "engine_runs flag n (0 + length ts) s" by (rule engine_schedule_runs [OF begin_run assms(2,1)])
  have "count_list ts t \<le> 7" for t
    using engine_schedule_bounded [OF assms(1), of t] by (simp add: new_engine_def)
  moreover have "length ts \<le> 7 * n" using engine_runs_bounded [OF runs] by simp
  ultimately show ?thesis using engine_stuck_done [OF runs] by blast
qed

theorem cpu_allocator_calls_end_witness:
  "\<exists>s. engine_schedule 1024 [0, 1, 0, 1, 1, 0, 0, 0, 0, 0, 1, 1, 1] new_engine = Some s \<and>
    point s 0 = Got 0 \<and> point s 1 = Got 0 \<and> engine_lock s = rw_init"
proof -
  obtain s where s: "engine_schedule 1024 [0, 1, 0, 1, 1, 0, 0, 0, 0, 0, 1, 1, 1] new_engine = Some s"
    "point s 0 = Got 0" "point s 1 = Got 0" using two_callers by blast
  have "\<forall>t < 2. engine_move 1024 t s = None"
    using s(2,3) by (auto simp: engine_move_def less_2_cases_iff)
  with cpu_allocator_calls_end [OF s(1), of 2] s show ?thesis by auto
qed

section \<open>The engine outside of the interleaving\<close>

text \<open>One call at a time: the field before the call and the pool returned (and stored), the code's
  two checks seeing the same field.\<close>

definition get_cpu_allocator :: "32 word \<Rightarrow> pool option \<Rightarrow> pool" where
  "get_cpu_allocator flag a = (case a of None \<Rightarrow> pool_of_flag flag | Some p \<Rightarrow> p)"

text \<open>The destructor deletes the pool, if there is one.\<close>

definition destroy_engine :: "(ptr \<Rightarrow> 'm \<Rightarrow> 'm run) \<Rightarrow> pool option \<times> 'm \<Rightarrow> 'm run" where
  "destroy_engine free s = (case s of
      (None, m) \<Rightarrow> return m
    | (Some p, m) \<Rightarrow> bind (destroy_pool free (p, m)) (\<lambda>(p', m'). return m'))"

end
