(* ===== verification/MemoryHandle.thy ===== *)
theory MemoryHandle
  imports Storage
begin

text \<open>
  math/MemoryHandle.h and .cpp: the handle of a buffer taken from the pool. The state a program of
  handles works on is the storage engine's allocator field together with the heap below it; the
  pool's contract \<open>sized_allocator\<close> is all the handles rely on.
\<close>

record memory_handle =
  handle_size :: u64
  handle_alloc_size :: u64
  handle_buf :: ptr

section \<open>The size that is allocated\<close>

definition alloc_size_for :: "u64 \<Rightarrow> u64" where
  "alloc_size_for n =
     (if n \<le> 256 then 256
      else if n \<le> 512 then 512
      else if n \<le> 65536 then and (n + 1023) (not 1023)
      else n)"

definition new_MemoryHandle :: "u64 \<Rightarrow> memory_handle" where
  "new_MemoryHandle n = \<lparr>handle_size = n, handle_alloc_size = alloc_size_for n, handle_buf = 0\<rparr>"

definition get_buf :: "memory_handle \<Rightarrow> ptr" where "get_buf h = handle_buf h"
definition get_size :: "memory_handle \<Rightarrow> u64" where "get_size h = handle_size h"
definition get_alloc_size :: "memory_handle \<Rightarrow> u64" where "get_alloc_size h = handle_alloc_size h"

text \<open>\<open>(n + 1023) & ~1023\<close> is the next multiple of 1024.\<close>

lemma mask_1024: "unat (and x (not 1023 :: u64)) = unat x - unat x mod 1024"
  using unat_and_not_mask [of x 10] by (simp add: mask_eq_exp_minus_1)

lemma unat_alloc_size:
  "unat (alloc_size_for n) =
    (if unat n \<le> 256 then 256 else if unat n \<le> 512 then 512
     else if unat n \<le> 65536 then (unat n + 1023) div 1024 * 1024 else unat n)"
proof -
  have c: "n \<le> 256 \<longleftrightarrow> unat n \<le> 256" "n \<le> 512 \<longleftrightarrow> unat n \<le> 512" "n \<le> 65536 \<longleftrightarrow> unat n \<le> 65536"
    by (simp_all add: word_le_nat_alt)
  have "unat (and (n + 1023) (not 1023)) = (unat n + 1023) div 1024 * 1024" if "unat n \<le> 65536"
  proof -
    have "unat (n + 1023) = unat n + 1023" using that by (subst unat_add_u64) simp_all
    then show ?thesis unfolding mask_1024 by (simp add: minus_mod_eq_div_mult)
  qed
  then show ?thesis unfolding alloc_size_for_def c by simp
qed

lemma round_1024:
  fixes k q :: nat
  assumes "512 < k" "k \<le> 65536"
  shows "1 \<le> (k + 1023) div 1024" "(k + 1023) div 1024 \<le> 64" "(q * 1024 + 1023) div 1024 = q"
    "k \<le> (k + 1023) div 1024 * 1024" "(k + 1023) div 1024 * 1024 < k + 1024"
proof -
  have "1024 div 1024 \<le> (k + 1023) div 1024" "(k + 1023) div 1024 \<le> 66559 div 1024"
    by (rule div_le_mono, use assms in simp)+
  then show "1 \<le> (k + 1023) div 1024" "(k + 1023) div 1024 \<le> 64" by simp_all
  show "(q * 1024 + 1023) div 1024 = q" by simp
  have "(k + 1023) div 1024 * 1024 + (k + 1023) mod 1024 = k + 1023" by (rule div_mult_mod_eq)
  moreover have "(k + 1023) mod 1024 < 1024" by simp
  ultimately show "k \<le> (k + 1023) div 1024 * 1024" "(k + 1023) div 1024 * 1024 < k + 1024" by linarith+
qed

lemma alloc_size_ge: "n \<le> alloc_size_for n"
  unfolding word_le_nat_alt unat_alloc_size by auto

text \<open>The size a handle allocates is enough for the size asked for, grows with it, and is a
  fixed point of the rounding, so buffers are reused by class: below 64K there are 66 classes
  (256, 512 and the multiples of 1024), above it the size is taken as it is; less than 1024 bytes
  are wasted on any request above 256.\<close>

theorem alloc_size_classes:
  "n \<le> alloc_size_for n \<and> mono alloc_size_for \<and> alloc_size_for (alloc_size_for n) = alloc_size_for n \<and>
   unat (alloc_size_for n) < max 257 (unat n + 1024) \<and>
   (if n \<le> 65536 then unat (alloc_size_for n) \<in> {256, 512} \<union> (\<lambda>k. 1024 * k) ` {1..64}
    else alloc_size_for n = n)"
proof (intro conjI)
  show "n \<le> alloc_size_for n" by (rule alloc_size_ge)
  show "mono alloc_size_for"
  proof (rule monoI, unfold word_le_nat_alt unat_alloc_size)
    fix x y :: u64
    assume le: "unat x \<le> unat y"
    have "(k + 1023) div 1024 * 1024 \<le> 65536" if "k \<le> 65536" for k :: nat
    proof -
      have "(k + 1023) div 1024 \<le> 66559 div 1024" by (rule div_le_mono) (use that in simp)
      then show ?thesis by simp
    qed
    then have "unat x \<le> 65536 \<Longrightarrow> \<not> unat y \<le> 65536 \<Longrightarrow> (unat x + 1023) div 1024 * 1024 \<le> unat y"
      by (meson le_trans nat_le_linear)
    with le show "(if unat x \<le> 256 then 256 else if unat x \<le> 512 then 512
        else if unat x \<le> 65536 then (unat x + 1023) div 1024 * 1024 else unat x)
      \<le> (if unat y \<le> 256 then 256 else if unat y \<le> 512 then 512
        else if unat y \<le> 65536 then (unat y + 1023) div 1024 * 1024 else unat y)" by auto
  qed
  have "unat (alloc_size_for (alloc_size_for n)) = unat (alloc_size_for n)"
  proof (cases "512 < unat n \<and> unat n \<le> 65536")
    case True
    let ?q = "(unat n + 1023) div 1024"
    from True have r: "unat (alloc_size_for n) = ?q * 1024" by (simp add: unat_alloc_size)
    have "512 < ?q * 1024" "?q * 1024 \<le> 65536" "(?q * 1024 + 1023) div 1024 = ?q"
      using round_1024 [of "unat n"] True by linarith+
    then show ?thesis unfolding unat_alloc_size [of "alloc_size_for n"] r by simp
  next
    case False
    then show ?thesis unfolding unat_alloc_size [of "alloc_size_for n"] unat_alloc_size [of n] by auto
  qed
  then show "alloc_size_for (alloc_size_for n) = alloc_size_for n" by (rule unsigned_word_eqI)
  show "unat (alloc_size_for n) < max 257 (unat n + 1024)" unfolding unat_alloc_size by auto
  show "if n \<le> 65536 then unat (alloc_size_for n) \<in> {256, 512} \<union> (\<lambda>k. 1024 * k) ` {1..64}
    else alloc_size_for n = n"
  proof (cases "512 < unat n \<and> unat n \<le> 65536")
    case True
    then have "unat (alloc_size_for n) = 1024 * ((unat n + 1023) div 1024)" by (simp add: unat_alloc_size)
    moreover have "(unat n + 1023) div 1024 \<in> {1..64}" using round_1024 [of "unat n"] True by simp
    ultimately show ?thesis using True by (simp add: word_le_nat_alt)
  next
    case False
    then show ?thesis by (auto simp: word_le_nat_alt unat_alloc_size alloc_size_for_def)
  qed
qed

section \<open>CpuMemoryHandle\<close>

text \<open>
  The heap state: the engine's allocator field and the C heap. \<open>_allocator\<close> of a handle always points
  to the engine's pool, so it is not stored; without a pool it would dangle.
\<close>

definition new_CpuMemoryHandle :: "32 word \<Rightarrow> (u64 \<Rightarrow> pool \<times> 'm \<Rightarrow> (ptr \<times> pool \<times> 'm) run)
    \<Rightarrow> u64 \<Rightarrow> pool option \<times> 'm \<Rightarrow> (memory_handle \<times> pool option \<times> 'm) run" where
  "new_CpuMemoryHandle flag palloc n s = (case s of (a, m) \<Rightarrow>
     (let h = new_MemoryHandle n in
      bind (cc_check ''Check failed:size != 0 allocate 0 bytes.'' (n \<noteq> 0)) (\<lambda>_.
      bind (palloc (handle_alloc_size h) (get_cpu_allocator flag a, m)) (\<lambda>(buf, p, m').
        return (h\<lparr>handle_buf := buf\<rparr>, Some p, m')))))"

definition destroy_CpuMemoryHandle :: "(ptr \<Rightarrow> u64 \<Rightarrow> pool \<times> 'm \<Rightarrow> (pool \<times> 'm) run)
    \<Rightarrow> memory_handle \<Rightarrow> pool option \<times> 'm \<Rightarrow> (pool option \<times> 'm) run" where
  "destroy_CpuMemoryHandle pfree h s = (case s of
      (None, m) \<Rightarrow> fail UseAfterFree
    | (Some p, m) \<Rightarrow> bind (pfree (handle_buf h) (handle_alloc_size h) (p, m)) (\<lambda>(p', m').
        return (Some p', m')))"

text \<open>A program that makes and destroys handles: \<open>Drop i\<close> destroys the \<open>i\<close>-th handle that is left.\<close>

datatype handle_op = Make u64 | Drop nat

fun handle_ops :: "32 word \<Rightarrow> (u64 \<Rightarrow> pool \<times> 'm \<Rightarrow> (ptr \<times> pool \<times> 'm) run)
    \<Rightarrow> (ptr \<Rightarrow> u64 \<Rightarrow> pool \<times> 'm \<Rightarrow> (pool \<times> 'm) run) \<Rightarrow> handle_op list
    \<Rightarrow> memory_handle list \<times> pool option \<times> 'm \<Rightarrow> (memory_handle list \<times> pool option \<times> 'm) run" where
  "handle_ops flag palloc pfree [] st = return st"
| "handle_ops flag palloc pfree (Make n # ops) (hs, s) =
     bind (new_CpuMemoryHandle flag palloc n s) (\<lambda>(h, s'). handle_ops flag palloc pfree ops (hs @ [h], s'))"
| "handle_ops flag palloc pfree (Drop i # ops) (hs, s) =
     (if i < length hs
      then bind (destroy_CpuMemoryHandle pfree (hs ! i) s) (\<lambda>s'.
             handle_ops flag palloc pfree ops (take i hs @ drop (Suc i) hs, s'))
      else handle_ops flag palloc pfree ops (hs, s))"

text \<open>The buffers the handles hold.\<close>

definition held :: "memory_handle list \<Rightarrow> ptr \<Rightarrow> u64 option" where
  "held hs = map_of (map (\<lambda>h. (handle_buf h, handle_alloc_size h)) hs)"

definition handles_ok :: "memory_handle list \<Rightarrow> bool" where
  "handles_ok hs \<longleftrightarrow> distinct (map handle_buf hs) \<and>
     (\<forall>h \<in> set hs. handle_alloc_size h = alloc_size_for (handle_size h) \<and> handle_buf h \<noteq> 0)"

lemma held_in: "handles_ok hs \<Longrightarrow> h \<in> set hs \<Longrightarrow> held hs (handle_buf h) = Some (handle_alloc_size h)"
  unfolding held_def handles_ok_def by (rule map_of_is_SomeI) (auto simp: comp_def)

lemma held_append: "held hs (handle_buf h) = None \<Longrightarrow>
    held (hs @ [h]) = (held hs)(handle_buf h := Some (handle_alloc_size h))"
  by (auto simp: held_def fun_eq_iff map_add_def split: option.split)

lemma held_none: "held hs q = None \<longleftrightarrow> q \<notin> handle_buf ` set hs"
  by (simp add: held_def map_of_eq_None_iff image_image)

lemma map_of_middle:
  "k \<notin> fst ` set xs \<Longrightarrow> map_of (xs @ (k, v) # ys) = (map_of (xs @ ys))(k := Some v)"
  by (induction xs) (auto simp: fun_upd_twist)

lemma held_remove:
  assumes "handles_ok hs" "i < length hs"
  shows "held (take i hs @ drop (Suc i) hs) = (held hs)(handle_buf (hs ! i) := None)"
    "handles_ok (take i hs @ drop (Suc i) hs)"
proof -
  let ?a = "take i hs" let ?b = "drop (Suc i) hs"
  have hs: "hs = ?a @ hs ! i # ?b" using assms(2) by (rule id_take_nth_drop)
  then have d: "distinct (map handle_buf (?a @ hs ! i # ?b))" using assms(1) unfolding handles_ok_def by metis
  then have new: "handle_buf (hs ! i) \<notin> handle_buf ` set (?a @ ?b)" by auto
  have "held (?a @ hs ! i # ?b) q = ((held (?a @ ?b))(handle_buf (hs ! i) := Some (handle_alloc_size (hs ! i)))) q" for q
    using d unfolding held_def map_append list.map
    by (subst map_of_middle) (auto simp: image_image)
  then have "held hs = (held (?a @ ?b))(handle_buf (hs ! i) := Some (handle_alloc_size (hs ! i)))"
    using hs by (metis ext)
  moreover have "held (?a @ ?b) (handle_buf (hs ! i)) = None" using new unfolding held_none by simp
  ultimately show "held (?a @ ?b) = (held hs)(handle_buf (hs ! i) := None)" by (simp add: fun_eq_iff)
  have "set (?a @ ?b) \<subseteq> set hs" by (metis Un_least set_append set_drop_subset set_take_subset)
  moreover have "distinct (map handle_buf (?a @ ?b))" using d by auto
  ultimately show "handles_ok (?a @ ?b)" using assms(1) unfolding handles_ok_def by blast
qed

text \<open>Handles on top of any allocator that keeps the contract and whose state starts with a pool.\<close>

locale handle_pool = sized_allocator palloc pfree inv
  for palloc :: "u64 \<Rightarrow> pool \<times> 'm \<Rightarrow> (ptr \<times> pool \<times> 'm) run"
    and pfree :: "ptr \<Rightarrow> u64 \<Rightarrow> pool \<times> 'm \<Rightarrow> (pool \<times> 'm) run"
    and inv :: "(ptr \<Rightarrow> u64 option) \<Rightarrow> pool \<times> 'm \<Rightarrow> bool" +
  fixes flag :: "32 word"
begin

definition st_ok :: "memory_handle list \<times> pool option \<times> 'm \<Rightarrow> bool" where
  "st_ok st \<longleftrightarrow> (case st of (hs, a, m) \<Rightarrow>
     handles_ok hs \<and> (a = None \<longrightarrow> hs = []) \<and> inv (held hs) (get_cpu_allocator flag a, m))"

lemma make_ok:
  assumes "st_ok (hs, s)" "snd (new_CpuMemoryHandle flag palloc n s) = Inr (h, s')"
  shows "st_ok (hs @ [h], s') \<and> handle_size h = n"
proof -
  obtain a m where s: "s = (a, m)" by (cases s)
  from assms(2) s obtain buf p m' where
    al: "snd (palloc (alloc_size_for n) (get_cpu_allocator flag a, m)) = Inr (buf, p, m')"
    and h: "h = \<lparr>handle_size = n, handle_alloc_size = alloc_size_for n, handle_buf = buf\<rparr>" "s' = (Some p, m')"
    by (auto simp: new_CpuMemoryHandle_def new_MemoryHandle_def Let_def elim!: snd_bind_InrE)
  from assms(1) s have ok: "handles_ok hs" "inv (held hs) (get_cpu_allocator flag a, m)" by (simp_all add: st_ok_def)
  from palloc_inv [OF ok(2) al] have new: "buf \<noteq> 0" "held hs buf = None"
    "inv ((held hs)(buf := Some (alloc_size_for n))) (p, m')" by simp_all
  with h ok(1) have "handles_ok (hs @ [h])" by (auto simp: handles_ok_def held_none)
  with new h held_append [of hs h] show ?thesis by (simp add: st_ok_def get_cpu_allocator_def)
qed

lemma drop_ok:
  assumes "st_ok (hs, s)" "i < length hs"
  shows "\<exists>s'. destroy_CpuMemoryHandle pfree (hs ! i) s = return s' \<and> st_ok (take i hs @ drop (Suc i) hs, s')"
proof -
  obtain a m where s: "s = (a, m)" by (cases s)
  from assms s have ok: "handles_ok hs" "inv (held hs) (get_cpu_allocator flag a, m)" "a \<noteq> None"
    by (auto simp: st_ok_def)
  then obtain p where p: "a = Some p" by blast
  have "held hs (handle_buf (hs ! i)) = Some (handle_alloc_size (hs ! i))"
    using ok(1) assms(2) by (intro held_in) simp_all
  from pfree_inv [OF ok(2) this] obtain p' m' where
    f: "pfree (handle_buf (hs ! i)) (handle_alloc_size (hs ! i)) (p, m) = return (p', m')"
    "inv ((held hs)(handle_buf (hs ! i) := None)) (p', m')" using p by (auto simp: get_cpu_allocator_def)
  with held_remove [OF ok(1) assms(2)] s p show ?thesis
    by (simp add: destroy_CpuMemoryHandle_def st_ok_def get_cpu_allocator_def)
qed

lemma handle_ops_ok:
  "st_ok st \<Longrightarrow> snd (handle_ops flag palloc pfree ops st) = Inr st' \<Longrightarrow> st_ok st'"
proof (induction ops arbitrary: st)
  case (Cons c ops)
  obtain hs s where st: "st = (hs, s)" by (cases st)
  show ?case
  proof (cases c)
    case (Make n)
    with Cons.prems st obtain h s' where "snd (new_CpuMemoryHandle flag palloc n s) = Inr (h, s')"
      "snd (handle_ops flag palloc pfree ops (hs @ [h], s')) = Inr st'"
      by (auto elim!: snd_bind_InrE)
    with make_ok [of hs s n h s'] Cons.IH Cons.prems(1) st show ?thesis by blast
  next
    case (Drop i)
    show ?thesis
    proof (cases "i < length hs")
      case True
      with drop_ok [of hs s i] Cons.prems(1) st obtain s' where
        "destroy_CpuMemoryHandle pfree (hs ! i) s = return s'" "st_ok (take i hs @ drop (Suc i) hs, s')" by blast
      with Cons.IH Cons.prems(2) st Drop True show ?thesis by auto
    qed (use Cons st Drop in auto)
  qed
qed simp

lemma make_fault:
  assumes "st_ok (hs, s)" "snd (new_CpuMemoryHandle flag palloc n s) = Inl f"
  shows "\<exists>out k t. inv out t \<and> snd (palloc k t) = Inl f"
proof -
  obtain a m where s: "s = (a, m)" by (cases s)
  with assms(2) have "snd (palloc (alloc_size_for n) (get_cpu_allocator flag a, m)) = Inl f"
    by (cases "snd (palloc (alloc_size_for n) (get_cpu_allocator flag a, m))")
      (auto simp: new_CpuMemoryHandle_def new_MemoryHandle_def Let_def snd_bind_Inl snd_bind_Inr)
  moreover have "inv (held hs) (get_cpu_allocator flag a, m)" using assms(1) s by (simp add: st_ok_def)
  ultimately show ?thesis by blast
qed

text \<open>The only fault of a program of handles is the allocator's.\<close>

lemma handle_ops_fault:
  "st_ok st \<Longrightarrow> snd (handle_ops flag palloc pfree ops st) = Inl f \<Longrightarrow>
   \<exists>out n s. inv out s \<and> snd (palloc n s) = Inl f"
proof (induction ops arbitrary: st)
  case (Cons c ops)
  obtain hs a m where st: "st = (hs, a, m)" by (cases st) auto
  show ?case
  proof (cases c)
    case (Make n)
    show ?thesis
    proof (cases "snd (new_CpuMemoryHandle flag palloc n (a, m))")
      case (Inl g)
      with Cons.prems st Make make_fault [of hs "(a, m)" n g] show ?thesis by (simp add: snd_bind_Inl)
    next
      case (Inr hs')
      with Cons.prems st Make make_ok [of hs "(a, m)" n] Cons.IH show ?thesis
        by (cases hs') (auto simp: snd_bind_Inr)
    qed
  next
    case (Drop i)
    show ?thesis
    proof (cases "i < length hs")
      case True
      with drop_ok [of hs "(a, m)" i] Cons.prems(1) st obtain s' where
        "destroy_CpuMemoryHandle pfree (hs ! i) (a, m) = return s'" "st_ok (take i hs @ drop (Suc i) hs, s')" by blast
      with Cons.IH Cons.prems(2) st Drop True show ?thesis by auto
    qed (use Cons st Drop in auto)
  qed
qed simp

end

interpretation cpu_handles: handle_pool "pool_alloc (cpu_alloc pick) cpu_free" "pool_free cpu_free"
  "pool_inv live memory_ok" flag for pick flag
  by unfold_locales

abbreviation no_handles :: "memory_handle list \<times> pool option \<times> memory" where
  "no_handles \<equiv> ([], None, no_memory)"

abbreviation cpu_handle_ops :: "heap_choice \<Rightarrow> 32 word \<Rightarrow> handle_op list
    \<Rightarrow> (memory_handle list \<times> pool option \<times> memory) run" where
  "cpu_handle_ops pick flag ops \<equiv>
     handle_ops flag (pool_alloc (cpu_alloc pick) cpu_free) (pool_free cpu_free) ops no_handles"

lemma no_handles_ok: "cpu_handles.st_ok flag no_handles"
  by (simp add: cpu_handles.st_ok_def handles_ok_def held_def get_cpu_allocator_def pool_of_flag_def
      pool_inv_def new_pool_def cached_def)

lemma cpu_handle_ops_ok:
  assumes "snd (cpu_handle_ops pick flag ops) = Inr (hs, a, m)"
  shows "handles_ok hs" "a = None \<Longrightarrow> hs = []"
    "pool_inv live memory_ok (held hs) (get_cpu_allocator flag a, m)"
  using cpu_handles.handle_ops_ok [OF no_handles_ok assms] by (simp_all add: cpu_handles.st_ok_def)

lemma pool_inv_live:
  assumes "pool_inv live memory_ok out (p, m)" "out q = Some n"
  shows "live m q = Some n" "memory_ok m"
  using pool_invD(1,6) [OF assms(1)] assms(2) by simp_all

text \<open>A C library that never runs out in the examples.\<close>

definition bump_choice :: heap_choice where
  "bump_choice bs n = Some (65536 * of_nat (length bs + 1))"

lemmas handle_run_defs =
  new_CpuMemoryHandle_def destroy_CpuMemoryHandle_def new_MemoryHandle_def alloc_size_for_def
  get_cpu_allocator_def pool_of_flag_def new_pool_def pool_alloc_def pool_free_def pool_free_all_def
  cpu_alloc_def posix_memalign_def legal_block_def apart_def no_memory_def bump_choice_def
  cpu_free_def heap_free_def destroy_engine_def destroy_pool_def Let_def

lemma handle_run:
  "snd (cpu_handle_ops bump_choice 536870912 [Make 100, Make 600, Drop 0, Make 200]) =
    Inr ([\<lparr>handle_size = 600, handle_alloc_size = 1024, handle_buf = 131072\<rparr>,
          \<lparr>handle_size = 200, handle_alloc_size = 256, handle_buf = 65536\<rparr>],
      Some \<lparr>free_lists = [(256, [])], size_limit = 536870912, pool_memory_size = 256, pool_name = ''cpu_pool''\<rparr>,
      \<lparr>blocks = [(131072, 1024), (65536, 256)]\<rparr>)"
  by (simp add: handle_run_defs)

text \<open>The buffers of two handles of a program are apart, and inside the address space.\<close>

definition buffers_apart :: "memory_handle \<Rightarrow> memory_handle \<Rightarrow> bool" where
  "buffers_apart g h \<longleftrightarrow>
     unat (get_buf g) + unat (get_alloc_size g) \<le> unat (get_buf h) \<or>
     unat (get_buf h) + unat (get_alloc_size h) \<le> unat (get_buf g)"

lemma handle_bufs_apart:
  assumes "handles_ok hs" "pool_inv live memory_ok (held hs) (p, m)" "g \<in> set hs" "h \<in> set hs" "handle_buf g \<noteq> handle_buf h"
  shows "buffers_apart g h"
proof -
  have g: "live m (handle_buf g) = Some (handle_alloc_size g)" "memory_ok m"
    using pool_inv_live [OF assms(2) held_in [OF assms(1,3)]] .
  have h: "live m (handle_buf h) = Some (handle_alloc_size h)"
    by (rule pool_inv_live [OF assms(2) held_in [OF assms(1,4)]])
  from live_apart [OF g(2,1) h assms(5)] show ?thesis
    by (simp add: apart_def buffers_apart_def get_buf_def get_alloc_size_def)
qed

lemma handle_buf_bounds:
  assumes "handles_ok hs" "pool_inv live memory_ok (held hs) (p, m)" "g \<in> set hs"
  shows "handle_buf g \<noteq> 0" "unat (handle_buf g) + unat (handle_alloc_size g) \<le> 2 ^ 64"
    "unat (handle_size g) \<le> unat (handle_alloc_size g)"
proof -
  have g: "live m (handle_buf g) = Some (handle_alloc_size g)" "memory_ok m"
    using pool_inv_live [OF assms(2) held_in [OF assms(1,3)]] .
  show "handle_buf g \<noteq> 0" by (rule live_nonnull [OF g(2,1)])
  show "unat (handle_buf g) + unat (handle_alloc_size g) \<le> 2 ^ 64"
    using memory_okD(3) [OF g(2) map_of_SomeD [OF g(1) [unfolded live_def]]] by simp
  show "unat (handle_size g) \<le> unat (handle_alloc_size g)"
    using assms(1,3) alloc_size_ge [of "handle_size g"] by (simp add: handles_ok_def word_le_nat_alt)
qed

text \<open>C13. Whatever sequence of handles a program makes and destroys, and whatever addresses the C
  library picks: the buffers of the handles alive at the end are non-null, lie inside the address
  space and share no byte, although buffers are recycled through the pool.\<close>

theorem handle_buffers_disjoint:
  assumes "snd (cpu_handle_ops pick flag ops) = Inr (hs, a, m)" "i < length hs" "j < length hs" "i \<noteq> j"
  shows "get_buf (hs ! i) \<noteq> 0 \<and> unat (get_buf (hs ! i)) + unat (get_size (hs ! i)) \<le> 2 ^ 64 \<and>
    (unat (get_buf (hs ! i)) + unat (get_size (hs ! i)) \<le> unat (get_buf (hs ! j)) \<or>
     unat (get_buf (hs ! j)) + unat (get_size (hs ! j)) \<le> unat (get_buf (hs ! i)))"
proof -
  note ok = cpu_handle_ops_ok [OF assms(1)]
  have mem: "hs ! i \<in> set hs" "hs ! j \<in> set hs" using assms(2,3) by simp_all
  have "handle_buf (hs ! i) \<noteq> handle_buf (hs ! j)"
    using ok(1) assms(2-4) by (simp add: handles_ok_def distinct_conv_nth)
  from handle_bufs_apart [OF ok(1,3) mem this] handle_buf_bounds [OF ok(1,3) mem(1)] handle_buf_bounds [OF ok(1,3) mem(2)]
  show ?thesis by (auto simp: buffers_apart_def get_buf_def get_size_def get_alloc_size_def)
qed

theorem handle_buffers_disjoint_witness:
  "unat (131072 :: u64) + unat (600 :: u64) \<le> unat (65536 :: u64) \<or>
   unat (65536 :: u64) + unat (200 :: u64) \<le> unat (131072 :: u64)"
  using handle_buffers_disjoint [OF handle_run, of 0 1] by (simp add: get_buf_def get_size_def)

lemma engine_frees_all:
  assumes "pool_inv live memory_ok (held []) (get_cpu_allocator flag a, m)"
  shows "\<exists>m'. destroy_engine cpu_free (a, m) = return m' \<and> blocks m' = []"
proof -
  have none: "held [] = (\<lambda>_. None)" by (simp add: held_def)
  note inv = assms [unfolded none]
  show ?thesis
  proof (cases a)
    case None
    with pool_invD(6) [OF inv] show ?thesis
      by (simp add: destroy_engine_def live_def get_cpu_allocator_def pool_of_flag_def)
  next
    case (Some p)
    with inv have inv: "pool_inv live memory_ok (\<lambda>_. None) (p, m)" by (simp add: get_cpu_allocator_def)
    obtain m' where "pool_free_all cpu_free (p, m) = return (p\<lparr>pool_memory_size := 0, free_lists := []\<rparr>, m')"
      "live m' = (\<lambda>_. None)" by (rule cpu.pool_free_all_ok [OF inv])
    with Some show ?thesis by (simp add: destroy_engine_def destroy_pool_def live_def)
  qed
qed

text \<open>No memory is lost or kept: once every handle is destroyed, the destructor of the storage
  engine frees every block the C library still has allocated, and each exactly once.\<close>

theorem handles_no_leak:
  assumes "snd (cpu_handle_ops pick flag ops) = Inr ([], a, m)"
  shows "\<exists>m'. destroy_engine cpu_free (a, m) = return m' \<and> blocks m' = []"
  by (rule engine_frees_all [OF cpu_handle_ops_ok(3) [OF assms]])

theorem handles_no_leak_witness:
  "\<exists>a m m'. snd (cpu_handle_ops bump_choice 1024 [Make 100, Drop 0]) = Inr ([], a, m) \<and>
    blocks m = [(65536, 256)] \<and> destroy_engine cpu_free (a, m) = return m' \<and> blocks m' = []"
proof -
  have r: "snd (cpu_handle_ops bump_choice 1024 [Make 100, Drop 0]) = Inr ([],
      Some \<lparr>free_lists = [(256, [65536])], size_limit = 1024, pool_memory_size = 256, pool_name = ''cpu_pool''\<rparr>,
      \<lparr>blocks = [(65536, 256)]\<rparr>)" by (simp add: handle_run_defs)
  from handles_no_leak [OF r] r show ?thesis by (metis memory.select_convs(1))
qed

lemma pool_alloc_fault:
  assumes "pool_inv live memory_ok out s" "snd (pool_alloc (cpu_alloc pick) cpu_free n s) = Inl f"
  shows "f = Indeterminate"
proof -
  obtain p m where s: "s = (p, m)" by (cases s)
  obtain m1 where "pool_free_all cpu_free (p, m) = return (p\<lparr>pool_memory_size := 0, free_lists := []\<rparr>, m1)"
    by (rule cpu.pool_free_all_ok [OF assms(1) [unfolded s]])
  with assms(2) s have "\<exists>p0 m0. snd (bind (cpu_alloc pick n m0) (\<lambda>(q, m'). return (q, p0 :: pool, m'))) = Inl f"
    by (auto simp: pool_alloc_def Let_def split: if_splits)
  then obtain p0 m0 where b: "snd (bind (cpu_alloc pick n m0) (\<lambda>(q, m'). return (q, p0 :: pool, m'))) = Inl f" by blast
  show ?thesis
  proof (cases "posix_memalign pick 32 n m0")
    case None
    with b show ?thesis by (simp add: cpu_alloc_def bind_assoc)
  next
    case (Some qm)
    with b show ?thesis by (simp add: cpu_alloc_def bind_assoc split: prod.splits)
  qed
qed

text \<open>C15. A program of handles faults in one way only: the C library refuses a block, and
  \<open>CpuAllocator::alloc\<close>, whose check does not stop it, goes on with a pointer that was never
  stored. No free of the pool or of a handle is ever a bad free.\<close>

theorem handles_fault_only_without_memory:
  assumes "snd (cpu_handle_ops pick flag ops) = Inl f"
  shows "f = Indeterminate"
  using cpu_handles.handle_ops_fault [OF no_handles_ok assms] pool_alloc_fault by blast

theorem handles_fault_only_without_memory_witness:
  "\<exists>f. snd (cpu_handle_ops (\<lambda>_ _. None) 1024 [Make 100]) = Inl f \<and> f = Indeterminate"
proof -
  have r: "snd (cpu_handle_ops (\<lambda>_ _. None) 1024 [Make 100]) = Inl Indeterminate"
    by (simp add: handle_run_defs bind_assoc snd_bind_Inl)
  from handles_fault_only_without_memory [OF r] r show ?thesis by blast
qed

end
