(* ===== verification/Socket.thy ===== *)
theory Socket
  imports Prelude NumParse
begin

text \<open>
  core/SocketChannel.h and .cpp, class \<open>SocketChannel\<close>: the loops that turn the short transfers of
  the socket into whole ones. Pointers are addresses of a byte memory; an \<open>iovec\<close> is an address
  and a length. A transfer is described by the addresses it moved, in order. Sizes, totals and the
  result of the system call are 64-bit words (\<open>ssize_t\<close> is the same bits read as signed), so the
  wrap-around of \<open>size += length\<close> with \<open>length = -1\<close> is the code's.

  A loop that does not return is \<open>None\<close>. The number of iovecs, an \<open>int\<close> in the code, is a length here:
  vectors of \<open>2^31\<close> and more iovecs (32 GiB of descriptors) are outside the model.
\<close>

type_synonym iovec = "ptr \<times> u64"

definition region :: "ptr \<Rightarrow> nat \<Rightarrow> ptr list" where
  "region b n = map (\<lambda>i. b + of_nat i) [0..<n]"

definition addrs :: "iovec list \<Rightarrow> ptr list" where
  "addrs vs = concat (map (\<lambda>(b, l). region b (unat l)) vs)"

definition ssize_positive :: "u64 \<Rightarrow> bool" where
  "ssize_positive x \<longleftrightarrow> 0 < sint x"

section \<open>read and write\<close>

text \<open>\<open>io buf n\<close> is \<open>::read\<close> or \<open>::write\<close> on the channel's socket. Both methods are this loop.\<close>

partial_function (option) transfer_loop ::
  "(ptr \<Rightarrow> u64 \<Rightarrow> 'w \<Rightarrow> u64 \<times> 'w) \<Rightarrow> string \<Rightarrow> ptr \<Rightarrow> u64 \<Rightarrow> u64 \<Rightarrow> 'w \<Rightarrow> (u64 \<times> 'w) run option" where
  "transfer_loop io peer buf n tot w =
     (if tot < n then
        (case io (buf + tot) (n - tot) w of (len, w') \<Rightarrow>
           if \<not> ssize_positive len
           then Some (bind (cc_check (''Check failed:length >= 0  peer = '' @ peer) (len = 0)) (\<lambda>_. return (tot, w')))
           else transfer_loop io peer buf n (tot + len) w')
      else Some (return (tot, w)))"

definition socket_read :: "(ptr \<Rightarrow> u64 \<Rightarrow> 'w \<Rightarrow> u64 \<times> 'w) \<Rightarrow> string \<Rightarrow> ptr \<Rightarrow> u64 \<Rightarrow> 'w \<Rightarrow> (u64 \<times> 'w) run option" where
  "socket_read os_read peer buf n w = transfer_loop os_read peer buf n 0 w"

definition socket_write :: "(ptr \<Rightarrow> u64 \<Rightarrow> 'w \<Rightarrow> u64 \<times> 'w) \<Rightarrow> string \<Rightarrow> ptr \<Rightarrow> u64 \<Rightarrow> 'w \<Rightarrow> (u64 \<times> 'w) run option" where
  "socket_write os_write peer buf n w = transfer_loop os_write peer buf n 0 w"

section \<open>readwritev\<close>

record 'w rw_state =
  rw_log :: "log_record list"
  rw_iovs :: "iovec list"
  rw_current :: nat             \<comment> \<open>\<open>current_iov\<close>\<close>
  rw_size :: u64
  rw_done :: u64                \<comment> \<open>\<open>current_iov_size_done\<close>\<close>
  rw_world :: 'w

definition sum_lengths :: "iovec list \<Rightarrow> u64" where
  "sum_lengths vs = (\<Sum>v \<leftarrow> vs. snd v)"

function skip_iovs :: "iovec list \<Rightarrow> nat \<Rightarrow> u64 \<Rightarrow> nat \<times> u64" where
  "skip_iovs vs cur len =
     (if cur < length vs
      then if len < snd (vs ! cur) then (cur, len) else skip_iovs vs (cur + 1) (len - snd (vs ! cur))
      else (cur, len))"
  by pat_completeness auto
termination by (relation "measure (\<lambda>(vs, cur, len). length vs - cur)") auto

declare skip_iovs.simps [simp del]

definition rw_message :: "(ptr \<Rightarrow> string) \<Rightarrow> string \<Rightarrow> nat \<Rightarrow> nat \<Rightarrow> iovec \<Rightarrow> string" where
  "rw_message show_ptr peer cur n v =
     ''Check failed:length > 0  peer = '' @ peer @ '' current_iov = '' @ show_nat cur @
     '' num_iov = '' @ show_nat n @ '' iovs[current_iov].base = '' @ show_ptr (fst v) @
     '' iovs[current_iov].iov_len = '' @ show_nat (unat (snd v))"

text \<open>One pass of the outer loop; \<open>None\<close> when \<open>iovs[current_iov]\<close> is out of range.\<close>

definition rw_pass :: "(iovec list \<Rightarrow> 'w \<Rightarrow> u64 \<times> 'w) \<Rightarrow> (ptr \<Rightarrow> string) \<Rightarrow> string \<Rightarrow> nat
    \<Rightarrow> 'w rw_state \<Rightarrow> 'w rw_state option" where
  "rw_pass io show_ptr peer max_iovs s =
     (let vs = rw_iovs s; cur = rw_current s; n = length vs in
      if cur \<ge> n then None
      else case io (take (min (n - cur) max_iovs) (drop cur vs)) (rw_world s) of (len, w) \<Rightarrow>
        (let log = rw_log s @ run_log (cc_check (rw_message show_ptr peer cur n (vs ! cur)) (ssize_positive len));
             vs1 = vs[cur := (fst (vs ! cur) - rw_done s, snd (vs ! cur) + rw_done s)]
         in case skip_iovs vs1 cur (len + rw_done s) of (cur', len') \<Rightarrow>
           Some (s\<lparr>rw_log := log, rw_size := rw_size s + len, rw_current := cur', rw_world := w,
             rw_iovs := (if cur' < n then vs1[cur' := (fst (vs1 ! cur') + len', snd (vs1 ! cur') - len')] else vs1),
             rw_done := (if cur' < n then len' else rw_done s)\<rparr>)))"

partial_function (option) rw_loop :: "(iovec list \<Rightarrow> 'w \<Rightarrow> u64 \<times> 'w) \<Rightarrow> (ptr \<Rightarrow> string) \<Rightarrow> string \<Rightarrow> nat
    \<Rightarrow> u64 \<Rightarrow> 'w rw_state \<Rightarrow> (u64 \<times> iovec list \<times> 'w) run option" where
  "rw_loop io show_ptr peer max_iovs tot s =
     (if rw_size s < tot then
        (case rw_pass io show_ptr peer max_iovs s of
           None \<Rightarrow> Some (rw_log s, Inl OutOfBounds)
         | Some s' \<Rightarrow> rw_loop io show_ptr peer max_iovs tot s')
      else Some (rw_log s, Inr (rw_size s, rw_iovs s, rw_world s)))"

definition readwritev :: "(iovec list \<Rightarrow> 'w \<Rightarrow> u64 \<times> 'w) \<Rightarrow> (ptr \<Rightarrow> string) \<Rightarrow> string \<Rightarrow> nat
    \<Rightarrow> iovec list \<Rightarrow> 'w \<Rightarrow> (u64 \<times> iovec list \<times> 'w) run option" where
  "readwritev io show_ptr peer max_iovs vs w =
     rw_loop io show_ptr peer max_iovs (sum_lengths vs)
       \<lparr>rw_log = [], rw_iovs = vs, rw_current = 0, rw_size = 0, rw_done = 0, rw_world = w\<rparr>"

definition UIO_MAXIOV :: nat where
  "UIO_MAXIOV = 1024"

definition socket_readv :: "(iovec list \<Rightarrow> 'w \<Rightarrow> u64 \<times> 'w) \<Rightarrow> (ptr \<Rightarrow> string) \<Rightarrow> string
    \<Rightarrow> iovec list \<Rightarrow> 'w \<Rightarrow> (u64 \<times> iovec list \<times> 'w) run option" where
  "socket_readv os_readv show_ptr peer vs w = readwritev os_readv show_ptr peer UIO_MAXIOV vs w"

definition socket_writev :: "(iovec list \<Rightarrow> 'w \<Rightarrow> u64 \<times> 'w) \<Rightarrow> (ptr \<Rightarrow> string) \<Rightarrow> string
    \<Rightarrow> iovec list \<Rightarrow> 'w \<Rightarrow> (u64 \<times> iovec list \<times> 'w) run option" where
  "socket_writev os_writev show_ptr peer vs w = readwritev os_writev show_ptr peer UIO_MAXIOV vs w"

text \<open>The destructor: the socket is closed and the peer logged.\<close>

definition destroy_SocketChannel :: "string \<Rightarrow> unit run" where
  "destroy_SocketChannel peer = log_msg INFO (''destory connect in socket channel, peer = '' @ peer)"

section \<open>Facts on addresses\<close>

lemma length_region [simp]: "length (region b n) = n"
  by (simp add: region_def)

lemma region_add: "region b (m + n) = region b m @ region (b + of_nat m) n"
  by (rule nth_equalityI) (auto simp: region_def nth_append of_nat_diff)

lemma take_region: "k \<le> n \<Longrightarrow> take k (region b n) = region b k"
  by (simp add: region_def take_map)

lemma drop_region: "k \<le> n \<Longrightarrow> drop k (region b n) = region (b + of_nat k) (n - k)"
  using region_add [of b k "n - k"] by simp

lemma addrs_simps [simp]: "addrs [] = []" "addrs (v # vs) = region (fst v) (unat (snd v)) @ addrs vs"
  by (simp_all add: addrs_def split: prod.split)

lemma addrs_append [simp]: "addrs (vs @ us) = addrs vs @ addrs us"
  by (simp add: addrs_def)

lemma length_addrs: "length (addrs vs) = (\<Sum>v \<leftarrow> vs. unat (snd v))"
  by (induction vs) simp_all

lemma unat_sum_lengths: "length (addrs vs) < 2 ^ 64 \<Longrightarrow> unat (sum_lengths vs) = length (addrs vs)"
proof (induction vs)
  case (Cons v vs)
  then have "unat (sum_lengths vs) = length (addrs vs)" by simp
  with Cons.prems show ?case
    by (simp add: sum_lengths_def length_addrs unat_add_u64)
qed (simp add: sum_lengths_def)

section \<open>A connection that moves bytes\<close>

text \<open>
  What the documentation of a connected stream socket promises when nothing fails: asked for some
  bytes of which no more than \<open>n\<close> are outstanding, a call moves at least one of them, the first
  ones, and returns how many. \<open>moved w as w'\<close> relates the worlds before and after the bytes at the
  addresses \<open>as\<close> have been moved, in that order.
\<close>

locale stream_io =
  fixes io :: "iovec list \<Rightarrow> 'w \<Rightarrow> u64 \<times> 'w"
    and moved :: "'w \<Rightarrow> ptr list \<Rightarrow> 'w \<Rightarrow> bool"
    and ready :: "nat \<Rightarrow> 'w \<Rightarrow> bool"
  assumes io_moves: "ready n w \<Longrightarrow> addrs vs \<noteq> [] \<Longrightarrow> length (addrs vs) \<le> n \<Longrightarrow> n < 2 ^ 63 \<Longrightarrow>
      \<exists>k w'. io vs w = (of_nat k, w') \<and> 0 < k \<and> k \<le> length (addrs vs) \<and>
        moved w (take k (addrs vs)) w' \<and> ready (n - k) w'"
    and moved_nil: "moved w [] w"
    and moved_append: "moved w as w' \<Longrightarrow> moved w' bs w'' \<Longrightarrow> moved w (as @ bs) w''"

lemma ssize_positive_of_nat: "0 < k \<Longrightarrow> k < 2 ^ 63 \<Longrightarrow> ssize_positive (of_nat k)"
  by (simp add: ssize_positive_def signed_of_nat signed_take_bit_int_eq_self)

text \<open>The pass over the finished iovecs, in numbers that do not wrap.\<close>

lemma skip_iovs_ok:
  assumes "L \<le> length (addrs (drop cur vs))" "length (addrs vs) < 2 ^ 63" "cur \<le> length vs"
  shows "\<exists>cur' L'. skip_iovs vs cur (of_nat L) = (cur', of_nat L') \<and> cur \<le> cur' \<and> cur' \<le> length vs \<and>
    length (addrs (take cur vs)) + L = length (addrs (take cur' vs)) + L' \<and>
    (if cur' < length vs then L' < unat (snd (vs ! cur')) else L' = 0)"
  using assms(1,3)
proof (induction "length vs - cur" arbitrary: cur L rule: less_induct)
  case less
  show ?case
  proof (cases "cur < length vs")
    case False
    with less.prems show ?thesis by (subst skip_iovs.simps) (auto intro!: exI [of _ cur] exI [of _ L])
  next
    case True
    let ?l = "unat (snd (vs ! cur))"
    have dr: "drop cur vs = vs ! cur # drop (Suc cur) vs" using True by (rule Cons_nth_drop_Suc [symmetric])
    have tk: "length (addrs (take (Suc cur) vs)) = length (addrs (take cur vs)) + ?l"
      using True by (simp add: take_Suc_conv_app_nth)
    have "length (addrs (take cur vs)) + length (addrs (drop cur vs)) = length (addrs vs)"
      by (metis addrs_append append_take_drop_id length_append)
    with less.prems assms(2) have small: "L < 2 ^ 64" by simp
    have cmp: "of_nat L < snd (vs ! cur) \<longleftrightarrow> L < ?l" using small by (simp add: word_less_nat_alt unat_of_nat_u64)
    show ?thesis
    proof (cases "L < ?l")
      case True': True
      with cmp True less.prems show ?thesis
        by (subst skip_iovs.simps) (auto intro!: exI [of _ cur] exI [of _ L])
    next
      case False
      then have sub: "of_nat L - snd (vs ! cur) = of_nat (L - ?l)" by (simp add: of_nat_diff)
      obtain cur' L' where "skip_iovs vs (Suc cur) (of_nat (L - ?l)) = (cur', of_nat L')" "Suc cur \<le> cur'"
          "cur' \<le> length vs" "length (addrs (take (Suc cur) vs)) + (L - ?l) = length (addrs (take cur' vs)) + L'"
          "if cur' < length vs then L' < unat (snd (vs ! cur')) else L' = 0"
      proof -
        have "length vs - Suc cur < length vs - cur" "L - ?l \<le> length (addrs (drop (Suc cur) vs))" "Suc cur \<le> length vs"
          using True less.prems dr by auto
        from less.hyps [OF this] that show thesis unfolding sub by blast
      qed
      note r = this
      have "skip_iovs vs cur (of_nat L) = skip_iovs vs (Suc cur) (of_nat L - snd (vs ! cur))"
        using True cmp False by (subst skip_iovs.simps) simp
      also have "\<dots> = (cur', of_nat L')" unfolding sub by (rule r(1) [unfolded sub])
      finally have "skip_iovs vs cur (of_nat L) = (cur', of_nat L')" .
      moreover have "length (addrs (take cur vs)) + L = length (addrs (take cur' vs)) + L'"
        using r(4) tk False by linarith
      ultimately show ?thesis using r(2,3,5) Suc_leD by blast
    qed
  qed
qed

text \<open>Where a pass stands after \<open>P\<close> bytes: the current iovec is the only one changed, by the bytes
  done of it.\<close>

definition rw_at :: "iovec list \<Rightarrow> 'w rw_state \<Rightarrow> nat \<Rightarrow> bool" where
  "rw_at vs s P \<longleftrightarrow> rw_size s = of_nat P \<and> rw_current s \<le> length vs \<and>
     (if rw_current s < length vs
      then P = length (addrs (take (rw_current s) vs)) + unat (rw_done s) \<and>
        unat (rw_done s) \<le> unat (snd (vs ! rw_current s)) \<and>
        rw_iovs s = vs[rw_current s := (fst (vs ! rw_current s) + rw_done s, snd (vs ! rw_current s) - rw_done s)]
      else P = length (addrs vs) \<and> rw_iovs s = vs)"

lemma rw_at_addrs:
  assumes "rw_at vs s P"
  shows "addrs (drop (rw_current s) (rw_iovs s)) = drop P (addrs vs)"
proof (cases "rw_current s < length vs")
  case True
  let ?c = "rw_current s" and ?d = "rw_done s"
  from True assms have at: "P = length (addrs (take ?c vs)) + unat ?d" "unat ?d \<le> unat (snd (vs ! ?c))"
    "rw_iovs s = vs[?c := (fst (vs ! ?c) + ?d, snd (vs ! ?c) - ?d)]" by (simp_all add: rw_at_def)
  have vs: "addrs vs = addrs (take ?c vs) @ region (fst (vs ! ?c)) (unat (snd (vs ! ?c))) @ addrs (drop (Suc ?c) vs)"
    by (subst id_take_nth_drop [OF True]) (simp only: addrs_append addrs_simps)
  have "unat (snd (vs ! ?c) - ?d) = unat (snd (vs ! ?c)) - unat ?d"
    using at(2) by (intro unat_sub_u64) (simp add: word_le_nat_alt)
  moreover have "drop ?c (rw_iovs s) = (fst (vs ! ?c) + ?d, snd (vs ! ?c) - ?d) # drop (Suc ?c) vs"
    using True at(3) by (simp add: drop_update_cancel flip: Cons_nth_drop_Suc)
  ultimately show ?thesis unfolding vs using at(1,2) by (simp add: drop_region)
next
  case False
  with assms show ?thesis by (simp add: rw_at_def)
qed

context stream_io
begin

lemma rw_pass_ok:
  assumes "rw_at vs s P" "P < length (addrs vs)" "length (addrs vs) < 2 ^ 63" "length vs < 2 ^ 31"
    "ready (length (addrs vs) - P) (rw_world s)"
    "addrs (take (min (length vs - rw_current s) max_iovs) (drop (rw_current s) (rw_iovs s))) \<noteq> []"
  shows "\<exists>k s'. rw_pass io show_ptr peer max_iovs s = Some s' \<and> 0 < k \<and> P + k \<le> length (addrs vs) \<and>
    rw_at vs s' (P + k) \<and> rw_log s' = rw_log s \<and> moved (rw_world s) (take k (drop P (addrs vs))) (rw_world s') \<and>
    ready (length (addrs vs) - (P + k)) (rw_world s') \<and>
    (rw_current s' < length vs \<longrightarrow> unat (rw_done s') < unat (snd (vs ! rw_current s')))"
proof -
  let ?c = "rw_current s" and ?d = "rw_done s" and ?vs = "rw_iovs s"
  let ?call = "take (min (length vs - ?c) max_iovs) (drop ?c ?vs)"
  have c: "?c < length vs" using assms(1,2) by (auto simp: rw_at_def split: if_splits)
  from c assms(1) have at: "P = length (addrs (take ?c vs)) + unat ?d" "unat ?d \<le> unat (snd (vs ! ?c))"
    "?vs = vs[?c := (fst (vs ! ?c) + ?d, snd (vs ! ?c) - ?d)]" "rw_size s = of_nat P"
    by (simp_all add: rw_at_def)
  have restored: "?vs[?c := (fst (?vs ! ?c) - ?d, snd (?vs ! ?c) + ?d)] = vs" using c at(3) by simp
  have pre: "drop P (addrs vs) = addrs ?call @ addrs (drop (min (length vs - ?c) max_iovs) (drop ?c ?vs))"
    unfolding rw_at_addrs [OF assms(1), symmetric] by (metis addrs_append append_take_drop_id)
  then have le: "length (addrs ?call) \<le> length (addrs vs) - P" by (metis length_append length_drop le_add1)
  have lt: "length (addrs vs) - P < 2 ^ 63" using assms(3) by simp
  from io_moves [OF assms(5,6) le lt] obtain k w' where
    k: "io ?call (rw_world s) = (of_nat k, w')" "0 < k" "k \<le> length (addrs ?call)"
      "moved (rw_world s) (take k (addrs ?call)) w'" "ready (length (addrs vs) - P - k) w'" by blast
  have kP: "P + k \<le> length (addrs vs)" using k(3) le assms(2) by linarith
  have tk: "take k (addrs ?call) = take k (drop P (addrs vs))" unfolding pre using k(3) by simp
  have tot: "length (addrs (take ?c vs)) + length (addrs (drop ?c vs)) = length (addrs vs)"
    by (metis addrs_append append_take_drop_id length_append)
  have len: "of_nat k + ?d = of_nat (k + unat ?d)" by simp
  obtain cur' L' where sk: "skip_iovs vs ?c (of_nat (k + unat ?d)) = (cur', of_nat L')" "cur' \<le> length vs"
      "length (addrs (take ?c vs)) + (k + unat ?d) = length (addrs (take cur' vs)) + L'"
      "if cur' < length vs then L' < unat (snd (vs ! cur')) else L' = 0"
    using skip_iovs_ok [of "k + unat ?d" ?c vs] kP at(1) tot c assms(3) by auto
  let ?s = "s\<lparr>rw_size := of_nat (P + k), rw_current := cur', rw_world := w',
    rw_iovs := (if cur' < length vs then vs[cur' := (fst (vs ! cur') + of_nat L', snd (vs ! cur') - of_nat L')] else vs),
    rw_done := (if cur' < length vs then of_nat L' else ?d)\<rparr>"
  have lvs: "length ?vs = length vs" using at(3) by simp
  have pos: "ssize_positive (of_nat k)" using k(2) kP assms(3) by (intro ssize_positive_of_nat) simp_all
  have "rw_pass io show_ptr peer max_iovs s = Some ?s"
    unfolding rw_pass_def Let_def lvs restored k(1) prod.case len sk(1)
    using c at(4) pos by (simp add: run_log_def)
  moreover have L': "cur' < length vs \<Longrightarrow> unat (of_nat L' :: u64) = L'"
    using sk(4) unat_u64_less [of "snd (vs ! cur')"] by (intro unat_of_nat_u64) simp
  have "rw_at vs ?s (P + k)" using sk L' at(1) by (auto simp: rw_at_def)
  moreover have "rw_current ?s < length vs \<longrightarrow> unat (rw_done ?s) < unat (snd (vs ! rw_current ?s))"
    using sk(4) L' by auto
  ultimately show ?thesis
    using k(2,4,5) kP unfolding tk by (intro exI [of _ k] exI [of _ ?s]) simp
qed

lemma rw_loop_completes:
  assumes "rw_at vs s P" "P \<le> length (addrs vs)" "length (addrs vs) < 2 ^ 63" "length vs < 2 ^ 31"
    "ready (length (addrs vs) - P) (rw_world s)" "0 < max_iovs"
    "rw_current s < length vs \<Longrightarrow> rw_done s \<noteq> 0 \<Longrightarrow> unat (rw_done s) < unat (snd (vs ! rw_current s))"
    "P < length (addrs vs) \<Longrightarrow>
      addrs (take (min (length vs - rw_current s) max_iovs) (drop (rw_current s) (rw_iovs s))) \<noteq> []"
  shows "\<exists>w'. rw_loop io show_ptr peer max_iovs (of_nat (length (addrs vs))) s =
      Some (rw_log s, Inr (of_nat (length (addrs vs)), vs, w')) \<and>
    moved (rw_world s) (drop P (addrs vs)) w' \<and> ready 0 w'"
  using assms
proof (induction "length (addrs vs) - P" arbitrary: s P rule: less_induct)
  case less
  let ?N = "length (addrs vs)"
  have size: "rw_size s = of_nat P" using less.prems(1) by (simp_all add: rw_at_def)
  have cmp: "rw_size s < of_nat ?N \<longleftrightarrow> P < ?N"
    using less.prems(2,3) by (simp add: size word_less_nat_alt unat_of_nat_u64)
  show ?case
  proof (cases "P < ?N")
    case False
    with less.prems(2) have P: "P = ?N" by simp
    have "rw_iovs s = vs"
    proof (cases "rw_current s < length vs")
      case True
      let ?c = "rw_current s"
      have tot: "?N = length (addrs (take ?c vs)) + (unat (snd (vs ! ?c)) + length (addrs (drop (Suc ?c) vs)))"
        by (subst id_take_nth_drop [OF True]) (simp only: addrs_append addrs_simps length_append length_region)
      with less.prems(1,7) True P have "rw_done s = 0" by (auto simp: rw_at_def)
      with less.prems(1) True show ?thesis by (simp add: rw_at_def)
    qed (use less.prems(1) in \<open>simp add: rw_at_def\<close>)
    with cmp False P size less.prems(5) show ?thesis
      by (subst rw_loop.simps) (auto simp: return_def moved_nil)
  next
    case True
    from rw_pass_ok [OF less.prems(1) True less.prems(3,4,5) less.prems(8) [OF True], of show_ptr peer]
    obtain k s' where p: "rw_pass io show_ptr peer max_iovs s = Some s'" "0 < k" "P + k \<le> ?N"
      "rw_at vs s' (P + k)" "moved (rw_world s) (take k (drop P (addrs vs))) (rw_world s')"
      "ready (?N - (P + k)) (rw_world s')"
      "rw_current s' < length vs \<longrightarrow> unat (rw_done s') < unat (snd (vs ! rw_current s'))" "rw_log s' = rw_log s" by blast
    have call: "addrs (take (min (length vs - rw_current s') max_iovs) (drop (rw_current s') (rw_iovs s'))) \<noteq> []"
      if "P + k < ?N"
    proof -
      let ?c = "rw_current s'"
      have c: "?c < length vs" using that p(4) by (auto simp: rw_at_def split: if_splits)
      with p(4,7) have i: "unat (rw_done s') < unat (snd (vs ! ?c))"
        "rw_iovs s' = vs[?c := (fst (vs ! ?c) + rw_done s', snd (vs ! ?c) - rw_done s')]" by (simp_all add: rw_at_def)
      then have "drop ?c (rw_iovs s') = (fst (vs ! ?c) + rw_done s', snd (vs ! ?c) - rw_done s') # drop (Suc ?c) vs"
        using c by (simp add: drop_update_cancel flip: Cons_nth_drop_Suc)
      moreover have "unat (snd (vs ! ?c) - rw_done s') \<noteq> 0"
        using i(1) by (subst unat_sub_u64) (simp_all add: word_le_nat_alt)
      moreover obtain j where "min (length vs - ?c) max_iovs = Suc j" using c less.prems(6)
        by (cases "min (length vs - ?c) max_iovs") auto
      ultimately show ?thesis by (simp add: region_def)
    qed
    obtain w' where w': "rw_loop io show_ptr peer max_iovs (of_nat ?N) s' = Some (rw_log s, Inr (of_nat ?N, vs, w'))"
      "moved (rw_world s') (drop (P + k) (addrs vs)) w'" "ready 0 w'"
    proof -
      have "?N - (P + k) < ?N - P" using True p(2) by linarith
      from less.hyps [OF this p(4,3) less.prems(3,4) p(6) less.prems(6) _ call] p(7) that show thesis unfolding p(8) by blast
    qed
    have "drop P (addrs vs) = take k (drop P (addrs vs)) @ drop (P + k) (addrs vs)"
      by (metis add.commute append_take_drop_id drop_drop)
    with moved_append [OF p(5) w'(2)] have "moved (rw_world s) (drop P (addrs vs)) w'" by simp
    with w' p(1) cmp True show ?thesis by (subst rw_loop.simps) simp
  qed
qed

text \<open>All the bytes are moved, once each and in order, and the iovecs are as they were.\<close>

lemma readwritev_completes:
  assumes "length (addrs vs) < 2 ^ 63" "length vs < 2 ^ 31" "ready (length (addrs vs)) w" "0 < max_iovs"
    "addrs vs = [] \<or> addrs (take max_iovs vs) \<noteq> []"
  shows "\<exists>w'. readwritev io show_ptr peer max_iovs vs w = Some (return (of_nat (length (addrs vs)), vs, w')) \<and>
    moved w (addrs vs) w' \<and> ready 0 w'"
proof -
  let ?s = "\<lparr>rw_log = [], rw_iovs = vs, rw_current = 0, rw_size = 0, rw_done = 0, rw_world = w\<rparr>"
  have "rw_at vs ?s 0" by (auto simp: rw_at_def)
  moreover have "take (min (length vs) max_iovs) vs = take max_iovs vs" by (simp add: min_def)
  moreover have "sum_lengths vs = of_nat (length (addrs vs))"
  proof -
    have "of_nat (unat (sum_lengths vs)) = sum_lengths vs" by simp
    with unat_sum_lengths [of vs] assms(1) show ?thesis by simp
  qed
  ultimately show ?thesis
    using rw_loop_completes [of vs ?s 0 max_iovs show_ptr peer] assms by (auto simp: readwritev_def return_def)
qed

text \<open>The same of the loops on a single buffer, whose call is the one on a single iovec.\<close>

lemma transfer_loop_completes:
  assumes "unat tot \<le> unat n" "unat n < 2 ^ 63" "ready (unat n - unat tot) w"
  shows "\<exists>w'. transfer_loop (\<lambda>b l. io [(b, l)]) peer buf n tot w = Some (return (n, w')) \<and>
    moved w (region (buf + tot) (unat n - unat tot)) w' \<and> ready 0 w'"
  using assms
proof (induction "unat n - unat tot" arbitrary: tot w rule: less_induct)
  case less
  show ?case
  proof (cases "tot < n")
    case False
    with less.prems have "unat tot = unat n" by (simp add: word_less_nat_alt)
    then have "tot = n" by (rule unsigned_word_eqI)
    with less.prems(3) show ?thesis by (subst transfer_loop.simps) (simp add: moved_nil region_def)
  next
    case True
    then have "unat tot < unat n" by (simp add: word_less_nat_alt)
    then have left: "unat (n - tot) = unat n - unat tot" "unat tot < unat n"
      by (simp_all add: unat_sub_u64 word_le_nat_alt)
    let ?v = "[(buf + tot, n - tot)]"
    have "addrs ?v \<noteq> []" "length (addrs ?v) \<le> unat n - unat tot" "unat n - unat tot < 2 ^ 63"
      using left less.prems(2) by (simp_all add: region_def)
    from io_moves [OF less.prems(3) this] obtain k w1 where k0: "io ?v w = (of_nat k, w1)" "0 < k"
      "k \<le> length (addrs ?v)" "moved w (take k (addrs ?v)) w1" "ready (unat n - unat tot - k) w1" by blast
    then have k: "io ?v w = (of_nat k, w1)" "0 < k" "k \<le> unat n - unat tot"
      "moved w (region (buf + tot) k) w1" "ready (unat n - unat tot - k) w1"
      by (simp_all add: left take_region)
    have pos: "ssize_positive (of_nat k)" using k(2,3) less.prems(2) by (intro ssize_positive_of_nat) simp_all
    have nxt: "unat (tot + of_nat k) = unat tot + k"
      using k(3) left(2) less.prems(2) by (subst unat_add_u64) (simp_all add: unat_of_nat_u64)
    obtain w' where w': "transfer_loop (\<lambda>b l. io [(b, l)]) peer buf n (tot + of_nat k) w1 = Some (return (n, w'))"
      "moved w1 (region (buf + (tot + of_nat k)) (unat n - (unat tot + k))) w'" "ready 0 w'"
    proof -
      have "unat n - unat (tot + of_nat k) < unat n - unat tot" "unat (tot + of_nat k) \<le> unat n"
        "ready (unat n - unat (tot + of_nat k)) w1"
        using k(2,3,5) nxt left(2) by simp_all
      from less.hyps [OF this(1,2) less.prems(2) this(3)] that show thesis unfolding nxt by blast
    qed
    have e: "unat n - unat tot = k + (unat n - (unat tot + k))" using k(3) by simp
    have "region (buf + tot) (unat n - unat tot) = region (buf + tot) k @ region (buf + (tot + of_nat k)) (unat n - (unat tot + k))"
      by (subst e) (simp only: region_add add.assoc)
    with moved_append [OF k(4) w'(2)] have "moved w (region (buf + tot) (unat n - unat tot)) w'" by simp
    with w' k(1) pos True show ?thesis by (subst transfer_loop.simps) simp
  qed
qed

end

end
