(* ===== verification/Connection.thy ===== *)
theory Connection
  imports Socket
begin

text \<open>
  The socket below \<open>SocketChannel\<close>, as the documentation of \<open>read\<close>, \<open>write\<close>, \<open>readv\<close> and \<open>writev\<close> on
  a connected stream socket describes it: a call moves some of the bytes asked for, in order, or
  fails with \<open>-1\<close>, and a read at the end of the stream returns \<open>0\<close>. Which of these happens is the
  parameter \<open>script\<close>, one entry per call (when it is used up, calls move all they can); every legal
  behaviour of the system over a finite run is some script.
\<close>

datatype io_answer = Moves nat | Fails

record os =
  mem :: "ptr \<Rightarrow> byte"
  outgoing :: "byte list"     \<comment> \<open>bytes written to the socket so far\<close>
  incoming :: "byte list"     \<comment> \<open>bytes that can still be read, up to the end of the stream\<close>
  script :: "io_answer list"

text \<open>How many of \<open>n > 0\<close> bytes the next call moves; \<open>None\<close> when it fails.\<close>

definition io_count :: "nat \<Rightarrow> os \<Rightarrow> nat option" where
  "io_count n w = (case script w of [] \<Rightarrow> Some n | Moves k # sc \<Rightarrow> Some (min n (max 1 k)) | Fails # sc \<Rightarrow> None)"

definition os_writev :: "iovec list \<Rightarrow> os \<Rightarrow> u64 \<times> os" where
  "os_writev vs w = (case io_count (length (addrs vs)) w of
      None \<Rightarrow> (-1, w\<lparr>script := tl (script w)\<rparr>)
    | Some k \<Rightarrow> (of_nat k, w\<lparr>script := tl (script w),
        outgoing := outgoing w @ map (mem w) (take k (addrs vs))\<rparr>))"

fun stores :: "(ptr \<Rightarrow> byte) \<Rightarrow> ptr list \<Rightarrow> byte list \<Rightarrow> ptr \<Rightarrow> byte" where
  "stores m (a # as) (b # bs) = stores (m(a := b)) as bs"
| "stores m _ _ = m"

definition os_readv :: "iovec list \<Rightarrow> os \<Rightarrow> u64 \<times> os" where
  "os_readv vs w = (case io_count (min (length (addrs vs)) (length (incoming w))) w of
      None \<Rightarrow> (-1, w\<lparr>script := tl (script w)\<rparr>)
    | Some k \<Rightarrow> (of_nat k, w\<lparr>script := tl (script w), incoming := drop k (incoming w),
        mem := stores (mem w) (take k (addrs vs)) (take k (incoming w))\<rparr>))"

definition os_write :: "ptr \<Rightarrow> u64 \<Rightarrow> os \<Rightarrow> u64 \<times> os" where
  "os_write buf n = os_writev [(buf, n)]"

definition os_read :: "ptr \<Rightarrow> u64 \<Rightarrow> os \<Rightarrow> u64 \<times> os" where
  "os_read buf n = os_readv [(buf, n)]"

section \<open>Both directions keep the contract of a connection\<close>

definition written :: "os \<Rightarrow> ptr list \<Rightarrow> os \<Rightarrow> bool" where
  "written w as w' \<longleftrightarrow> mem w' = mem w \<and> incoming w' = incoming w \<and>
     outgoing w' = outgoing w @ map (mem w) as"

definition received :: "os \<Rightarrow> ptr list \<Rightarrow> os \<Rightarrow> bool" where
  "received w as w' \<longleftrightarrow> outgoing w' = outgoing w \<and>
     (\<exists>bs. length bs = length as \<and> incoming w = bs @ incoming w' \<and> mem w' = stores (mem w) as bs)"

definition never_fails :: "os \<Rightarrow> bool" where
  "never_fails w \<longleftrightarrow> Fails \<notin> set (script w)"

lemma stores_append: "length as = length bs \<Longrightarrow> stores m (as @ cs) (bs @ ds) = stores (stores m as bs) cs ds"
  by (induction m as bs rule: stores.induct) auto

lemma io_count_ok:
  assumes "never_fails w" "0 < n"
  obtains k where "io_count n w = Some k" "0 < k" "k \<le> n"
  using assms by (cases "script w" rule: list.exhaust; cases "hd (script w)")
    (auto simp: io_count_def never_fails_def)

lemma set_tlD: "x \<in> set (tl xs) \<Longrightarrow> x \<in> set xs"
  by (cases xs) auto

lemma receivedD:
  assumes "received w as w'"
  shows "mem w' = stores (mem w) as (take (length as) (incoming w))" "incoming w' = drop (length as) (incoming w)"
    "outgoing w' = outgoing w"
  using assms by (auto simp: received_def)

interpretation wr: stream_io os_writev written "\<lambda>n. never_fails"
proof unfold_locales
  fix n w and vs :: "iovec list"
  assume "never_fails w" "addrs vs \<noteq> []"
  moreover from this obtain k where "io_count (length (addrs vs)) w = Some k" "0 < k" "k \<le> length (addrs vs)"
    using io_count_ok [of w "length (addrs vs)"] by auto
  ultimately show "\<exists>k w'. os_writev vs w = (of_nat k, w') \<and> 0 < k \<and> k \<le> length (addrs vs) \<and>
      written w (take k (addrs vs)) w' \<and> never_fails w'"
    by (intro exI [of _ k]) (auto simp: os_writev_def written_def never_fails_def dest: set_tlD)
qed (auto simp: written_def)

interpretation rd: stream_io os_readv received "\<lambda>n w. never_fails w \<and> n \<le> length (incoming w)"
proof unfold_locales
  fix n w and vs :: "iovec list"
  assume a: "never_fails w \<and> n \<le> length (incoming w)" "addrs vs \<noteq> []" "length (addrs vs) \<le> n"
  then have "min (length (addrs vs)) (length (incoming w)) = length (addrs vs)" by simp
  moreover from a obtain k where "io_count (length (addrs vs)) w = Some k" "0 < k" "k \<le> length (addrs vs)"
    using io_count_ok [of w "length (addrs vs)"] by auto
  ultimately show "\<exists>k w'. os_readv vs w = (of_nat k, w') \<and> 0 < k \<and> k \<le> length (addrs vs) \<and>
      received w (take k (addrs vs)) w' \<and> never_fails w' \<and> n - k \<le> length (incoming w')"
    using a by (intro exI [of _ k])
      (auto simp: os_readv_def received_def never_fails_def dest: set_tlD intro!: exI [of _ "take k (incoming w)"])
next
  fix w as w' bs w''
  assume "received w as w'" "received w' bs w''"
  then obtain cs ds where "length cs = length as" "incoming w = cs @ ds @ incoming w''" "length ds = length bs"
    "mem w'' = stores (stores (mem w) as cs) bs ds" "outgoing w'' = outgoing w" by (auto simp: received_def)
  then show "received w (as @ bs) w''"
    by (auto simp: received_def stores_append intro!: exI [of _ "cs @ ds"])
qed (simp add: received_def)

section \<open>Whole transfers\<close>

text \<open>C1. \<open>writev\<close> on a connection that does not fail, however it splits the transfer into short
  writes: the loop returns the sum of the lengths, the peer is sent the bytes of all the buffers,
  once each and in order, and the caller's iovecs, which the loop changes and restores, are as they
  were.\<close>

theorem writev_sends_everything:
  assumes "never_fails w" "length (addrs vs) < 2 ^ 63" "length vs < 2 ^ 31"
    "addrs (take UIO_MAXIOV vs) \<noteq> []"
  shows "\<exists>w'. socket_writev os_writev show_ptr peer vs w = Some (return (of_nat (length (addrs vs)), vs, w')) \<and>
    outgoing w' = outgoing w @ map (mem w) (addrs vs) \<and> mem w' = mem w \<and> incoming w' = incoming w"
  using wr.readwritev_completes [OF assms(2,3) assms(1), of UIO_MAXIOV] assms(4)
  by (auto simp: socket_writev_def UIO_MAXIOV_def written_def)

text \<open>C2. \<open>readv\<close> on a connection that does not fail and still brings enough bytes fills the buffers,
  in order, with the next bytes of the stream, takes those and no more from it, and returns the sum
  of the lengths.\<close>

theorem readv_fills_buffers:
  assumes "never_fails w" "length (addrs vs) \<le> length (incoming w)" "length (addrs vs) < 2 ^ 63"
    "length vs < 2 ^ 31" "addrs (take UIO_MAXIOV vs) \<noteq> []"
  shows "\<exists>w'. socket_readv os_readv show_ptr peer vs w = Some (return (of_nat (length (addrs vs)), vs, w')) \<and>
    mem w' = stores (mem w) (addrs vs) (take (length (addrs vs)) (incoming w)) \<and>
    incoming w' = drop (length (addrs vs)) (incoming w) \<and> outgoing w' = outgoing w"
proof -
  obtain w' where "readwritev os_readv show_ptr peer UIO_MAXIOV vs w = Some (return (of_nat (length (addrs vs)), vs, w'))"
    "received w (addrs vs) w'"
    using rd.readwritev_completes [OF assms(3,4), of w UIO_MAXIOV] assms(1,2,5) by (auto simp: UIO_MAXIOV_def)
  with receivedD [OF this(2)] show ?thesis by (simp add: socket_readv_def)
qed

lemma socket_write_ok:
  assumes "never_fails w" "unat n < 2 ^ 63"
  obtains w' where "socket_write os_write peer buf n w = Some (return (n, w'))"
    "outgoing w' = outgoing w @ map (mem w) (region buf (unat n))" "mem w' = mem w" "incoming w' = incoming w"
    "never_fails w'"
proof -
  have "os_write = (\<lambda>b l. os_writev [(b, l)])" by (simp add: fun_eq_iff os_write_def)
  with wr.transfer_loop_completes [of 0 n w peer buf] assms that show ?thesis
    by (auto simp: socket_write_def written_def)
qed

lemma socket_read_ok:
  assumes "never_fails w" "unat n < 2 ^ 63" "unat n \<le> length (incoming w)"
  obtains w' where "socket_read os_read peer buf n w = Some (return (n, w'))"
    "mem w' = stores (mem w) (region buf (unat n)) (take (unat n) (incoming w))"
    "incoming w' = drop (unat n) (incoming w)" "outgoing w' = outgoing w" "never_fails w'"
proof -
  have "os_read = (\<lambda>b l. os_readv [(b, l)])" by (simp add: fun_eq_iff os_read_def)
  moreover obtain w' where "transfer_loop (\<lambda>b l. os_readv [(b, l)]) peer buf n 0 w = Some (return (n, w'))"
    "received w (region buf (unat n)) w'" "never_fails w'"
    using rd.transfer_loop_completes [of 0 n w peer buf] assms by auto
  ultimately show ?thesis
    using receivedD [of w "region buf (unat n)" w'] by (intro that [of w']) (simp_all add: socket_read_def)
qed

text \<open>Two short buffers, one of them empty, and a socket that takes two bytes, then one, then the rest.\<close>

lemma two_buffers: "region 100 3 = [100, 101, 102]" "region b 0 = []" "region 300 2 = [300, 301]"
  by (simp_all add: region_def upt_rec)

theorem writev_sends_everything_witness:
  "\<exists>w'. socket_writev os_writev (\<lambda>_. []) ''peer'' [(100, 3), (200, 0), (300, 2)]
      \<lparr>mem = (\<lambda>a. ucast a), outgoing = [7], incoming = [], script = [Moves 2, Moves 1]\<rparr> =
    Some (return (5, [(100, 3), (200, 0), (300, 2)], w')) \<and> outgoing w' = [7, 100, 101, 102, 44, 45]"
  using writev_sends_everything [of "\<lparr>mem = (\<lambda>a. ucast a), outgoing = [7], incoming = [], script = [Moves 2, Moves 1]\<rparr>"
    "[(100, 3), (200, 0), (300, 2)]" "\<lambda>_. []" "''peer''"]
  by (auto simp: two_buffers never_fails_def UIO_MAXIOV_def)

theorem readv_fills_buffers_witness:
  "\<exists>w'. socket_readv os_readv (\<lambda>_. []) ''peer'' [(100, 3), (200, 0), (300, 2)]
      \<lparr>mem = (\<lambda>a. 0), outgoing = [], incoming = [1, 2, 3, 4, 5, 6], script = [Moves 2, Moves 1]\<rparr> =
    Some (return (5, [(100, 3), (200, 0), (300, 2)], w')) \<and> incoming w' = [6] \<and> mem w' 102 = 3 \<and> mem w' 300 = 4"
  using readv_fills_buffers [of "\<lparr>mem = (\<lambda>a. 0), outgoing = [], incoming = [1, 2, 3, 4, 5, 6], script = [Moves 2, Moves 1]\<rparr>"
    "[(100, 3), (200, 0), (300, 2)]" "\<lambda>_. []" "''peer''"]
  by (auto simp: two_buffers never_fails_def UIO_MAXIOV_def)

section \<open>Errors and the end of the stream\<close>

text \<open>A pass that moves nothing repeats for ever: the loop checks neither \<open>0\<close> nor \<open>-1\<close>.\<close>

definition rw_stuck :: "u64 \<Rightarrow> os rw_state \<Rightarrow> bool" where
  "rw_stuck tot s \<longleftrightarrow> rw_size s < tot \<and> rw_current s < length (rw_iovs s) \<and> rw_done s = 0 \<and>
     0 < snd (rw_iovs s ! rw_current s) \<and> incoming (rw_world s) = [] \<and> script (rw_world s) = []"

lemma rw_stuck_pass:
  assumes "rw_stuck tot s"
  shows "\<exists>s'. rw_pass os_readv show_ptr peer max_iovs s = Some s' \<and> rw_stuck tot s'"
proof -
  let ?c = "rw_current s"
  have io: "os_readv vs (rw_world s) = (0, rw_world s)" for vs
    using assms by (simp add: rw_stuck_def os_readv_def io_count_def)
  have "skip_iovs (rw_iovs s) ?c 0 = (?c, 0)" using assms by (subst skip_iovs.simps) (simp add: rw_stuck_def)
  with assms io show ?thesis by (simp add: rw_pass_def rw_stuck_def Let_def)
qed

lemma rw_stuck_loops:
  assumes "rw_stuck tot s"
  shows "rw_loop os_readv show_ptr peer max_iovs tot s = None"
proof (rule ccontr)
  assume "rw_loop os_readv show_ptr peer max_iovs tot s \<noteq> None"
  then obtain r where r: "rw_loop os_readv show_ptr peer max_iovs tot s = Some r" by blast
  have "os_readv = os_readv \<longrightarrow> \<not> rw_stuck tot s"
  proof (rule rw_loop.raw_induct [where P = "\<lambda>io sp pe mx tot s r. io = os_readv \<longrightarrow> \<not> rw_stuck tot s", OF _ r])
    fix f sp pe mx tot s r and io :: "iovec list \<Rightarrow> os \<Rightarrow> u64 \<times> os"
    assume ih: "\<And>io sp pe mx tot s r. f io sp pe mx tot s = Some r \<Longrightarrow> io = os_readv \<longrightarrow> \<not> rw_stuck tot s"
      and eq: "(if rw_size s < tot
         then case rw_pass io sp pe mx s of None \<Rightarrow> Some (rw_log s, Inl OutOfBounds)
              | Some s' \<Rightarrow> f io sp pe mx tot s'
         else Some (rw_log s, Inr (rw_size s, rw_iovs s, rw_world s))) = Some r"
    show "io = os_readv \<longrightarrow> \<not> rw_stuck tot s"
    proof (intro impI notI)
      assume io: "io = os_readv" and st: "rw_stuck tot s"
      obtain s' where s': "rw_pass os_readv sp pe mx s = Some s'" "rw_stuck tot s'" using rw_stuck_pass [OF st] by blast
      with eq io st have "f io sp pe mx tot s' = Some r" by (simp add: rw_stuck_def)
      from ih [OF this] s'(2) io show False by simp
    qed
  qed
  with assms show False by simp
qed

text \<open>At the end of the stream \<open>readv\<close> never returns: \<open>::readv\<close> answers \<open>0\<close>, the check only
  logs, and the loop asks again for ever.\<close>

theorem readv_hangs_at_end_of_stream:
  assumes "incoming w = []" "script w = []" "0 < snd v" "0 < sum_lengths (v # vs)"
  shows "socket_readv os_readv show_ptr peer (v # vs) w = None"
  unfolding socket_readv_def readwritev_def
  by (rule rw_stuck_loops) (use assms in \<open>simp add: rw_stuck_def\<close>)

theorem readv_hangs_at_end_of_stream_witness:
  "socket_readv os_readv (\<lambda>_. []) ''peer'' [(100, 8)] \<lparr>mem = (\<lambda>_. 0), outgoing = [], incoming = [], script = []\<rparr> = None"
  by (rule readv_hangs_at_end_of_stream) (simp_all add: sum_lengths_def)

lemma not_ssize_positive_minus_one [simp]: "\<not> ssize_positive (- 1)"
  by (simp add: ssize_positive_def)

lemma skip_iovs_all:
  assumes "length (addrs (drop cur vs)) < unat x" "cur \<le> length vs"
  shows "fst (skip_iovs vs cur x) = length vs"
  using assms
proof (induction vs cur x rule: skip_iovs.induct)
  case (1 vs cur x)
  show ?case
  proof (cases "cur < length vs")
    case True
    then have dr: "drop cur vs = vs ! cur # drop (Suc cur) vs" by (rule Cons_nth_drop_Suc [symmetric])
    with "1.prems"(1) have le: "unat (snd (vs ! cur)) + length (addrs (drop (Suc cur) vs)) < unat x" by simp
    then have nl: "\<not> x < snd (vs ! cur)" "snd (vs ! cur) \<le> x" by (simp_all add: word_less_nat_alt word_le_nat_alt)
    have "length (addrs (drop (cur + 1) vs)) < unat (x - snd (vs ! cur))"
      using le nl(2) by (simp add: unat_sub_u64)
    with "1.IH" [OF True nl(1)] True nl(1) show ?thesis by (subst skip_iovs.simps) simp
  next
    case False
    with "1.prems" show ?thesis by (subst skip_iovs.simps) simp
  qed
qed

lemma failed_first_write:
  assumes "script w = Fails # sc" "vs \<noteq> []" "0 < sum_lengths vs" "length (addrs vs) < 2 ^ 63"
  shows "\<exists>msg. socket_writev os_writev show_ptr peer vs w =
    Some ([LogRecord FATAL msg], Inr (- 1, vs, w\<lparr>script := sc\<rparr>))"
proof -
  let ?s = "\<lparr>rw_log = [], rw_iovs = vs, rw_current = 0, rw_size = 0, rw_done = 0, rw_world = w\<rparr>"
  have io: "os_writev us w = (- 1, w\<lparr>script := sc\<rparr>)" for us
    using assms(1) by (simp add: os_writev_def io_count_def)
  have "unat (- 1 :: u64) = 2 ^ 64 - 1" by (simp add: unsigned_minus_1_eq_mask mask_eq_exp_minus_1)
  then have "fst (skip_iovs vs 0 (- 1)) = length vs" using assms(4) by (intro skip_iovs_all) simp_all
  then obtain len where sk: "skip_iovs vs 0 (- 1) = (length vs, len)" by (cases "skip_iovs vs 0 (- 1)") auto
  have same: "vs[0 := (fst (vs ! 0) - 0, snd (vs ! 0) + 0)] = vs" by simp
  have pass: "rw_pass os_writev show_ptr peer UIO_MAXIOV ?s = Some (?s\<lparr>
      rw_log := [LogRecord FATAL (rw_message show_ptr peer 0 (length vs) (vs ! 0))],
      rw_size := - 1, rw_current := length vs, rw_world := w\<lparr>script := sc\<rparr>\<rparr>)"
    using assms(2) io sk by (simp add: rw_pass_def Let_def run_log_def cc_check_def)
  have "\<not> (- 1 :: u64) < x" for x by (simp add: word_less_nat_alt \<open>unat (- 1 :: u64) = 2 ^ 64 - 1\<close> not_less)
    (use unat_u64_less [of x] in simp)
  then show ?thesis
    using assms(3) pass
    by (intro exI [of _ "rw_message show_ptr peer 0 (length vs) (vs ! 0)"])
      (simp add: socket_writev_def readwritev_def rw_loop.simps)
qed

text \<open>When the first \<open>::writev\<close> of a transfer fails, its \<open>-1\<close> is added to the unsigned byte
  count, so the loop ends at once and reports \<open>SIZE_MAX\<close> bytes written, with one message in the log;
  nothing has been sent.\<close>

theorem failed_first_write_reports_size_max:
  assumes "script w = Fails # sc" "vs \<noteq> []" "0 < sum_lengths vs" "length (addrs vs) < 2 ^ 63"
  shows "\<exists>msg. socket_writev os_writev show_ptr peer vs w =
    Some ([LogRecord FATAL msg], Inr (- 1, vs, w\<lparr>script := sc\<rparr>))"
  using assms by (rule failed_first_write)

theorem failed_first_write_reports_size_max_witness:
  "\<exists>msg. socket_writev os_writev (\<lambda>_. []) ''peer'' [(100, 3)]
      \<lparr>mem = (\<lambda>_. 0), outgoing = [], incoming = [], script = [Fails]\<rparr> =
    Some ([LogRecord FATAL msg], Inr (- 1, [(100, 3)], \<lparr>mem = (\<lambda>_. 0), outgoing = [], incoming = [], script = []\<rparr>))"
  using failed_first_write_reports_size_max [of "\<lparr>mem = (\<lambda>_. 0), outgoing = [], incoming = [], script = [Fails]\<rparr>"
    "[]"
    "[(100, 3)]" "\<lambda>_. []" "''peer''"]
  by (simp add: sum_lengths_def two_buffers)

text \<open>A failure after some bytes of a buffer have been sent moves the position back by one byte
  (\<open>size += length\<close> with \<open>-1\<close>), and the loop goes on from there: the peer receives one byte twice,
  yet the caller is told that exactly the buffer was written.\<close>

theorem failed_write_repeats_byte:
  assumes "script w = [Moves k, Fails]" "0 < k" "k < unat l" "unat l < 2 ^ 63"
  shows "\<exists>msg w'. socket_writev os_writev show_ptr peer [(b, l)] w =
      Some ([LogRecord FATAL msg], Inr (l, [(b, l)], w')) \<and>
    outgoing w' = outgoing w @ map (mem w) (region b k) @
      map (mem w) (region (b + of_nat (k - 1)) (unat l - (k - 1)))"
proof -
  let ?w1 = "w\<lparr>script := [Fails], outgoing := outgoing w @ map (mem w) (region b k)\<rparr>"
  let ?w2 = "?w1\<lparr>script := []\<rparr>"
  let ?s = "\<lparr>rw_log = [], rw_iovs = [(b, l)], rw_current = 0, rw_size = 0, rw_done = 0, rw_world = w\<rparr>"
  let ?s1 = "\<lparr>rw_log = [], rw_iovs = [(b + of_nat k, l - of_nat k)], rw_current = 0, rw_size = of_nat k,
    rw_done = of_nat k, rw_world = ?w1\<rparr>"
  let ?msg = "rw_message show_ptr peer 0 1 (b + of_nat k, l - of_nat k)"
  let ?s2 = "\<lparr>rw_log = [LogRecord FATAL ?msg], rw_iovs = [(b + of_nat (k - 1), l - of_nat (k - 1))],
    rw_current = 0, rw_size = of_nat (k - 1), rw_done = of_nat (k - 1), rw_world = ?w2\<rparr>"
  have u: "unat (of_nat j :: u64) = j" if "j \<le> k" for j using that assms(3,4) by (intro unat_of_nat_u64) simp
  have lt: "(of_nat j :: u64) < l" if "j \<le> k" for j using that assms(3) by (simp add: word_less_nat_alt u)
  have skip: "skip_iovs [(b, l)] 0 (of_nat j) = (0, of_nat j)" if "j \<le> k" for j
    using lt [OF that] by (subst skip_iovs.simps) simp
  have io1: "os_writev [(b, l)] w = (of_nat k, ?w1)"
    using assms by (simp add: os_writev_def io_count_def take_region min_def max_def)
  have io2: "os_writev us ?w1 = (- 1, ?w2)" for us by (simp add: os_writev_def io_count_def)
  have pos: "ssize_positive (of_nat k)" using assms by (intro ssize_positive_of_nat) simp_all
  have minus1: "(- 1 :: u64) + of_nat k = of_nat (k - 1)" using assms(2) by (simp add: of_nat_diff)
  have p1: "rw_pass os_writev show_ptr peer UIO_MAXIOV ?s = Some ?s1"
    using io1 skip [of k] pos by (simp add: rw_pass_def run_log_def UIO_MAXIOV_def)
  have p2: "rw_pass os_writev show_ptr peer UIO_MAXIOV ?s1 = Some ?s2"
    using io2 skip [of "k - 1"] minus1 by (simp add: rw_pass_def run_log_def cc_check_def add.commute)
  have at: "rw_at [(b, l)] ?s2 (k - 1)" using u [of "k - 1"] assms(3) by (simp add: rw_at_def)
  have left: "unat (l - of_nat (k - 1)) = unat l - (k - 1)"
    using u [of "k - 1"] lt [of "k - 1"] by (subst unat_sub_u64) simp_all
  have N: "length (addrs [(b, l)]) = unat l" by simp
  have "\<exists>w'. rw_loop os_writev show_ptr peer UIO_MAXIOV (of_nat (length (addrs [(b, l)]))) ?s2 =
      Some (rw_log ?s2, Inr (of_nat (length (addrs [(b, l)])), [(b, l)], w')) \<and>
      written (rw_world ?s2) (drop (k - 1) (addrs [(b, l)])) w' \<and> never_fails w'"
  proof (rule wr.rw_loop_completes [OF at])
    show "addrs (take (min (length [(b, l)] - rw_current ?s2) UIO_MAXIOV) (drop (rw_current ?s2) (rw_iovs ?s2))) \<noteq> []"
      using left assms(3) by (simp add: UIO_MAXIOV_def region_def)
  qed (use assms u [of "k - 1"] in \<open>simp_all add: never_fails_def UIO_MAXIOV_def\<close>)
  then obtain w' where w': "rw_loop os_writev show_ptr peer UIO_MAXIOV l ?s2 = Some (rw_log ?s2, Inr (l, [(b, l)], w'))"
    "written ?w2 (drop (k - 1) (region b (unat l))) w'" by auto
  have "0 < l" "of_nat k < l" using lt [of 0] lt [of k] by simp_all
  then have "rw_loop os_writev show_ptr peer UIO_MAXIOV l ?s = Some (rw_log ?s2, Inr (l, [(b, l)], w'))"
    using w'(1) p1 p2 by (subst rw_loop.simps, simp, subst rw_loop.simps, simp)
  moreover have "sum_lengths [(b, l)] = l" by (simp add: sum_lengths_def)
  ultimately show ?thesis
    using w'(2) assms(3) by (simp add: socket_writev_def readwritev_def written_def drop_region)
qed

text \<open>Five bytes: the peer receives six, the third one twice.\<close>

theorem failed_write_repeats_byte_witness:
  "\<exists>msg w'. socket_writev os_writev (\<lambda>_. []) ''peer'' [(100, 5)]
      \<lparr>mem = ucast, outgoing = [], incoming = [], script = [Moves 3, Fails]\<rparr> =
    Some ([LogRecord FATAL msg], Inr (5, [(100, 5)], w')) \<and> outgoing w' = [100, 101, 102, 102, 103, 104]"
  using failed_write_repeats_byte [of "\<lparr>mem = ucast, outgoing = [], incoming = [], script = [Moves 3, Fails]\<rparr>"
    3 5
    "\<lambda>_. []" "''peer''" 100]
  by (simp add: region_def upt_rec)

end
