(* ===== verification/Message.thy ===== *)
theory Message
  imports Connection
begin

text \<open>
  core/SocketChannel.h and .cpp: framed messages. A message is a header of two little-endian 64-bit
  numbers (total length, number of blocks), the lengths of the blocks, and the blocks. The local
  objects the code passes to the system calls (the header, the vector of lengths) have addresses,
  the parameters \<open>hdr\<close> and \<open>lens\<close>.
\<close>

section \<open>Running code that may not return\<close>

definition obind :: "'a run option \<Rightarrow> ('a \<Rightarrow> 'b run option) \<Rightarrow> 'b run option" where
  "obind m k = (case m of
      None \<Rightarrow> None
    | Some (l, Inl f) \<Rightarrow> Some (l, Inl f)
    | Some (l, Inr x) \<Rightarrow> (case k x of None \<Rightarrow> None | Some (l', r) \<Rightarrow> Some (l @ l', r)))"

lemma obind_return [simp]: "obind (Some (return x)) k = k x"
  by (auto simp: obind_def return_def split: option.split prod.split)

lemma obind_fail [simp]: "obind (Some (fail f)) k = Some (fail f)"
  by (simp add: obind_def fail_def)

lemma obind_None [simp]: "obind None k = None"
  by (simp add: obind_def)

lemma obind_check_True [simp]: "obind (Some (cc_check msg True)) k = k ()"
  by simp

lemma obind_Inr: "obind (Some (l, Inr x)) k = (case k x of None \<Rightarrow> None | Some (l', r) \<Rightarrow> Some (l @ l', r))"
  by (simp add: obind_def)

section \<open>64-bit numbers in memory\<close>

definition le_bytes :: "u64 \<Rightarrow> byte list" where
  "le_bytes x = map (\<lambda>i. ucast (drop_bit (8 * i) x)) [0..<8]"

fun from_le :: "byte list \<Rightarrow> u64" where
  "from_le [] = 0"
| "from_le (b # bs) = or (ucast b) (push_bit 8 (from_le bs))"

definition load64 :: "(ptr \<Rightarrow> byte) \<Rightarrow> ptr \<Rightarrow> u64" where
  "load64 m p = from_le (map m (region p 8))"

definition store64 :: "ptr \<Rightarrow> u64 \<Rightarrow> (ptr \<Rightarrow> byte) \<Rightarrow> ptr \<Rightarrow> byte" where
  "store64 p x m = stores m (region p 8) (le_bytes x)"

definition store_array :: "ptr \<Rightarrow> u64 list \<Rightarrow> (ptr \<Rightarrow> byte) \<Rightarrow> ptr \<Rightarrow> byte" where
  "store_array p xs m = stores m (region p (8 * length xs)) (concat (map le_bytes xs))"

definition load_array :: "(ptr \<Rightarrow> byte) \<Rightarrow> ptr \<Rightarrow> nat \<Rightarrow> u64 list" where
  "load_array m p n = map (\<lambda>i. load64 m (p + of_nat (8 * i))) [0..<n]"

section \<open>Writing a message\<close>

definition write_message :: "(iovec list \<Rightarrow> os \<Rightarrow> u64 \<times> os) \<Rightarrow> (ptr \<Rightarrow> string) \<Rightarrow> string
    \<Rightarrow> ptr \<Rightarrow> ptr \<Rightarrow> iovec list \<Rightarrow> os \<Rightarrow> os run option" where
  "write_message sys_writev show_ptr peer hdr lens user_iovs w =
     (let num_iovs = of_nat (length user_iovs);
          iov_lengths = map snd user_iovs;
          iovs = [(hdr, 16), (lens, 8 * num_iovs)] @ user_iovs;
          total_length = sum_lengths iovs;
          w1 = w\<lparr>mem := store64 hdr total_length (store_array lens iov_lengths (store64 (hdr + 8) num_iovs (mem w)))\<rparr>
      in obind (socket_writev sys_writev show_ptr peer iovs w1) (\<lambda>(n, iovs', w2).
         obind (Some (cc_check ''Check failed:writev(iovs) == (size_t)header.total_length '' (n = total_length))) (\<lambda>_.
           Some (return w2))))"

section \<open>MessageReader\<close>

record message_reader =
  num_blocks :: "u64 list"
  current_block_index :: nat

text \<open>A \<open>std::vector\<close> of more than \<open>PTRDIFF_MAX / 8\<close> elements throws. The vector is filled with
  zeros before it is read into.\<close>

definition new_MessageReader :: "(ptr \<Rightarrow> u64 \<Rightarrow> os \<Rightarrow> u64 \<times> os) \<Rightarrow> string \<Rightarrow> ptr \<Rightarrow> u64 \<Rightarrow> os
    \<Rightarrow> (message_reader \<times> os) run option" where
  "new_MessageReader sys_read peer lens n w =
     (if n \<ge> 2 ^ 60 then Some (fail Exception)
      else (let size = n * 8; w1 = w\<lparr>mem := store_array lens (replicate (unat n) 0) (mem w)\<rparr> in
        obind (socket_read sys_read peer lens size w1) (\<lambda>(r, w2).
        obind (Some (cc_check ''Check failed:_channel->read(&_num_blocks[0], size) == size '' (r = size))) (\<lambda>_.
          Some (return (\<lparr>num_blocks = load_array (mem w2) lens (unat n), current_block_index = 0\<rparr>, w2))))))"

definition get_num_blocks :: "message_reader \<Rightarrow> u64" where
  "get_num_blocks r = of_nat (length (num_blocks r)) - of_nat (current_block_index r)"

definition get_total_length :: "message_reader \<Rightarrow> u64" where
  "get_total_length r = sum_list (drop (current_block_index r) (num_blocks r))"

text \<open>The parameter \<open>i\<close> is not used: the index is \<open>_current_block_index + 1\<close>.\<close>

definition get_block_length :: "u64 \<Rightarrow> message_reader \<Rightarrow> u64 run" where
  "get_block_length i r =
     (if current_block_index r + 1 < length (num_blocks r)
      then return (num_blocks r ! (current_block_index r + 1)) else fail OutOfBounds)"

definition get_next_block_length :: "message_reader \<Rightarrow> u64 run" where
  "get_next_block_length r = get_block_length 0 r"

fun block_iovs :: "ptr list \<Rightarrow> message_reader \<Rightarrow> (iovec list \<times> u64 \<times> message_reader) run" where
  "block_iovs [] r = return ([], 0, r)"
| "block_iovs (buf # bufs) r =
     bind (get_next_block_length r) (\<lambda>len.
     bind (block_iovs bufs (r\<lparr>current_block_index := current_block_index r + 1\<rparr>)) (\<lambda>(iovs, tot, r').
       return ((buf, len) # iovs, len + tot, r')))"

definition read_blocks :: "(iovec list \<Rightarrow> os \<Rightarrow> u64 \<times> os) \<Rightarrow> (ptr \<Rightarrow> string) \<Rightarrow> string
    \<Rightarrow> ptr list \<Rightarrow> message_reader \<Rightarrow> os \<Rightarrow> (message_reader \<times> os) run option" where
  "read_blocks sys_readv show_ptr peer bufs r w =
     obind (Some (cc_check ''Check failed:(_current_block_index + bufs.size()) <= (_num_blocks.size()) ''
       (current_block_index r + length bufs \<le> length (num_blocks r)))) (\<lambda>_.
     obind (Some (block_iovs bufs r)) (\<lambda>(iovs, tot, r').
     obind (socket_readv sys_readv show_ptr peer iovs w) (\<lambda>(n, iovs', w').
     obind (Some (cc_check ''Check failed:_channel->readv(&iovs) == total '' (n = tot))) (\<lambda>_.
       Some (return (r', w'))))))"

definition read_next_block :: "(ptr \<Rightarrow> u64 \<Rightarrow> os \<Rightarrow> u64 \<times> os) \<Rightarrow> string
    \<Rightarrow> ptr \<Rightarrow> message_reader \<Rightarrow> os \<Rightarrow> (message_reader \<times> os) run option" where
  "read_next_block sys_read peer buf r w =
     obind (Some (cc_check ''Check failed:(_current_block_index) < (_num_blocks.size()) ''
       (current_block_index r < length (num_blocks r)))) (\<lambda>_.
     obind (Some (get_next_block_length r)) (\<lambda>len.
     obind (socket_read sys_read peer buf len w) (\<lambda>(n, w').
     obind (Some (get_next_block_length r)) (\<lambda>len'.
     obind (Some (cc_check ''Check failed:_channel->read(buf, get_next_block_length()) == get_next_block_length() ''
       (n = len'))) (\<lambda>_.
       Some (return (r\<lparr>current_block_index := current_block_index r + 1\<rparr>, w')))))))"

text \<open>The destructor only checks.\<close>

definition destroy_MessageReader :: "message_reader \<Rightarrow> unit run" where
  "destroy_MessageReader r = cc_check ''Check failed:(_current_block_index) == (_num_blocks.size()) ''
     (current_block_index r = length (num_blocks r))"

section \<open>Reading a message\<close>

definition read_message :: "(ptr \<Rightarrow> u64 \<Rightarrow> os \<Rightarrow> u64 \<times> os) \<Rightarrow> string \<Rightarrow> ptr \<Rightarrow> ptr \<Rightarrow> os
    \<Rightarrow> (message_reader option \<times> os) run option" where
  "read_message sys_read peer hdr lens w =
     obind (socket_read sys_read peer hdr 16 w) (\<lambda>(n, w1).
     if n = 0 then Some (return (None, w1))
     else
       obind (Some (cc_check ''Check failed:length == sizeof(header) '' (n = 16))) (\<lambda>_.
       obind (new_MessageReader sys_read peer lens (load64 (mem w1) (hdr + 8)) w1) (\<lambda>(r, w2).
       obind (Some (cc_check (''Check failed:(message_reader->get_total_length() + sizeof(header) + message_reader->get_num_blocks() * sizeof(size_t)) == ((size_t)header.total_length)  total_length = ''
           @ show_nat (unat (get_total_length r)) @ '' num_blocks = '' @ show_nat (unat (get_num_blocks r)))
         (get_total_length r + 16 + get_num_blocks r * 8 = load64 (mem w2) hdr))) (\<lambda>_.
         Some (return (Some r, w2))))))"

section \<open>The message format\<close>

definition encode_message :: "byte list list \<Rightarrow> byte list" where
  "encode_message bs =
     le_bytes (of_nat (16 + 8 * length bs + length (concat bs))) @ le_bytes (of_nat (length bs)) @
     concat (map (\<lambda>b. le_bytes (of_nat (length b))) bs) @ concat bs"

lemma length_le_bytes [simp]: "length (le_bytes x) = 8"
  by (simp add: le_bytes_def)

lemma bit_from_le:
  "bit (from_le bs) n \<longleftrightarrow> n < 64 \<and> n div 8 < length bs \<and> bit (bs ! (n div 8)) (n mod 8)"
proof (induction bs arbitrary: n)
  case (Cons b bs)
  have small: "bit b n \<Longrightarrow> n < 8" using bit_imp_le_length [of b n] by simp
  show ?case
  proof (cases "n < 8")
    case True
    then show ?thesis by (simp add: bit_simps)
  next
    case False
    then have "n div 8 = Suc ((n - 8) div 8)" "n mod 8 = (n - 8) mod 8"
      by (simp_all add: le_div_geq le_mod_geq)
    moreover have "\<not> bit b n" using False small by blast
    ultimately show ?thesis using False Cons.IH [of "n - 8"] by (auto simp: bit_simps)
  qed
qed simp

lemma from_le_bytes [simp]: "from_le (le_bytes x) = x"
proof (rule bit_word_eqI)
  fix n assume n: "n < LENGTH(64)"
  then have d: "n div 8 < 8" by (simp add: div_less_iff_less_mult)
  then have "bit (le_bytes x ! (n div 8)) (n mod 8) = bit x (8 * (n div 8) + n mod 8)"
    by (simp add: le_bytes_def bit_simps)
  with n d show "bit (from_le (le_bytes x)) n = bit x n"
    by (simp add: bit_from_le)
qed

lemma length_le_array [simp]: "length (concat (map (\<lambda>b. le_bytes (f b)) xs)) = 8 * length xs"
  by (induction xs) simp_all

lemma of_nat_u64_inject: "i < 2 ^ 64 \<Longrightarrow> j < 2 ^ 64 \<Longrightarrow> (of_nat i :: u64) = of_nat j \<longleftrightarrow> i = j"
  by (metis unat_of_nat_u64)

lemma distinct_region: "n \<le> 2 ^ 64 \<Longrightarrow> distinct (region b n)"
  by (auto simp: region_def distinct_map inj_on_def of_nat_u64_inject)

lemma stores_other: "a \<notin> set as \<Longrightarrow> stores m as bs a = m a"
  by (induction m as bs rule: stores.induct) auto

lemma stores_same: "distinct as \<Longrightarrow> length bs = length as \<Longrightarrow> map (stores m as bs) as = bs"
  by (induction m as bs rule: stores.induct) (auto simp: stores_other)

lemma map_stores_other: "set as \<inter> set cs = {} \<Longrightarrow> map (stores m as bs) cs = map m cs"
  by (auto intro!: stores_other simp: disjoint_iff)

lemma load_array_bytes: "map m (region p (8 * length xs)) = concat (map le_bytes xs) \<Longrightarrow> load_array m p (length xs) = xs"
proof (induction xs arbitrary: p)
  case (Cons x xs)
  have r: "region p (8 * length (x # xs)) = region p 8 @ region (p + 8) (8 * length xs)"
    using region_add [of p 8 "8 * length xs"] by simp
  with Cons.prems have here: "map m (region p 8) = le_bytes x"
    and rest: "map m (region (p + 8) (8 * length xs)) = concat (map le_bytes xs)" by simp_all
  have "load_array m p (length (x # xs)) = load64 m p # load_array m (p + 8) (length xs)"
  proof -
    have "[0..<length (x # xs)] = 0 # map Suc [0..<length xs]"
      by (simp add: map_Suc_upt upt_conv_Cons del: upt_Suc)
    then show ?thesis by (simp add: load_array_def comp_def algebra_simps del: upt_Suc)
  qed
  with here Cons.IH [OF rest] show ?case by (simp add: load64_def)
qed (simp add: load_array_def)

text \<open>The bytes of the caller's buffers.\<close>

definition buffer_bytes :: "(ptr \<Rightarrow> byte) \<Rightarrow> iovec list \<Rightarrow> byte list list" where
  "buffer_bytes m vs = map (\<lambda>(b, l). map m (region b (unat l))) vs"

lemma concat_buffer_bytes: "concat (buffer_bytes m vs) = map m (addrs vs)"
  by (induction vs) (auto simp: buffer_bytes_def addrs_def)

lemma buffer_lengths: "map (\<lambda>b. le_bytes (of_nat (length b))) (buffer_bytes m vs) = map (\<lambda>v. le_bytes (snd v)) vs"
  by (auto simp: buffer_bytes_def)

text \<open>The addresses of a message's local objects do not overlap each other or the buffers.\<close>

definition frame_apart :: "ptr \<Rightarrow> ptr \<Rightarrow> nat \<Rightarrow> ptr set \<Rightarrow> bool" where
  "frame_apart hdr lens n other \<longleftrightarrow> set (region hdr 16) \<inter> set (region lens (8 * n)) = {} \<and>
     (set (region hdr 16) \<union> set (region lens (8 * n))) \<inter> other = {}"

lemma write_message_ok:
  assumes "never_fails w" "16 + 8 * length vs + length (addrs vs) < 2 ^ 63" "length vs < 2 ^ 30"
    "frame_apart hdr lens (length vs) (set (addrs vs))"
  shows "\<exists>w'. write_message os_writev show_ptr peer hdr lens vs w = Some (return w') \<and>
    outgoing w' = outgoing w @ encode_message (buffer_bytes (mem w) vs) \<and> never_fails w' \<and>
    incoming w' = incoming w"
proof -
  let ?n = "of_nat (length vs) :: u64"
  let ?iovs = "[(hdr, 16), (lens, 8 * ?n)] @ vs"
  let ?len = "8 * length vs"
  let ?m1 = "store64 (hdr + 8) ?n (mem w)"
  let ?m2 = "store_array lens (map snd vs) ?m1"
  let ?m = "store64 hdr (sum_lengths ?iovs) ?m2"
  have n8: "unat (8 * ?n) = ?len"
    using assms(3) by (subst unat_mult_u64) (simp_all add: unat_of_nat_u64)
  have ad: "addrs ?iovs = region hdr 16 @ region lens ?len @ addrs vs" by (simp add: n8)
  have tot: "sum_lengths ?iovs = of_nat (16 + ?len + length (addrs vs))"
  proof -
    have "unat (sum_lengths ?iovs) = 16 + ?len + length (addrs vs)"
      using unat_sum_lengths [of ?iovs] assms(2) unfolding ad by simp
    then have "of_nat (unat (sum_lengths ?iovs)) = (of_nat (16 + ?len + length (addrs vs)) :: u64)" by (simp only:)
    then show ?thesis by simp
  qed
  have split: "region hdr 16 = region hdr 8 @ region (hdr + 8) 8" using region_add [of hdr 8 8] by simp
  have d: "distinct (region hdr 16)" "distinct (region lens ?len)" "distinct (region hdr 8)" "distinct (region (hdr + 8) 8)"
    using assms(3) by (auto intro: distinct_region)
  have ap: "set (region hdr 8) \<inter> set (region (hdr + 8) 8) = {}" using d(1) unfolding split by simp
  have ap2: "set (region hdr 8) \<inter> set (region lens ?len) = {}" "set (region (hdr + 8) 8) \<inter> set (region lens ?len) = {}"
    "set (region hdr 8) \<inter> set (addrs vs) = {}" "set (region (hdr + 8) 8) \<inter> set (addrs vs) = {}"
    "set (region lens ?len) \<inter> set (addrs vs) = {}"
    using assms(4) unfolding frame_apart_def split by auto
  have head: "map ?m (region hdr 8) = le_bytes (sum_lengths ?iovs)"
    unfolding store64_def by (rule stores_same) (simp_all add: d)
  have num: "map ?m (region (hdr + 8) 8) = le_bytes ?n"
  proof -
    have "map ?m (region (hdr + 8) 8) = map ?m2 (region (hdr + 8) 8)"
      unfolding store64_def [of hdr] by (rule map_stores_other [OF ap])
    also have "\<dots> = map ?m1 (region (hdr + 8) 8)"
      unfolding store_array_def using ap2(2) by (intro map_stores_other) auto
    also have "\<dots> = le_bytes ?n" unfolding store64_def by (rule stores_same) (simp_all add: d)
    finally show ?thesis .
  qed
  have lengths: "map ?m (region lens ?len) = concat (map (\<lambda>v. le_bytes (snd v)) vs)"
  proof -
    have "map ?m (region lens ?len) = map ?m2 (region lens ?len)"
      unfolding store64_def [of hdr] by (rule map_stores_other [OF ap2(1)])
    also have "\<dots> = concat (map le_bytes (map snd vs))"
      unfolding store_array_def using d(2) by (simp add: stores_same comp_def)
    finally show ?thesis by (simp add: comp_def)
  qed
  have user: "map ?m (addrs vs) = map (mem w) (addrs vs)"
  proof -
    have "map ?m (addrs vs) = map ?m2 (addrs vs)"
      unfolding store64_def [of hdr] by (rule map_stores_other [OF ap2(3)])
    also have "\<dots> = map ?m1 (addrs vs)"
      unfolding store_array_def using ap2(5) by (intro map_stores_other) auto
    also have "\<dots> = map (mem w) (addrs vs)" unfolding store64_def by (rule map_stores_other [OF ap2(4)])
    finally show ?thesis .
  qed
  have "addrs (take UIO_MAXIOV ?iovs) \<noteq> []" by (simp add: UIO_MAXIOV_def region_def)
  moreover have "length (addrs ?iovs) < 2 ^ 63" using assms(2) unfolding ad by simp
  moreover have "length ?iovs < 2 ^ 31" using assms(3) by simp
  moreover have "never_fails (w\<lparr>mem := ?m\<rparr>)" using assms(1) by (simp add: never_fails_def)
  ultimately obtain w' where w': "socket_writev os_writev show_ptr peer ?iovs (w\<lparr>mem := ?m\<rparr>) =
      Some (return (of_nat (length (addrs ?iovs)), ?iovs, w'))"
    "outgoing w' = outgoing w @ map ?m (addrs ?iovs)" "never_fails w'" "incoming w' = incoming w"
    using wr.readwritev_completes [of ?iovs "w\<lparr>mem := ?m\<rparr>" UIO_MAXIOV show_ptr peer]
    by (auto simp: socket_writev_def UIO_MAXIOV_def written_def)
  have "length (addrs ?iovs) = 16 + ?len + length (addrs vs)" unfolding ad by simp
  then have res: "write_message os_writev show_ptr peer hdr lens vs w = Some (return w')"
    using w'(1) tot by (simp add: write_message_def Let_def)
  have bytes: "map ?m (addrs ?iovs) = le_bytes (sum_lengths ?iovs) @ le_bytes ?n @
      concat (map (\<lambda>v. le_bytes (snd v)) vs) @ map (mem w) (addrs vs)"
    unfolding ad split map_append head num lengths user by simp
  have "outgoing w' = outgoing w @ encode_message (buffer_bytes (mem w) vs)"
    unfolding w'(2) bytes unfolding tot
    by (simp add: encode_message_def concat_buffer_bytes buffer_lengths) (simp add: buffer_bytes_def)
  with res w'(3,4) show ?thesis by blast
qed

text \<open>C3. \<open>write_message\<close> on a connection that does not fail sends exactly the encoding of the blocks:
  header, lengths, then the blocks' bytes in order; it logs nothing.\<close>

theorem write_message_sends_encoding:
  assumes "never_fails w" "16 + 8 * length vs + length (addrs vs) < 2 ^ 63" "length vs < 2 ^ 30"
    "frame_apart hdr lens (length vs) (set (addrs vs))"
  shows "\<exists>w'. write_message os_writev show_ptr peer hdr lens vs w = Some (return w') \<and>
    outgoing w' = outgoing w @ encode_message (buffer_bytes (mem w) vs)"
  using write_message_ok [OF assms] by blast

theorem write_message_sends_encoding_witness:
  "\<exists>w'. write_message os_writev (\<lambda>_. []) ''peer'' 1000 2000 [(100, 3), (200, 2)]
      \<lparr>mem = ucast, outgoing = [], incoming = [], script = [Moves 7]\<rparr> = Some (return w') \<and>
    outgoing w' = encode_message [[100, 101, 102], [200, 201]]"
proof -
  let ?w = "\<lparr>mem = ucast, outgoing = [], incoming = [], script = [Moves 7]\<rparr>"
  have r: "region 100 3 = [100, 101, 102]" "region 200 2 = [200, 201]"
    "region 1000 16 = [1000, 1001, 1002, 1003, 1004, 1005, 1006, 1007, 1008, 1009, 1010, 1011, 1012, 1013, 1014, 1015]"
    "region 2000 16 = [2000, 2001, 2002, 2003, 2004, 2005, 2006, 2007, 2008, 2009, 2010, 2011, 2012, 2013, 2014, 2015]"
    by (simp_all add: region_def upt_rec)
  have "frame_apart 1000 2000 (length [(100, 3 :: u64), (200 :: ptr, 2)]) (set (addrs [(100, 3), (200, 2)]))"
    by (simp add: frame_apart_def r)
  from write_message_sends_encoding [OF _ _ _ this, of ?w "\<lambda>_. []" "''peer''"] show ?thesis
    by (simp add: never_fails_def r buffer_bytes_def)
qed

section \<open>What the receiver makes of it\<close>

lemma read_le_array:
  assumes "map m (region p 8) = le_bytes x"
  shows "load64 m p = x"
  using assms by (simp add: load64_def)

lemma length_encode: "length (encode_message bs) = 16 + 8 * length bs + length (concat bs)"
  by (simp add: encode_message_def)

lemma sum_block_lengths: "sum_list (map (\<lambda>b. of_nat (length b) :: u64) bs) = of_nat (length (concat bs))"
  by (induction bs) simp_all

lemma read_message_ok:
  assumes "never_fails w" "incoming w = encode_message bs @ rest" "length (encode_message bs) < 2 ^ 60"
    "frame_apart hdr lens (length bs) {}"
  shows "\<exists>w'. read_message os_read peer hdr lens w =
      Some (return (Some \<lparr>num_blocks = map (\<lambda>b. of_nat (length b)) bs, current_block_index = 0\<rparr>, w')) \<and>
    incoming w' = concat bs @ rest \<and> outgoing w' = outgoing w \<and> never_fails w'"
proof -
  let ?n = "length bs"
  let ?tot = "of_nat (16 + 8 * ?n + length (concat bs)) :: u64"
  let ?arr = "concat (map (\<lambda>b. le_bytes (of_nat (length b))) bs)"
  have n: "?n < 2 ^ 57" using assms(3) by (simp add: length_encode)
  have inc: "incoming w = (le_bytes ?tot @ le_bytes (of_nat ?n)) @ ?arr @ concat bs @ rest"
    using assms(2) by (simp add: encode_message_def)
  obtain w1 where w1: "socket_read os_read peer hdr 16 w = Some (return (16, w1))"
    "mem w1 = stores (mem w) (region hdr 16) (take 16 (incoming w))" "incoming w1 = drop 16 (incoming w)"
    "outgoing w1 = outgoing w" "never_fails w1"
    by (rule socket_read_ok [OF assms(1), of 16 peer hdr]) (simp_all add: inc)
  have split: "region hdr 16 = region hdr 8 @ region (hdr + 8) 8" using region_add [of hdr 8 8] by simp
  have "map (mem w1) (region hdr 16) = le_bytes ?tot @ le_bytes (of_nat ?n)"
    unfolding w1(2) by (rule trans [OF stores_same]) (simp_all add: inc distinct_region)
  then have hd: "map (mem w1) (region hdr 8) = le_bytes ?tot" "load64 (mem w1) (hdr + 8) = of_nat ?n"
    unfolding split by (simp_all add: load64_def)
  have un: "unat (of_nat ?n :: u64) = ?n" "unat (of_nat ?n * 8 :: u64) = 8 * ?n"
    using n by (simp_all add: unat_of_nat_u64 unat_mult_u64)
  let ?w2 = "w1\<lparr>mem := store_array lens (replicate ?n 0) (mem w1)\<rparr>"
  have mw2: "mem ?w2 = store_array lens (replicate ?n 0) (mem w1)" by simp
  have nf: "never_fails ?w2" using w1(5) by (simp add: never_fails_def)
  obtain w3 where w3: "socket_read os_read peer lens (of_nat ?n * 8) ?w2 = Some (return (of_nat ?n * 8, w3))"
    "mem w3 = stores (mem ?w2) (region lens (8 * ?n)) (take (8 * ?n) (incoming ?w2))"
    "incoming w3 = drop (8 * ?n) (incoming ?w2)" "outgoing w3 = outgoing ?w2" "never_fails w3"
    by (rule socket_read_ok [OF nf, of "of_nat ?n * 8" peer lens]) (use n un inc w1(3) in simp_all)
  have "map (mem w3) (region lens (8 * ?n)) = ?arr"
    unfolding w3(2) by (rule trans [OF stores_same]) (use n in \<open>simp_all add: inc w1(3) distinct_region\<close>)
  then have arr: "load_array (mem w3) lens ?n = map (\<lambda>b. of_nat (length b)) bs"
    using load_array_bytes [of "mem w3" lens "map (\<lambda>b. of_nat (length b)) bs"] by (simp add: comp_def)
  have "map (mem w3) (region hdr 8) = map (mem ?w2) (region hdr 8)"
    unfolding w3(2) by (rule map_stores_other) (use assms(4) in \<open>auto simp: frame_apart_def split\<close>)
  also have "\<dots> = map (mem w1) (region hdr 8)"
    unfolding mw2 unfolding store_array_def by (rule map_stores_other) (use assms(4) in \<open>auto simp: frame_apart_def split\<close>)
  finally have hd3: "load64 (mem w3) hdr = ?tot" using hd(1) by (simp add: load64_def)
  let ?r = "\<lparr>num_blocks = map (\<lambda>b. of_nat (length b)) bs, current_block_index = 0\<rparr>"
  have small: "\<not> (2 ^ 60 :: u64) \<le> of_nat ?n"
    using n by (simp add: word_le_nat_alt un(1))
  have "new_MessageReader os_read peer lens (of_nat ?n) w1 = Some (return (?r, w3))"
    unfolding new_MessageReader_def Let_def if_not_P [OF small] un(1) w3(1) by (simp add: arr)
  moreover have "get_total_length ?r + 16 + get_num_blocks ?r * 8 = ?tot"
    by (simp add: get_total_length_def get_num_blocks_def sum_block_lengths)
  ultimately have "read_message os_read peer hdr lens w = Some (return (Some ?r, w3))"
    unfolding read_message_def w1(1) by (simp add: hd(2) hd3)
  moreover have "incoming w3 = concat bs @ rest" unfolding w3(3) by (simp add: w1(3) inc)
  ultimately show ?thesis using w3(4,5) w1(4) by auto
qed

text \<open>C4. \<open>read_message\<close> on a stream that starts with an encoded message returns a reader that knows the
  lengths of all the blocks, leaves the stream at the first byte of the first block, and passes the
  header's consistency check: nothing is logged.\<close>

theorem read_message_decodes:
  assumes "never_fails w" "incoming w = encode_message bs @ rest" "length (encode_message bs) < 2 ^ 60"
    "frame_apart hdr lens (length bs) {}"
  shows "\<exists>w'. read_message os_read peer hdr lens w =
      Some (return (Some \<lparr>num_blocks = map (\<lambda>b. of_nat (length b)) bs, current_block_index = 0\<rparr>, w')) \<and>
    incoming w' = concat bs @ rest \<and> outgoing w' = outgoing w"
proof -
  from read_message_ok [OF assms, of peer] show ?thesis by auto
qed

lemma frame_1000_2000:
  "frame_apart 1000 2000 1 {}" "frame_apart 1000 2000 2 {}" "frame_apart 1000 2000 (Suc 0) {}"
  "frame_apart 1000 2000 (Suc (Suc 0)) {}"
  by (simp_all add: frame_apart_def region_def upt_rec)

theorem read_message_decodes_witness:
  "\<exists>w'. read_message os_read ''peer'' 1000 2000
      \<lparr>mem = (\<lambda>_. 0), outgoing = [], incoming = encode_message [[1, 2], [3]] @ [9], script = [Moves 5]\<rparr> =
    Some (return (Some \<lparr>num_blocks = [2, 1], current_block_index = 0\<rparr>, w')) \<and> incoming w' = [1, 2, 3, 9]"
  using read_message_decodes [of "\<lparr>mem = (\<lambda>_. 0), outgoing = [], incoming = encode_message [[1, 2], [3]] @ [9], script = [Moves 5]\<rparr>"
    "[[1, 2], [3]]" "[9]" 1000 2000 "''peer''"] frame_1000_2000(4)
  by (auto simp: never_fails_def length_encode)

section \<open>The block lengths are off by one\<close>

lemma get_next_block_length_last:
  "current_block_index r + 1 \<ge> length (num_blocks r) \<Longrightarrow> get_next_block_length r = fail OutOfBounds"
  by (simp add: get_next_block_length_def get_block_length_def)

lemma read_next_block_ok:
  assumes "never_fails w" "k = current_block_index r" "k + 1 < length (num_blocks r)"
    "l = num_blocks r ! (k + 1)" "unat l < 2 ^ 63" "unat l \<le> length (incoming w)"
  obtains w' where "read_next_block os_read peer buf r w = Some (return (r\<lparr>current_block_index := k + 1\<rparr>, w'))"
    "incoming w' = drop (unat l) (incoming w)"
    "mem w' = stores (mem w) (region buf (unat l)) (take (unat l) (incoming w))"
    "outgoing w' = outgoing w" "never_fails w'"
proof -
  obtain w' where "socket_read os_read peer buf l w = Some (return (l, w'))"
    "mem w' = stores (mem w) (region buf (unat l)) (take (unat l) (incoming w))"
    "incoming w' = drop (unat l) (incoming w)" "outgoing w' = outgoing w" "never_fails w'"
    by (rule socket_read_ok [OF assms(1,5,6)])
  with assms that show ?thesis
    by (simp add: read_next_block_def get_next_block_length_def get_block_length_def)
qed

text \<open>The last block of a message can never be read: \<open>get_block_length\<close> uses
  \<open>_current_block_index + 1\<close> as its index, whatever \<open>i\<close> it is given, so the reader indexes past the
  end of the vector of lengths. A message of one block, which is what a server's reply to a
  function is, is received as a header and then faults in \<open>read_next_block\<close> and in
  \<open>read_blocks\<close>.\<close>

theorem single_block_unreadable:
  assumes "never_fails w" "incoming w = encode_message [b] @ rest" "length b < 2 ^ 59"
    "frame_apart hdr lens 1 {}"
  shows "\<exists>r w'. read_message os_read peer hdr lens w = Some (return (Some r, w')) \<and>
    get_num_blocks r = 1 \<and> get_total_length r = of_nat (length b) \<and>
    read_next_block sys_read peer buf r w' = Some (fail OutOfBounds) \<and>
    read_blocks sys_readv show_ptr peer [buf] r w' = Some (fail OutOfBounds)"
proof -
  let ?r = "\<lparr>num_blocks = map (\<lambda>b. of_nat (length b)) [b], current_block_index = 0\<rparr>"
  obtain w' where "read_message os_read peer hdr lens w = Some (return (Some ?r, w'))"
  proof -
    have "length (encode_message [b]) < 2 ^ 60" using assms(3) by (simp add: length_encode)
    moreover have "frame_apart hdr lens (length [b]) {}" using assms(4) by simp
    ultimately show thesis using read_message_ok [OF assms(1,2), of hdr lens peer] that by blast
  qed
  moreover have "get_next_block_length ?r = fail OutOfBounds" by (rule get_next_block_length_last) simp
  then have "read_next_block sys_read peer buf ?r w' = Some (fail OutOfBounds)"
    "read_blocks sys_readv show_ptr peer [buf] ?r w' = Some (fail OutOfBounds)"
    by (simp_all add: read_next_block_def read_blocks_def)
  moreover have "get_num_blocks ?r = 1" "get_total_length ?r = of_nat (length b)"
    by (simp_all add: get_num_blocks_def get_total_length_def)
  ultimately show ?thesis by blast
qed

theorem single_block_unreadable_witness:
  "\<exists>r w'. read_message os_read ''peer'' 1000 2000
      \<lparr>mem = (\<lambda>_. 0), outgoing = [], incoming = encode_message [[1, 2]], script = []\<rparr> = Some (return (Some r, w')) \<and>
    read_next_block os_read ''peer'' 5000 r w' = Some (fail OutOfBounds)"
  using single_block_unreadable [of "\<lparr>mem = (\<lambda>_. 0), outgoing = [], incoming = encode_message [[1, 2]], script = []\<rparr>"
    "[1, 2]" "[]" 1000 2000 "''peer''" os_read 5000 os_readv "\<lambda>_. []"] frame_1000_2000(1)
  by (auto simp: never_fails_def)

text \<open>Of a message of two blocks, \<open>read_next_block\<close> reads the first with the length of the second:
  the buffer gets that many bytes (too few, or more than it was made for), and the stream is left
  inside a block unless the two lengths are equal.\<close>

theorem first_block_read_with_second_length:
  assumes "never_fails w" "incoming w = encode_message [a, b] @ rest" "length a + length b < 2 ^ 59"
    "frame_apart hdr lens 2 {}" "length b \<le> length (a @ b @ rest)"
  shows "\<exists>r w1 r' w2. read_message os_read peer hdr lens w = Some (return (Some r, w1)) \<and>
    incoming w1 = a @ b @ rest \<and>
    read_next_block os_read peer buf r w1 = Some (return (r', w2)) \<and>
    incoming w2 = drop (length b) (a @ b @ rest) \<and>
    mem w2 = stores (mem w1) (region buf (length b)) (take (length b) (a @ b @ rest))"
proof -
  let ?r = "\<lparr>num_blocks = map (\<lambda>b. of_nat (length b)) [a, b], current_block_index = 0\<rparr>"
  let ?l = "of_nat (length b) :: u64"
  obtain w1 where w1: "read_message os_read peer hdr lens w = Some (return (Some ?r, w1))"
    "incoming w1 = a @ b @ rest" "never_fails w1"
  proof -
    have "length (encode_message [a, b]) < 2 ^ 60" using assms(3) by (simp add: length_encode)
    moreover have "frame_apart hdr lens (length [a, b]) {}" using assms(4) by (simp add: numeral_2_eq_2)
    ultimately show thesis using read_message_ok [OF assms(1,2), of hdr lens peer] that by auto
  qed
  have u: "unat ?l = length b" using assms(3) by (intro unat_of_nat_u64) simp
  obtain w2 where "read_next_block os_read peer buf ?r w1 = Some (return (?r\<lparr>current_block_index := 0 + 1\<rparr>, w2))"
    "incoming w2 = drop (unat ?l) (incoming w1)"
    "mem w2 = stores (mem w1) (region buf (unat ?l)) (take (unat ?l) (incoming w1))"
    by (rule read_next_block_ok [OF w1(3), of 0 ?r ?l peer buf]) (use assms(3) u w1(2) in simp_all)
  with w1 u show ?thesis by auto
qed

theorem first_block_read_with_second_length_witness:
  "\<exists>r w1 r' w2. read_message os_read ''peer'' 1000 2000
      \<lparr>mem = (\<lambda>_. 0), outgoing = [], incoming = encode_message [[1], [2, 3]], script = []\<rparr> = Some (return (Some r, w1)) \<and>
    read_next_block os_read ''peer'' 5000 r w1 = Some (return (r', w2)) \<and> incoming w2 = [3]"
  using first_block_read_with_second_length [of "\<lparr>mem = (\<lambda>_. 0), outgoing = [], incoming = encode_message [[1], [2, 3]], script = []\<rparr>"
    "[1]" "[2, 3]" "[]" 1000 2000 "''peer''" 5000] frame_1000_2000(2)
  by (auto simp: never_fails_def)

text \<open>The destructor of a reader only checks that all blocks have been read: the bytes of unread
  blocks stay in the stream, and the next \<open>read_message\<close> takes them for a header. A block that itself
  looks like a message is then received as one.\<close>

theorem unread_block_becomes_message:
  assumes "never_fails w" "incoming w = encode_message [encode_message cs] @ rest"
    "length (encode_message cs) < 2 ^ 59" "frame_apart hdr lens 1 {}" "frame_apart hdr lens (length cs) {}"
  shows "\<exists>r w1 msg w2. read_message os_read peer hdr lens w = Some (return (Some r, w1)) \<and>
    destroy_MessageReader r = ([LogRecord FATAL msg], Inr ()) \<and>
    read_message os_read peer hdr lens w1 = Some (return
      (Some \<lparr>num_blocks = map (\<lambda>b. of_nat (length b)) cs, current_block_index = 0\<rparr>, w2))"
proof -
  let ?b = "encode_message cs"
  let ?r = "\<lparr>num_blocks = map (\<lambda>b. of_nat (length b)) [?b], current_block_index = 0\<rparr>"
  have "length (encode_message [?b]) < 2 ^ 60" using assms(3) by (simp add: length_encode)
  moreover have "frame_apart hdr lens (length [?b]) {}" using assms(4) by simp
  ultimately obtain w1 where w1: "read_message os_read peer hdr lens w = Some (return (Some ?r, w1))"
    "incoming w1 = ?b @ rest" "never_fails w1"
    using read_message_ok [OF assms(1,2), of hdr lens peer] by auto
  have "length ?b < 2 ^ 60" using assms(3) by simp
  from read_message_ok [OF w1(3,2) this assms(5), of peer] w1(1) show ?thesis
    by (intro exI [of _ ?r] exI [of _ w1]) (auto simp: destroy_MessageReader_def cc_check_def)
qed

theorem unread_block_becomes_message_witness:
  "\<exists>r w1 w2. read_message os_read ''peer'' 1000 2000
      \<lparr>mem = (\<lambda>_. 0), outgoing = [], incoming = encode_message [encode_message [[1, 2]]], script = []\<rparr> = Some (return (Some r, w1)) \<and>
    read_message os_read ''peer'' 1000 2000 w1 = Some (return (Some \<lparr>num_blocks = [2], current_block_index = 0\<rparr>, w2))"
  using unread_block_becomes_message [of "\<lparr>mem = (\<lambda>_. 0), outgoing = [], incoming = encode_message [encode_message [[1, 2]]], script = []\<rparr>"
    "[[1, 2]]" "[]" 1000 2000 "''peer''"] frame_1000_2000
  by (auto simp: never_fails_def length_encode)

section \<open>A message that is not sent\<close>

text \<open>When the first system call of \<open>write_message\<close> fails, the method logs two messages and
  returns as if the message had been sent; the peer has received nothing.\<close>

theorem failed_write_message_returns:
  assumes "script w = Fails # sc" "16 + 8 * length vs + length (addrs vs) < 2 ^ 63" "length vs < 2 ^ 30"
  shows "\<exists>msg msg' w'. write_message os_writev show_ptr peer hdr lens vs w =
      Some ([LogRecord FATAL msg, LogRecord FATAL msg'], Inr w') \<and> outgoing w' = outgoing w"
proof -
  let ?n = "of_nat (length vs) :: u64"
  let ?iovs = "[(hdr, 16), (lens, 8 * ?n)] @ vs"
  have n8: "unat (8 * ?n) = 8 * length vs"
    using assms(3) by (subst unat_mult_u64) (simp_all add: unat_of_nat_u64)
  have len: "length (addrs ?iovs) = 16 + 8 * length vs + length (addrs vs)" by (simp add: n8)
  then have tot: "unat (sum_lengths ?iovs) = 16 + 8 * length vs + length (addrs vs)"
    using unat_sum_lengths [of ?iovs] assms(2) by simp
  then have pos: "0 < sum_lengths ?iovs" by (simp add: word_less_nat_alt)
  let ?w1 = "w\<lparr>mem := store64 hdr (sum_lengths ?iovs) (store_array lens (map snd vs) (store64 (hdr + 8) ?n (mem w)))\<rparr>"
  obtain msg where f: "socket_writev os_writev show_ptr peer ?iovs ?w1 =
      Some ([LogRecord FATAL msg], Inr (- 1, ?iovs, ?w1\<lparr>script := sc\<rparr>))"
    using failed_first_write [of ?w1 sc ?iovs show_ptr peer] assms pos len by auto
  have "unat (- 1 :: u64) = 2 ^ 64 - 1" by (simp add: unsigned_minus_1_eq_mask mask_eq_exp_minus_1)
  with tot assms(2) have "(- 1 :: u64) \<noteq> sum_lengths ?iovs" by (intro notI) simp
  with f show ?thesis
    by (simp add: write_message_def Let_def obind_Inr cc_check_def return_def)
qed

theorem failed_write_message_returns_witness:
  "\<exists>msg msg' w'. write_message os_writev (\<lambda>_. []) ''peer'' 1000 2000 [(100, 3)]
      \<lparr>mem = (\<lambda>_. 0), outgoing = [], incoming = [], script = [Fails]\<rparr> =
    Some ([LogRecord FATAL msg, LogRecord FATAL msg'], Inr w') \<and> outgoing w' = []"
  using failed_write_message_returns [of "\<lparr>mem = (\<lambda>_. 0), outgoing = [], incoming = [], script = [Fails]\<rparr>"
    "[]" "[(100, 3)]"
    "\<lambda>_. []" "''peer''" 1000 2000]
  by (simp add: two_buffers)

end
