(* ===== verification/ProtoServer.thy ===== *)
theory ProtoServer
  imports Message
begin

text \<open>
  core/ProtoServer.h and .cpp: remote procedure calls over framed messages. Protocol buffers are
  outside the repository: \<open>serialize\<close> and \<open>parse\<close> are the two library calls, each returning the
  library's success flag and its output. Strings that a system call reads into or writes from have
  addresses, given with the channel. A service function takes the reader, the response callback and
  the state of the connection.
\<close>

record channel =
  channel_peer :: string
  show_address :: "ptr \<Rightarrow> string"   \<comment> \<open>the stream's printing of a pointer\<close>
  header_at :: ptr                   \<comment> \<open>the message header of the call in progress\<close>
  lengths_at :: ptr                  \<comment> \<open>its vector of block lengths\<close>
  string_at :: ptr                   \<comment> \<open>the string the next block is read into\<close>
  proto_at :: ptr                    \<comment> \<open>the serialized protocol buffer\<close>

type_synonym response_callback = "iovec list \<Rightarrow> os \<Rightarrow> os run option"
type_synonym service = "message_reader \<Rightarrow> response_callback \<Rightarrow> os \<Rightarrow> os run option"

definition log_error :: "severity \<Rightarrow> string \<Rightarrow> unit run option" where
  "log_error s msg = Some (log_msg s msg)"

definition check :: "string \<Rightarrow> bool \<Rightarrow> unit run option" where
  "check msg c = Some (cc_check msg c)"

definition channel_write :: "channel \<Rightarrow> iovec list \<Rightarrow> os \<Rightarrow> os run option" where
  "channel_write c vs w = write_message os_writev (show_address c) (channel_peer c) (header_at c) (lengths_at c) vs w"

definition channel_read :: "channel \<Rightarrow> os \<Rightarrow> (message_reader option \<times> os) run option" where
  "channel_read c w = read_message os_read (channel_peer c) (header_at c) (lengths_at c) w"

text \<open>\<open>std::string str(reader->get_next_block_length(), 0); reader->read_next_block(&str[0])\<close>. A string
  longer than \<open>max_size()\<close> throws; memory for a shorter one is assumed.\<close>

definition max_string_size :: nat where
  "max_string_size = 2 ^ 63 - 2"

definition read_string :: "channel \<Rightarrow> message_reader \<Rightarrow> os \<Rightarrow> (byte list \<times> message_reader \<times> os) run option" where
  "read_string c r w =
     obind (Some (get_next_block_length r)) (\<lambda>len.
     if unat len > max_string_size then Some (fail Exception)
     else (let at_str = region (string_at c) (unat len);
          w1 = w\<lparr>mem := stores (mem w) at_str (replicate (unat len) 0)\<rparr>
      in obind (read_next_block os_read (channel_peer c) (string_at c) r w1) (\<lambda>(r', w2).
         Some (return (map (mem w2) at_str, r', w2)))))"

section \<open>The server\<close>

definition bytes_to_string :: "byte list \<Rightarrow> string" where
  "bytes_to_string bs = map (\<lambda>b. char_of (unat b)) bs"

definition handle_request :: "channel \<Rightarrow> (byte list \<Rightarrow> service option) \<Rightarrow> message_reader \<Rightarrow> response_callback
    \<Rightarrow> os \<Rightarrow> os run option" where
  "handle_request c fmap r callback w =
     obind (check ''Check failed:(message_reader->get_num_blocks()) >= ((size_t)2) '' (2 \<le> get_num_blocks r)) (\<lambda>_.
     obind (read_string c r w) (\<lambda>(function_name, r', w1).
     case fmap function_name of
       Some f \<Rightarrow> f r' callback w1
     | None \<Rightarrow>
         obind (log_error ERROR (''Unknown function_name: '' @ bytes_to_string function_name)) (\<lambda>_.
         obind (callback [] w1) (\<lambda>w2.
         obind (Some (destroy_MessageReader r')) (\<lambda>_. Some (return w2))))))"

definition register_service_function_implement ::
  "byte list \<Rightarrow> service \<Rightarrow> (byte list \<Rightarrow> service option) \<Rightarrow> (byte list \<Rightarrow> service option) run" where
  "register_service_function_implement name f fmap =
     bind (cc_check (''Check failed:!_name_to_function_map.count(function_name) Duplicated registration: '' @ bytes_to_string name)
       (fmap name = None)) (\<lambda>_. return (fmap(name := Some f)))"

text \<open>The callback handed to the user's function: serialize the response (at \<open>proto_at\<close>) and send it
  with the extra buffers.\<close>

definition respond :: "channel \<Rightarrow> ('resp \<Rightarrow> bool \<times> byte list) \<Rightarrow> response_callback \<Rightarrow> 'resp \<Rightarrow> iovec list \<Rightarrow> os \<Rightarrow> os run option" where
  "respond c serialize callback response output_iovs w =
     (case serialize response of (ok, out) \<Rightarrow>
      obind (check ''Check failed:response.SerializeToString(&out) '' ok) (\<lambda>_.
      (let w1 = w\<lparr>mem := stores (mem w) (region (proto_at c) (length out)) out\<rparr>
       in callback ((proto_at c, of_nat (length out)) # output_iovs) w1)))"

text \<open>The wrapper \<open>register_service_function_ex\<close> puts around the user's function, which is given the
  request, the reader and the response callback.\<close>

definition service_ex :: "channel \<Rightarrow> (byte list \<Rightarrow> bool \<times> 'req) \<Rightarrow> ('resp \<Rightarrow> bool \<times> byte list)
    \<Rightarrow> ('req \<Rightarrow> message_reader \<Rightarrow> ('resp \<Rightarrow> iovec list \<Rightarrow> os \<Rightarrow> os run option) \<Rightarrow> os \<Rightarrow> os run option) \<Rightarrow> service" where
  "service_ex c parse serialize func r callback w =
     obind (read_string c r w) (\<lambda>(str, r', w1).
     case parse str of (ok, request) \<Rightarrow>
     obind (check ''Check failed:request.ParseFromString(str) '' ok) (\<lambda>_.
       func request r' (respond c serialize callback) w1))"

text \<open>The wrapper of \<open>register_service_function\<close>: the reader is destroyed before the call.\<close>

definition service_plain :: "channel \<Rightarrow> (byte list \<Rightarrow> bool \<times> 'req) \<Rightarrow> ('resp \<Rightarrow> bool \<times> byte list)
    \<Rightarrow> ('req \<Rightarrow> ('resp \<Rightarrow> os \<Rightarrow> os run option) \<Rightarrow> os \<Rightarrow> os run option) \<Rightarrow> service" where
  "service_plain c parse serialize func r callback w =
     obind (read_string c r w) (\<lambda>(str, r', w1).
     case parse str of (ok, request) \<Rightarrow>
     obind (check ''Check failed:request.ParseFromString(str) '' ok) (\<lambda>_.
     obind (Some (destroy_MessageReader r')) (\<lambda>_.
       func request (\<lambda>response. respond c serialize callback response []) w1)))"

definition register_service_function_ex where
  "register_service_function_ex c parse serialize name func fmap =
     register_service_function_implement name (service_ex c parse serialize func) fmap"

definition register_service_function where
  "register_service_function c parse serialize name func fmap =
     register_service_function_implement name (service_plain c parse serialize func) fmap"

section \<open>The client\<close>

text \<open>\<open>function_name\<close> is a C string at an address; \<open>strlen\<close> of it is given.\<close>

definition client_send :: "channel \<Rightarrow> ('req \<Rightarrow> bool \<times> byte list) \<Rightarrow> iovec \<Rightarrow> 'req \<Rightarrow> iovec list \<Rightarrow> os \<Rightarrow> os run option" where
  "client_send c serialize function_name proto user_iov w =
     (case serialize proto of (ok, proto_string) \<Rightarrow>
      obind (check ''Check failed:proto.SerializeToString(&proto_string) '' ok) (\<lambda>_.
      (let w1 = w\<lparr>mem := stores (mem w) (region (proto_at c) (length proto_string)) proto_string\<rparr>
       in channel_write c ([function_name, (proto_at c, of_nat (length proto_string))] @ user_iov) w1)))"

definition client_recv :: "channel \<Rightarrow> (byte list \<Rightarrow> bool \<times> 'resp) \<Rightarrow> os \<Rightarrow> ('resp \<times> message_reader \<times> os) run option" where
  "client_recv c parse w =
     obind (channel_read c w) (\<lambda>(reader, w1).
     case reader of
       None \<Rightarrow> Some (fail NullDeref)
     | Some r \<Rightarrow>
         obind (check ''Check failed:(message_reader->get_num_blocks()) >= ((size_t)1) '' (1 \<le> get_num_blocks r)) (\<lambda>_.
         obind (read_string c r w1) (\<lambda>(str, r', w2).
         case parse str of (ok, proto) \<Rightarrow>
         obind (check ''Check failed:proto->ParseFromString(str) '' ok) (\<lambda>_.
           Some (return (proto, r', w2))))))"

definition send_recv :: "channel \<Rightarrow> ('req \<Rightarrow> bool \<times> byte list) \<Rightarrow> (byte list \<Rightarrow> bool \<times> 'resp)
    \<Rightarrow> (os \<Rightarrow> os) \<Rightarrow> iovec \<Rightarrow> 'req \<Rightarrow> iovec list \<Rightarrow> os \<Rightarrow> ('resp \<times> message_reader \<times> os) run option" where
  "send_recv c serialize parse peer_step function_name proto iovs w =
     obind (client_send c serialize function_name proto iovs w) (\<lambda>w1. client_recv c parse (peer_step w1))"

section \<open>Requests and replies\<close>

lemma obind_fail_iff: "obind (Some (l, Inl f)) k = Some (l, Inl f)"
  by (simp add: obind_def)

lemma check_True [simp]: "check msg True = Some (return ())"
  by (simp add: check_def)

lemma read_string_last:
  "current_block_index r + 1 \<ge> length (num_blocks r) \<Longrightarrow> read_string c r w = Some (fail OutOfBounds)"
  by (simp add: read_string_def get_next_block_length_last)

lemma read_string_ok:
  assumes "never_fails w" "k = current_block_index r" "k + 1 < length (num_blocks r)"
    "l = num_blocks r ! (k + 1)" "unat l < 2 ^ 62" "unat l \<le> length (incoming w)"
  obtains w' where "read_string c r w = Some (return (take (unat l) (incoming w), r\<lparr>current_block_index := k + 1\<rparr>, w'))"
    "incoming w' = drop (unat l) (incoming w)" "outgoing w' = outgoing w" "never_fails w'"
proof -
  let ?at = "region (string_at c) (unat l)"
  let ?w1 = "w\<lparr>mem := stores (mem w) ?at (replicate (unat l) 0)\<rparr>"
  have nf: "never_fails ?w1" using assms(1) by (simp add: never_fails_def)
  obtain w' where w': "read_next_block os_read (channel_peer c) (string_at c) r ?w1 =
      Some (return (r\<lparr>current_block_index := k + 1\<rparr>, w'))"
    "incoming w' = drop (unat l) (incoming ?w1)" "mem w' = stores (mem ?w1) ?at (take (unat l) (incoming ?w1))"
    "outgoing w' = outgoing ?w1" "never_fails w'"
    by (rule read_next_block_ok [OF nf assms(2-4)]) (use assms(5,6) in simp_all)
  have "map (mem w') ?at = take (unat l) (incoming w)"
    unfolding w'(3) using assms(5,6) by (subst stores_same) (simp_all add: distinct_region)
  with w' assms(2-5) that [of w'] show ?thesis
     by (simp add: read_string_def get_next_block_length_def get_block_length_def Let_def max_string_size_def)
qed

text \<open>Every service function starts by reading the request's protocol buffer.\<close>

lemma service_needs_third_block:
  assumes "current_block_index r + 1 \<ge> length (num_blocks r)"
  shows "service_plain c parse serialize func r callback w = Some (fail OutOfBounds)"
    "service_ex c parse serialize func' r callback w = Some (fail OutOfBounds)"
  by (simp_all add: service_plain_def service_ex_def read_string_last [OF assms])

definition reads_request :: "service \<Rightarrow> bool" where
  "reads_request f \<longleftrightarrow> (\<forall>r callback w. current_block_index r + 1 \<ge> length (num_blocks r) \<longrightarrow>
     f r callback w = Some (fail OutOfBounds))"

lemma services_read_request [simp]:
  "reads_request (service_plain c parse serialize func)" "reads_request (service_ex c parse serialize func')"
  by (simp_all add: reads_request_def service_needs_third_block)

text \<open>What one registration after another leaves in the map.\<close>

fun register_all :: "(byte list \<times> service) list \<Rightarrow> (byte list \<Rightarrow> service option) \<Rightarrow> (byte list \<Rightarrow> service option) run" where
  "register_all [] fmap = return fmap"
| "register_all ((name, f) # rs) fmap =
     bind (register_service_function_implement name f fmap) (register_all rs)"

text \<open>A second registration under a name logs a failed check and replaces the first: the map holds
  for every name the function registered last.\<close>

theorem last_registration_wins:
  "run_value (register_all rs fmap) = Inr (fmap ++ map_of (rev rs))"
proof (induction rs arbitrary: fmap)
  case (Cons nf rs)
  obtain name f where "nf = (name, f)" by (cases nf)
  moreover have "snd (register_all rs (fmap(name := Some f))) = Inr (fmap(name := Some f) ++ map_of (rev rs))"
    using Cons.IH unfolding run_value_def .
  ultimately show ?case
    by (simp only: register_all.simps register_service_function_implement_def bind_assoc run_value_def
        bind_return snd_bind_check) simp
qed (simp add: run_value_def)

text \<open>No remote call of two blocks (function name and protocol buffer) is ever carried out. The
  server reads the name with the length of the protocol buffer; if a function is registered under
  those bytes, its wrapper reads past the vector of block lengths, and otherwise the client is
  answered with a message of no blocks.\<close>

theorem two_block_request_not_served:
  assumes "never_fails w" "incoming w = encode_message [name, proto] @ rest"
    "length name + length proto < 2 ^ 59" "frame_apart (header_at c) (lengths_at c) 2 {}"
    "\<And>n f. fmap n = Some f \<Longrightarrow> reads_request f"
  shows "\<exists>r w1. channel_read c w = Some (return (Some r, w1)) \<and>
    (case fmap (take (length proto) (name @ proto @ rest)) of
       Some f \<Rightarrow> handle_request c fmap r (channel_write c) w1 = Some (fail OutOfBounds)
     | None \<Rightarrow> \<exists>msg w2. outgoing w2 = outgoing w @ encode_message [] \<and>
         handle_request c fmap r (channel_write c) w1 =
           Some ([LogRecord ERROR (''Unknown function_name: '' @
                   bytes_to_string (take (length proto) (name @ proto @ rest))), LogRecord FATAL msg], Inr w2))"
proof -
  let ?r = "\<lparr>num_blocks = [of_nat (length name), of_nat (length proto)], current_block_index = 0\<rparr>"
  let ?l = "of_nat (length proto) :: u64"
  let ?called = "take (length proto) (name @ proto @ rest)"
  have "length (encode_message [name, proto]) < 2 ^ 60" using assms(3) by (simp add: length_encode)
  moreover have "frame_apart (header_at c) (lengths_at c) (length [name, proto]) {}"
    using assms(4) by (simp add: numeral_2_eq_2)
  ultimately obtain w1 where w1: "channel_read c w = Some (return (Some ?r, w1))"
    "incoming w1 = name @ proto @ rest" "outgoing w1 = outgoing w" "never_fails w1"
    using read_message_ok [OF assms(1,2), of "header_at c" "lengths_at c" "channel_peer c"]
    by (auto simp: channel_read_def)
  have u: "unat ?l = length proto" using assms(3) by (intro unat_of_nat_u64) simp
  obtain w2 where w2: "read_string c ?r w1 = Some (return (?called, ?r\<lparr>current_block_index := 0 + 1\<rparr>, w2))"
    "outgoing w2 = outgoing w1" "never_fails w2"
    by (rule read_string_ok [OF w1(4), of 0 ?r ?l c]) (use assms(3) u w1(2) in simp_all)
  have two: "2 \<le> get_num_blocks ?r" by (simp add: get_num_blocks_def)
  show ?thesis
  proof (cases "fmap ?called")
    case (Some f)
    with assms(5) have "f (?r\<lparr>current_block_index := 1\<rparr>) cb w' = Some (fail OutOfBounds)" for cb w'
      by (simp add: reads_request_def)
    with Some w1 w2 two show ?thesis
      by (intro exI [of _ ?r] exI [of _ w1]) (simp add: handle_request_def)
  next
    case None
    have "frame_apart (header_at c) (lengths_at c) (length ([] :: iovec list)) (set (addrs []))"
      by (simp add: frame_apart_def region_def)
    from write_message_ok [OF w2(3) _ _ this, of "show_address c" "channel_peer c"] obtain w3 where
      w3: "channel_write c [] w2 = Some (return w3)" "outgoing w3 = outgoing w2 @ encode_message []"
      by (auto simp: channel_write_def buffer_bytes_def)
    have "destroy_MessageReader (?r\<lparr>current_block_index := 1\<rparr>) =
        ([LogRecord FATAL ''Check failed:(_current_block_index) == (_num_blocks.size()) ''], Inr ())"
      by (simp add: destroy_MessageReader_def cc_check_def)
    with None w1 w2 w3 two show ?thesis
      by (intro exI [of _ ?r] exI [of _ w1])
        (simp add: handle_request_def log_error_def log_msg_def obind_Inr return_def)
  qed
qed

text \<open>A channel for the examples, and a server with one function under the name \<open>[99, 100]\<close>.\<close>

definition sample_channel :: channel where
  "sample_channel = \<lparr>channel_peer = ''peer'', show_address = (\<lambda>_. []), header_at = 1000, lengths_at = 2000,
     string_at = 3000, proto_at = 4000\<rparr>"

definition echo :: service where
  "echo = service_plain sample_channel (\<lambda>bs. (True, bs)) (\<lambda>bs. (True, bs)) (\<lambda>request callback. callback request)"

theorem two_block_request_not_served_witness:
  "\<exists>r w1. channel_read sample_channel
      \<lparr>mem = (\<lambda>_. 0), outgoing = [], incoming = encode_message [[97, 98], [99, 100]], script = []\<rparr> =
      Some (return (Some r, w1)) \<and>
    handle_request sample_channel [[97, 98] \<mapsto> echo] r (channel_write sample_channel) w1 = Some (fail OutOfBounds)"
proof -
  let ?w = "\<lparr>mem = (\<lambda>_. 0), outgoing = [], incoming = encode_message [[97, 98], [99, 100]], script = []\<rparr>"
  have "frame_apart (header_at sample_channel) (lengths_at sample_channel) 2 {}"
    by (simp add: sample_channel_def frame_1000_2000)
  moreover have "\<And>n f. [[97, 98] \<mapsto> echo] n = Some f \<Longrightarrow> reads_request f"
    by (auto simp: echo_def split: if_splits)
  ultimately show ?thesis
    using two_block_request_not_served [of ?w "[97, 98]" "[99, 100]" "[]" sample_channel "[[97, 98] \<mapsto> echo]"]
    by (auto simp: never_fails_def)
qed

text \<open>The client cannot receive a reply either: of a reply of one block (what the callback of a plain
  service function sends) or of no block (what an unknown function is answered with), \<open>recv\<close> reads
  the header and then faults on the block's length; at the end of the stream it dereferences the
  null reader.\<close>

theorem reply_not_received:
  assumes "never_fails w" "length bs \<le> 1" "length (encode_message bs) < 2 ^ 60"
    "frame_apart (header_at c) (lengths_at c) (length bs) {}"
    "incoming w = encode_message bs @ rest \<or> incoming w = []"
  shows "\<exists>log f. client_recv c parse w = Some (log, Inl f) \<and> (f = OutOfBounds \<or> f = NullDeref)"
proof (cases "incoming w = []")
  case True
  have io: "os_read b n w = (0, w\<lparr>script := tl (script w)\<rparr>)" for b n
  proof -
    have "io_count 0 w = Some 0" using assms(1)
      by (cases "script w" rule: list.exhaust; cases "hd (script w)") (auto simp: io_count_def never_fails_def)
    with True show ?thesis by (simp add: os_read_def os_readv_def)
  qed
  have "socket_read os_read (channel_peer c) (header_at c) 16 w = Some (return (0, w\<lparr>script := tl (script w)\<rparr>))"
    unfolding socket_read_def by (subst transfer_loop.simps) (simp add: io ssize_positive_def)
  then have "client_recv c parse w = Some (fail NullDeref)"
    by (simp add: client_recv_def channel_read_def read_message_def)
  then show ?thesis by (auto simp: fail_def)
next
  case False
  with assms(5) have "incoming w = encode_message bs @ rest" by simp
  from read_message_ok [OF assms(1) this assms(3,4), of "channel_peer c"] obtain w1 where
    w1: "channel_read c w = Some (return (Some \<lparr>num_blocks = map (\<lambda>b. of_nat (length b)) bs, current_block_index = 0\<rparr>, w1))"
    by (auto simp: channel_read_def)
  have "read_string c \<lparr>num_blocks = map (\<lambda>b. of_nat (length b)) bs, current_block_index = 0\<rparr> w1 = Some (fail OutOfBounds)"
    using assms(2) by (intro read_string_last) simp
  with w1 show ?thesis
    by (simp add: client_recv_def check_def cc_check_def obind_Inr fail_def obind_fail_iff)
qed

theorem reply_not_received_witness:
  "\<exists>log f. client_recv sample_channel (\<lambda>bs. (True, bs))
      \<lparr>mem = (\<lambda>_. 0), outgoing = [], incoming = encode_message [[7]], script = []\<rparr> = Some (log, Inl f)"
proof -
  have "frame_apart (header_at sample_channel) (lengths_at sample_channel) (length [[7 :: byte]]) {}"
    by (simp add: sample_channel_def frame_1000_2000)
  from reply_not_received [OF _ _ _ this, of "\<lparr>mem = (\<lambda>_. 0), outgoing = [], incoming = encode_message [[7]], script = []\<rparr>" "[]" "\<lambda>bs. (True, bs)"]
  show ?thesis by (auto simp: never_fails_def length_encode)
qed

end
