(* ===== verification/LightServer.thy ===== *)
theory LightServer
  imports ProtoServer
begin

text \<open>
  core/LightServer.h and .cpp: the threaded socket server and its client. What the operating system
  answers (socket numbers, host lookups, the connections \<open>accept\<close> returns and the value of
  \<open>_stopping\<close> read after each) is a parameter. A worker is the loop over the messages of one
  connection; it need not end, and then it is \<open>None\<close>.
\<close>

section \<open>SocketWorker\<close>

lemma obind_mono [partial_function_mono]:
  fixes B :: "('p \<Rightarrow> 'q option) \<Rightarrow> 'a run option"
  assumes "mono_option B" "\<And>y. mono_option (\<lambda>f. C y f)"
  shows "mono_option (\<lambda>f. obind (B f) (\<lambda>y. C y f))"
proof (rule monotoneI)
  fix f g :: "'p \<Rightarrow> 'q option" assume fg: "fun_ord option_ord f g"
  have "option_ord (B f) (B g)" using assms(1) fg unfolding monotone_def by blast
  moreover have "option_ord (C y f) (C y g)" for y using assms(2) fg unfolding monotone_def by blast
  ultimately show "option_ord (obind (B f) (\<lambda>y. C y f)) (obind (B g) (\<lambda>y. C y g))"
    by (auto simp: flat_ord_def obind_def split: option.splits sum.splits)
      (metis option.distinct(1) option.inject prod.inject)+
qed

partial_function (option) worker_loop :: "channel \<Rightarrow> (message_reader \<Rightarrow> response_callback \<Rightarrow> os \<Rightarrow> os run option)
    \<Rightarrow> os \<Rightarrow> os run option" where
  "worker_loop c handle w =
     obind (channel_read c w) (\<lambda>(reader, w1).
     case reader of
       None \<Rightarrow> Some (return w1)
     | Some r \<Rightarrow> obind (handle r (channel_write c) w1) (\<lambda>w2. worker_loop c handle w2))"

definition worker_run :: "channel \<Rightarrow> (message_reader \<Rightarrow> response_callback \<Rightarrow> os \<Rightarrow> os run option)
    \<Rightarrow> os \<Rightarrow> os run option" where
  "worker_run c handle w =
     obind (Some (log_msg INFO (''worker started, peer = '' @ channel_peer c))) (\<lambda>_.
     obind (worker_loop c handle w) (\<lambda>w'.
     obind (Some (log_msg INFO (''worker begin to finish, peer = '' @ channel_peer c))) (\<lambda>_.
       Some (return w'))))"

section \<open>Socket options\<close>

text \<open>\<open>setsockopt i\<close> is the result of the \<open>i\<close>-th call; \<open>FLAGS_small_messages\<close> is a local \<open>false\<close>, so
  the two calls it guards are not made. The first option is set twice.\<close>

definition set_option :: "(nat \<Rightarrow> int) \<Rightarrow> unit run" where
  "set_option setsockopt =
     bind (cc_check ''Check failed:(setsockopt(sockfd, SOL_SOCKET, SO_RCVBUF, &recv_size, sizeof(recv_size))) >= (0) '' (0 \<le> setsockopt 0)) (\<lambda>_.
     bind (cc_check ''Check failed:(setsockopt(sockfd, SOL_SOCKET, SO_RCVBUF, &recv_size, sizeof(recv_size))) >= (0) '' (0 \<le> setsockopt 1)) (\<lambda>_.
     bind (cc_check ''Check failed:(setsockopt(sockfd, SOL_SOCKET, SO_SNDBUF, &send_size, sizeof(send_size))) >= (0) '' (0 \<le> setsockopt 2)) (\<lambda>_.
       cc_check ''Check failed:(setsockopt(sockfd, SOL_SOCKET, SO_REUSEADDR, &reuse, sizeof(reuse))) >= (0) '' (0 \<le> setsockopt 3))))"

section \<open>SocketServer\<close>

record socket_server =
  server_socket :: int
  server_port :: int
  server_addr :: string
  max_pending_connections :: int
  stopping :: bool

definition new_SocketServer :: "string \<Rightarrow> int \<Rightarrow> socket_server" where
  "new_SocketServer addr port = \<lparr>server_socket = 0, server_port = port, server_addr = addr,
     max_pending_connections = 100, stopping = False\<rparr>"

text \<open>One return of \<open>accept\<close>: the socket, the printed peer address (\<open>None\<close> when \<open>inet_ntop\<close> fails), and
  the value of \<open>_stopping\<close> then.\<close>

record accepted =
  new_socket :: int
  peer_address :: "string option"
  stopping_seen :: bool

text \<open>The workers started (socket and peer name), and whether the loop has ended; when the connections
  are used up, the thread is blocked in \<open>accept\<close>.\<close>

fun accept_loop :: "accepted list \<Rightarrow> ((int \<times> string) list \<times> bool) run" where
  "accept_loop [] = return ([], False)"
| "accept_loop (a # as) =
     (if stopping_seen a then return ([], True)
      else bind (cc_check ''Check failed:newsockfd >=0  ERROR on accept.'' (0 \<le> new_socket a)) (\<lambda>_.
           bind (cc_check ''Check failed:inet_ntop(AF_INET, &client_addr.sin_addr, peer_name, k_peer_name_len) ''
             (peer_address a \<noteq> None)) (\<lambda>_.
           case peer_address a of
             None \<Rightarrow> fail Indeterminate
           | Some peer \<Rightarrow> bind (accept_loop as) (\<lambda>(workers, ended). return ((new_socket a, peer) # workers, ended)))))"

record network =
  socket_result :: int
  host_address :: "byte list option"       \<comment> \<open>\<open>h_addr\<close> of the entry, if the lookup finds one\<close>
  lookup_result :: int                      \<comment> \<open>result of \<open>gethostbyname_r\<close>\<close>
  setsockopt_result :: "nat \<Rightarrow> int"
  bind_result :: int
  connect_result :: int
  connections :: "accepted list"

definition tcp_server :: "network \<Rightarrow> socket_server \<Rightarrow> ((int \<times> string) list \<times> bool \<times> socket_server) run" where
  "tcp_server net s =
     (let s1 = s\<lparr>server_socket := socket_result net\<rparr> in
      bind (cc_check ''Check failed:_socket >= 0 ERROR opening socket'' (0 \<le> socket_result net)) (\<lambda>_.
      bind (if server_addr s \<noteq> []
            then bind (cc_check (''Check failed:server ERROR, no such host: '' @ server_addr s) (host_address net \<noteq> None)) (\<lambda>_.
                   if host_address net = None then fail NullDeref else return ())
            else return ()) (\<lambda>_.
      bind (set_option (setsockopt_result net)) (\<lambda>_.
      bind (cc_check (''Check failed:bind(_socket, (struct sockaddr*) &server_addr, sizeof(server_addr)) >= 0 ERROR on binding '' @ server_addr s)
        (0 \<le> bind_result net)) (\<lambda>_.
      bind (accept_loop (connections net)) (\<lambda>(workers, ended).
      bind (if ended
            then log_msg INFO (''LightServer accept thread finished, addr='' @ server_addr s @ '' port='' @ show_int (server_port s))
            else return ()) (\<lambda>_.
        return (workers, ended, s1))))))))"

definition server_run :: "network \<Rightarrow> socket_server \<Rightarrow> ((int \<times> string) list \<times> bool \<times> socket_server) run" where
  "server_run net s = bind (log_msg INFO ''tcp server started.'') (\<lambda>_. tcp_server net s)"

section \<open>SocketClient\<close>

text \<open>
  \<open>memset((char*)&server_addr, 0, sizeof(server_addr))\<close> was meant for \<open>serv_addr\<close>: it clears the
  caller's string object, which from then on is the empty string. The result is the socket and the
  peer name of the new channel, and the caller's string.
\<close>

definition new_SocketClient :: "network \<Rightarrow> string \<Rightarrow> ((int \<times> string) \<times> string) run" where
  "new_SocketClient net server_address =
     bind (cc_check ''Check failed:sockfd >= 0 ERROR opening socket.'' (0 \<le> socket_result net)) (\<lambda>_.
     bind (cc_check (''Check failed:(0) == (gethostbyname_r(server_addr.c_str(), &hostinfo, buf, sizeof(buf), &server, &error_return)) ERROR, no such host: ''
       @ server_address @ '' ret= '' @ show_int (lookup_result net)) (lookup_result net = 0)) (\<lambda>_.
     bind (cc_check ''Check failed:server gethostbyname_r error.'' (host_address net \<noteq> None)) (\<lambda>_.
     (let cleared = [] in
      bind (if host_address net = None then fail NullDeref else return ()) (\<lambda>_.
      bind (set_option (setsockopt_result net)) (\<lambda>_.
      bind (cc_check (''Check failed:connect(sockfd, (sockaddr*)&serv_addr, sizeof(serv_addr)) >= 0 ERROR connecting to '' @ cleared)
        (0 \<le> connect_result net)) (\<lambda>_.
        return ((socket_result net, cleared), cleared))))))))"

text \<open>The destructor's connection that wakes \<open>accept\<close>; the address is copied into a temporary.\<close>

definition destroy_SocketServer :: "network \<Rightarrow> socket_server \<Rightarrow> socket_server run" where
  "destroy_SocketServer net s =
     (let s1 = s\<lparr>stopping := True\<rparr> in
      bind (new_SocketClient net (if server_addr s = [] then ''127.0.0.1'' else server_addr s)) (\<lambda>(channel, tmp).
      bind (destroy_SocketChannel (snd channel)) (\<lambda>_. return s1)))"

section \<open>get_ip_addr\<close>

text \<open>\<open>strncpy\<close> into \<open>ifr_name\<close>, whose last byte is then cleared.\<close>

definition IFNAMSIZ :: nat where
  "IFNAMSIZ = 16"

definition ifr_name :: "string \<Rightarrow> string" where
  "ifr_name device = take (IFNAMSIZ - 1) (takeWhile (\<lambda>ch. ch \<noteq> CHR 0x00) device)"

definition inet_ntoa :: "byte \<times> byte \<times> byte \<times> byte \<Rightarrow> string" where
  "inet_ntoa a = (case a of (b0, b1, b2, b3) \<Rightarrow> show_nat (unat b0) @ ''.'' @ show_nat (unat b1) @ ''.'' @
     show_nat (unat b2) @ ''.'' @ show_nat (unat b3))"

text \<open>\<open>ioctl\<close> by interface name: the address, or \<open>None\<close> when it fails and leaves \<open>ifr_addr\<close> unset.\<close>

definition get_ip_addr :: "int \<Rightarrow> (string \<Rightarrow> (byte \<times> byte \<times> byte \<times> byte) option) \<Rightarrow> string \<Rightarrow> string run" where
  "get_ip_addr sockfd ioctl device =
     bind (cc_check ''Check failed:sockfd >= 0 Create socket error.'' (0 \<le> sockfd)) (\<lambda>_.
     bind (cc_check ''Check failed:(ioctl(sockfd, SIOCGIFADDR, &ifr)) >= (0) '' (ioctl (ifr_name device) \<noteq> None)) (\<lambda>_.
     case ioctl (ifr_name device) of
       None \<Rightarrow> fail Indeterminate
     | Some a \<Rightarrow> return (inet_ntoa a)))"

section \<open>What the server does\<close>

lemma channel_read_at_end:
  assumes "never_fails w" "incoming w = []"
  shows "channel_read c w = Some (return (None, w\<lparr>script := tl (script w)\<rparr>))"
proof -
  have "os_read b n w = (0, w\<lparr>script := tl (script w)\<rparr>)" for b n
  proof -
    have "io_count 0 w = Some 0" using assms(1)
      by (cases "script w" rule: list.exhaust; cases "hd (script w)") (auto simp: io_count_def never_fails_def)
    with assms(2) show ?thesis by (simp add: os_read_def os_readv_def)
  qed
  then have "socket_read os_read (channel_peer c) (header_at c) 16 w = Some (return (0, w\<lparr>script := tl (script w)\<rparr>))"
    unfolding socket_read_def by (subst transfer_loop.simps) (simp add: ssize_positive_def)
  then show ?thesis by (simp add: channel_read_def read_message_def)
qed

text \<open>A worker whose connection is closed ends, having logged its start and its end.\<close>

lemma worker_ends_at_end_of_stream:
  assumes "never_fails w" "incoming w = []"
  shows "worker_run c handle w = Some ([LogRecord INFO (''worker started, peer = '' @ channel_peer c),
    LogRecord INFO (''worker begin to finish, peer = '' @ channel_peer c)], Inr (w\<lparr>script := tl (script w)\<rparr>))"
  by (simp add: worker_run_def worker_loop.simps channel_read_at_end [OF assms] log_msg_def obind_Inr return_def)

lemma accept_loop_serves:
  assumes "list_all (\<lambda>a. \<not> stopping_seen a \<and> 0 \<le> new_socket a \<and> peer_address a \<noteq> None) as"
  shows "accept_loop (as @ bs) = bind (accept_loop bs) (\<lambda>(workers, ended).
    return (map (\<lambda>a. (new_socket a, the (peer_address a))) as @ workers, ended))"
  using assms by (induction as) (auto simp: bind_assoc split_def)

text \<open>The accepting thread starts one worker for each connection, in the order they arrive, until
  the first return of \<open>accept\<close> after \<open>_stopping\<close> was set, whose connection gets no worker; then it
  ends. Without such a return it stays blocked, which is why the destructor makes a connection of its
  own.\<close>

theorem accept_loop_serves_until_stopped:
  assumes "list_all (\<lambda>a. \<not> stopping_seen a \<and> 0 \<le> new_socket a \<and> peer_address a \<noteq> None) as"
  shows "accept_loop as = return (map (\<lambda>a. (new_socket a, the (peer_address a))) as, False) \<and>
    (stopping_seen b \<longrightarrow>
      accept_loop (as @ b # bs) = return (map (\<lambda>a. (new_socket a, the (peer_address a))) as, True))"
  using accept_loop_serves [OF assms, of "[]"] accept_loop_serves [OF assms, of "b # bs"] by simp

theorem accept_loop_serves_until_stopped_witness:
  "accept_loop [\<lparr>new_socket = 5, peer_address = Some ''10.0.0.1'', stopping_seen = False\<rparr>,
      \<lparr>new_socket = 6, peer_address = None, stopping_seen = True\<rparr>] = return ([(5, ''10.0.0.1'')], True)"
  using accept_loop_serves_until_stopped [of "[\<lparr>new_socket = 5, peer_address = Some ''10.0.0.1'', stopping_seen = False\<rparr>]"
    "\<lparr>new_socket = 6, peer_address = None, stopping_seen = True\<rparr>" "[]"]
  by simp

text \<open>A worker that receives a call of a registered function (a message of two blocks) faults,
  and with it the process, after logging that it has started: nothing is sent back.\<close>

theorem worker_faults_on_call:
  assumes "never_fails w" "incoming w = encode_message [name, proto] @ rest"
    "length name + length proto < 2 ^ 59" "frame_apart (header_at c) (lengths_at c) 2 {}"
    "\<And>n f. fmap n = Some f \<Longrightarrow> reads_request f"
    "fmap (take (length proto) (name @ proto @ rest)) \<noteq> None"
  shows "worker_run c (handle_request c fmap) w =
    Some ([LogRecord INFO (''worker started, peer = '' @ channel_peer c)], Inl OutOfBounds)"
proof -
  obtain f where "fmap (take (length proto) (name @ proto @ rest)) = Some f" using assms(6) by blast
  note f = this
  have "\<exists>r w1. channel_read c w = Some (return (Some r, w1)) \<and>
    (case fmap (take (length proto) (name @ proto @ rest)) of
       Some f \<Rightarrow> handle_request c fmap r (channel_write c) w1 = Some (fail OutOfBounds)
     | None \<Rightarrow> \<exists>msg w2. outgoing w2 = outgoing w @ encode_message [] \<and>
         handle_request c fmap r (channel_write c) w1 =
           Some ([LogRecord ERROR (''Unknown function_name: '' @
                   bytes_to_string (take (length proto) (name @ proto @ rest))), LogRecord FATAL msg], Inr w2))"
    by (rule two_block_request_not_served [OF assms(1-4)]) (rule assms(5))
  then obtain r w1 where
    "channel_read c w = Some (return (Some r, w1))"
    "handle_request c fmap r (channel_write c) w1 = Some (fail OutOfBounds)" unfolding f option.case by blast
  then have "worker_loop c (handle_request c fmap) w = Some (fail OutOfBounds)"
    by (subst worker_loop.simps) simp
  then show ?thesis by (simp add: worker_run_def log_msg_def obind_Inr fail_def obind_fail_iff)
qed

theorem worker_faults_on_call_witness:
  "worker_run sample_channel (handle_request sample_channel [[97, 98] \<mapsto> echo])
      \<lparr>mem = (\<lambda>_. 0), outgoing = [], incoming = encode_message [[97, 98], [99, 100]], script = []\<rparr> =
    Some ([LogRecord INFO ''worker started, peer = peer''], Inl OutOfBounds)"
proof -
  let ?w = "\<lparr>mem = (\<lambda>_. 0), outgoing = [], incoming = encode_message [[97, 98], [99, 100]], script = []\<rparr>"
  have "frame_apart (header_at sample_channel) (lengths_at sample_channel) 2 {}"
    by (simp add: sample_channel_def frame_1000_2000)
  moreover have "\<And>n f. [[97 :: byte, 98] \<mapsto> echo] n = Some f \<Longrightarrow> reads_request f"
    by (auto simp: echo_def split: if_splits)
  moreover have "[[97, 98] \<mapsto> echo] (take (length [99, 100 :: byte]) ([97, 98] @ [99, 100] @ [])) \<noteq> None" by simp
  ultimately show ?thesis
    using worker_faults_on_call [of ?w "[97, 98]" "[99, 100]" "[]" sample_channel "[[97, 98] \<mapsto> echo]"]
    by (simp add: never_fails_def) (simp add: sample_channel_def)
qed

text \<open>The client's channel has no peer name, whatever address it was made with.\<close>

lemma client_peer_name_lost:
  "run_value (new_SocketClient net addr) = Inr ((fd, peer), addr') \<Longrightarrow> peer = [] \<and> addr' = []"
  by (auto simp: new_SocketClient_def run_value_def Let_def set_option_def bind_assoc split: if_splits)

end
