(* ===== verification/UtilInit.thy ===== *)
theory UtilInit
  imports Logging
begin

text \<open>
  utils/Util.h/.cpp and Version.h/.cpp: initialisation functions and the start of a program.
  A registered closure is a value of type \<open>'f\<close>; \<open>call\<close> runs one on the state \<open>'s\<close> of the program.
  \<open>std::sort\<close> is the parameter \<open>std_sort\<close>: it sorts by priority, in an order of its own among equal
  priorities. The random generators are the seeds they were given.
\<close>

record 'f init_state =
  g_initialized :: bool
  g_init_funcs :: "(int \<times> 'f) list option"     \<comment> \<open>\<open>None\<close> is the null pointer\<close>
  once_done :: bool                              \<comment> \<open>\<open>g_once_flag\<close>\<close>

definition initial_init_state :: "'f init_state" where
  "initial_init_state = \<lparr>g_initialized = False, g_init_funcs = None, once_done = False\<rparr>"

definition register_init_function :: "'f \<Rightarrow> int \<Rightarrow> 'f init_state \<Rightarrow> 'f init_state run" where
  "register_init_function func priority st =
     bind (if g_initialized st
           then log_msg FATAL ''register_init_function() should only called before init_main().''
           else return ()) (\<lambda>_.
     (let funcs = (case g_init_funcs st of None \<Rightarrow> [] | Some fs \<Rightarrow> fs)
      in return (st\<lparr>g_init_funcs := Some (funcs @ [(priority, func)])\<rparr>)))"

text \<open>The constructor of \<open>InitFunction\<close>.\<close>

definition InitFunction :: "'f \<Rightarrow> int \<Rightarrow> 'f init_state \<Rightarrow> 'f init_state run" where
  "InitFunction func priority st = register_init_function func priority st"

fun call_all :: "('f \<Rightarrow> 's \<Rightarrow> 's run) \<Rightarrow> (int \<times> 'f) list \<Rightarrow> 's \<Rightarrow> 's run" where
  "call_all call [] s = return s"
| "call_all call ((priority, f) # fs) s = bind (call f s) (call_all call fs)"

definition run_init_functions :: "((int \<times> 'f) list \<Rightarrow> (int \<times> 'f) list) \<Rightarrow> ('f \<Rightarrow> 's \<Rightarrow> 's run)
    \<Rightarrow> 'f init_state \<times> 's \<Rightarrow> ('f init_state \<times> 's) run" where
  "run_init_functions std_sort call x = (case x of (st, s) \<Rightarrow>
     if once_done st then return (st, s)
     else bind (log_msg INFO ''calling run_init_functions.'') (\<lambda>_.
          bind (case g_init_funcs st of None \<Rightarrow> return s | Some fs \<Rightarrow> call_all call (std_sort fs) s) (\<lambda>s'.
          bind (log_msg INFO ''call run_init_functions done.'') (\<lambda>_.
            return (st\<lparr>g_init_funcs := None, g_initialized := True, once_done := True\<rparr>, s')))))"

section \<open>The start of a program\<close>

text \<open>The compile-time version string and \<open>is_gpu()\<close>, and the \<open>version\<close> flag, are given. Printing
  ends the process, so only that it happened is visible.\<close>

definition version_text :: "string \<Rightarrow> bool \<Rightarrow> string" where
  "version_text version gpu = ''ccml version: '' @ version @ [CHR 0x0A, CHR 0x09] @ ''withGpu:'' @
     (if gpu then ''true'' else ''false'') @ [CHR 0x0A]"

definition print_version :: "bool \<Rightarrow> unit run" where
  "print_version FLAGS_version = (if FLAGS_version then fail (Exit 0) else return ())"

fun command_line :: "string list \<Rightarrow> string" where
  "command_line [] = []"
| "command_line (a # as) = a @ '' '' @ command_line as"

text \<open>What \<open>init_main\<close> sets in the process: the two modes of the vector unit, and the seed each random
  generator was given (\<open>srand\<close> takes an \<open>unsigned int\<close>; the value handed to
  \<open>ThreadLocalRand::init_seed\<close> is \<open>unsigned\<close> when it is the time, and the \<open>int\<close> flag otherwise).\<close>

record process =
  flush_zero_mode :: bool
  denormals_zero_mode :: bool
  srand_seed :: "32 word option"
  thread_rand_seed :: "int option"

definition new_process :: process where
  "new_process = \<lparr>flush_zero_mode = False, denormals_zero_mode = False, srand_seed = None, thread_rand_seed = None\<rparr>"

definition set_float_modes :: "process \<Rightarrow> process" where
  "set_float_modes p = p\<lparr>flush_zero_mode := True, denormals_zero_mode := True\<rparr>"

text \<open>\<open>now\<close> is \<open>time(NULL)\<close>.\<close>

definition seed_generators :: "u64 \<Rightarrow> 32 word \<Rightarrow> process \<Rightarrow> process run" where
  "seed_generators now FLAGS_seed p =
     (if FLAGS_seed = 0
      then (let seed = ucast now; p' = p\<lparr>srand_seed := Some seed, thread_rand_seed := Some (uint seed)\<rparr>
            in bind (log_msg INFO (''random number seed = '' @ show_nat (unat seed))) (\<lambda>_. return p'))
      else return (p\<lparr>srand_seed := Some FLAGS_seed, thread_rand_seed := Some (sint FLAGS_seed)\<rparr>))"

definition init_main :: "(string \<Rightarrow> int) \<Rightarrow> (string \<rightharpoonup> string) \<Rightarrow> u64 \<Rightarrow> 32 word \<Rightarrow> bool
    \<Rightarrow> ((int \<times> 'f) list \<Rightarrow> (int \<times> 'f) list) \<Rightarrow> ('f \<Rightarrow> 's \<Rightarrow> 's run) \<Rightarrow> string list
    \<Rightarrow> log_state \<times> process \<times> 'f init_state \<times> 's \<Rightarrow> (log_state \<times> process \<times> 'f init_state \<times> 's) run" where
  "init_main os_open env now FLAGS_seed FLAGS_version std_sort call argv x = (case x of (lg, p, st, s) \<Rightarrow>
     bind (cc_check (''Check failed:(argc) == (1) Unkown commandline argument:'' @ (case argv of [] \<Rightarrow> [] | a # _ \<Rightarrow> a))
       (length argv = 1)) (\<lambda>_.
     bind (initialize_logging os_open env lg argv) (\<lambda>lg'.
     bind (log_msg INFO (''commandline: '' @ command_line argv)) (\<lambda>_.
     bind (seed_generators now FLAGS_seed (set_float_modes p)) (\<lambda>p'.
     bind (print_version FLAGS_version) (\<lambda>_.
     bind (run_init_functions std_sort call (st, s)) (\<lambda>(st', s').
       return (lg', p', st', s'))))))))"

section \<open>Each function runs once, by priority\<close>

text \<open>What the documentation of \<open>std::sort\<close> promises for this comparison.\<close>

definition sorts_by_priority :: "((int \<times> 'f) list \<Rightarrow> (int \<times> 'f) list) \<Rightarrow> bool" where
  "sorts_by_priority std_sort \<longleftrightarrow>
     (\<forall>fs. mset (std_sort fs) = mset fs \<and> sorted (map (\<lambda>(priority, f). - priority) (std_sort fs)))"

fun register_list :: "('f \<times> int) list \<Rightarrow> 'f init_state \<Rightarrow> 'f init_state run" where
  "register_list [] st = return st"
| "register_list ((f, priority) # rs) st = bind (register_init_function f priority st) (register_list rs)"

lemma register_list_value:
  "snd (register_list rs st) = Inr (if rs = [] then st else
    st\<lparr>g_init_funcs := Some ((case g_init_funcs st of None \<Rightarrow> [] | Some fs \<Rightarrow> fs) @ map (\<lambda>(f, p). (p, f)) rs)\<rparr>)"
proof (induction rs arbitrary: st)
  case (Cons r rs)
  obtain f p where r: "r = (f, p)" by (cases r)
  let ?fs = "case g_init_funcs st of None \<Rightarrow> [] | Some fs \<Rightarrow> fs"
  have "snd (register_init_function f p st) = Inr (st\<lparr>g_init_funcs := Some (?fs @ [(p, f)])\<rparr>)"
    by (simp add: register_init_function_def Let_def)
  with Cons.IH [of "st\<lparr>g_init_funcs := Some (?fs @ [(p, f)])\<rparr>"] r show ?case by (simp add: snd_bind_Inr)
qed simp

definition record_call :: "'f \<Rightarrow> 'f list \<Rightarrow> 'f list run" where
  "record_call f called = return (called @ [f])"

lemma call_all_recorded: "call_all record_call fs called = return (called @ map snd fs)"
proof (induction fs arbitrary: called)
  case (Cons pf fs)
  then show ?case by (cases pf) (simp add: record_call_def)
qed simp

text \<open>Whatever the registrations before the start, \<open>run_init_functions\<close> calls every registered
  function exactly once, in order of falling priority; a function registered afterwards is only
  complained about, and however often the functions are run again it is never called.\<close>

theorem init_functions_run_once:
  assumes "sorts_by_priority std_sort"
  shows "\<exists>st calls. run_value (bind (register_list rs initial_init_state)
        (\<lambda>st. run_init_functions std_sort record_call (st, []))) = Inr (st, map snd calls) \<and>
      mset calls = mset (map (\<lambda>(f, p). (p, f)) rs) \<and> sorted (map (\<lambda>(p, f). - p) calls) \<and>
      run_value (bind (register_list late st) (\<lambda>st'. run_init_functions std_sort record_call (st', map snd calls))) =
        Inr (if late = [] then st else st\<lparr>g_init_funcs := Some (map (\<lambda>(f, p). (p, f)) late)\<rparr>, map snd calls)"
proof -
  let ?regs = "map (\<lambda>(f, p). (p, f)) rs"
  let ?calls = "if rs = [] then [] else std_sort ?regs"
  let ?st = "\<lparr>g_initialized = True, g_init_funcs = None, once_done = True\<rparr> :: 'a init_state"
  have "run_value (bind (register_list rs initial_init_state)
      (\<lambda>st. run_init_functions std_sort record_call (st, []))) = Inr (?st, map snd ?calls)"
    by (simp add: run_value_def snd_bind_Inr [OF register_list_value] run_init_functions_def
        initial_init_state_def call_all_recorded)
  moreover have "mset ?calls = mset ?regs" "sorted (map (\<lambda>(p, f). - p) ?calls)"
    using assms by (auto simp: sorts_by_priority_def)
  moreover have "run_value (bind (register_list late ?st) (\<lambda>st'. run_init_functions std_sort record_call (st', map snd ?calls))) =
      Inr (if late = [] then ?st else ?st\<lparr>g_init_funcs := Some (map (\<lambda>(f, p). (p, f)) late)\<rparr>, map snd ?calls)"
    by (simp add: run_value_def snd_bind_Inr [OF register_list_value] run_init_functions_def)
  ultimately show ?thesis by (intro exI [of _ ?st] exI [of _ ?calls]) blast
qed

lemma sort_key_sorts: "sorts_by_priority (sort_key (\<lambda>(priority, f). - priority))"
  by (simp add: sorts_by_priority_def)

theorem init_functions_run_once_witness:
  "\<exists>st. run_value (bind (register_list [(''a'', 0), (''storage'', 9)] initial_init_state)
    (\<lambda>st. run_init_functions (sort_key (\<lambda>(priority, f). - priority)) record_call (st, []))) =
    Inr (st, [''storage'', ''a''])"
proof -
  have two: "calls = [(9, ''storage''), (0, ''a'')]"
    if "mset calls = mset [(0 :: int, ''a''), (9, ''storage'')]" "sorted (map (\<lambda>(p, f). - p) calls)" for calls
  proof -
    from that(1) have "length calls = 2" by (metis mset_eq_length length_Cons list.size(3) numeral_2_eq_2)
    then obtain x y where c: "calls = [x, y]" by (auto simp: length_Suc_conv numeral_2_eq_2)
    have "set [x, y] = set [(0, ''a''), (9, ''storage'')]" using that(1) c by (metis mset_eq_setD)
    with that(2) c show ?thesis by (auto simp: doubleton_eq_iff)
  qed
  from init_functions_run_once [OF sort_key_sorts, of "[(''a'', 0), (''storage'', 9)]" "[]"] two
  show ?thesis by fastforce
qed

end
