(* ===== verification/MessageReading.thy ===== *)
theory MessageReading
  imports Message
begin

text \<open>
  core/SocketChannel.cpp, class \<open>MessageReader\<close>: reading the blocks of one message after the other.
  \<open>read_next_block\<close> reads block \<open>i\<close> with the length of block \<open>i + 1\<close>; the lemmas say where the stream
  stands after any number of reads.
\<close>

fun read_each :: "string \<Rightarrow> ptr list \<Rightarrow> message_reader \<Rightarrow> os \<Rightarrow> (message_reader \<times> os) run option" where
  "read_each peer [] r w = Some (return (r, w))"
| "read_each peer (buf # bufs) r w =
     obind (read_next_block os_read peer buf r w) (\<lambda>(r', w'). read_each peer bufs r' w')"

text \<open>The bytes \<open>k\<close> reads take: the lengths of the blocks after the first.\<close>

definition taken :: "byte list list \<Rightarrow> nat \<Rightarrow> nat \<Rightarrow> nat" where
  "taken bs i k = length (concat (take k (drop (Suc i) bs)))"

lemma taken_simps [simp]: "taken bs i 0 = 0"
  "Suc i < length bs \<Longrightarrow> taken bs i (Suc k) = length (bs ! Suc i) + taken bs (Suc i) k"
  by (simp_all add: taken_def) (simp add: Cons_nth_drop_Suc [symmetric])

lemma taken_le: "taken bs i k \<le> length (concat bs)"
proof -
  have "length (concat bs) = length (concat (take (Suc i) bs)) +
      (length (concat (take k (drop (Suc i) bs))) + length (concat (drop k (drop (Suc i) bs))))"
    by (metis append_take_drop_id concat_append length_append)
  then show ?thesis by (simp add: taken_def)
qed

lemma taken_all: "length bs = Suc k \<Longrightarrow> taken bs 0 k = length (concat bs) - length (hd bs)"
  by (cases bs) (simp_all add: taken_def)

lemma read_each_ok:
  assumes "never_fails w" "num_blocks r = map (\<lambda>b. of_nat (length b)) bs" "current_block_index r + length bufs < length bs"
    "length (concat bs) < 2 ^ 60" "taken bs (current_block_index r) (length bufs) \<le> length (incoming w)"
  shows "\<exists>w'. read_each peer bufs r w =
      Some (return (r\<lparr>current_block_index := current_block_index r + length bufs\<rparr>, w')) \<and>
    incoming w' = drop (taken bs (current_block_index r) (length bufs)) (incoming w) \<and> never_fails w'"
  using assms(1-3,5)
proof (induction bufs arbitrary: r w)
  case (Cons buf bufs)
  let ?k = "current_block_index r"
  let ?l = "of_nat (length (bs ! Suc ?k)) :: u64"
  have k: "Suc ?k < length bs" using Cons.prems(3) by simp
  have "length (bs ! Suc ?k) \<le> length (concat bs)"
    using taken_le [of bs ?k 1] k by simp
  then have u: "unat ?l = length (bs ! Suc ?k)" "length (bs ! Suc ?k) < 2 ^ 63"
    using assms(4) by (simp_all add: unat_of_nat_u64)
  obtain w1 where w1: "read_next_block os_read peer buf r w = Some (return (r\<lparr>current_block_index := ?k + 1\<rparr>, w1))"
    "incoming w1 = drop (length (bs ! Suc ?k)) (incoming w)" "never_fails w1"
    by (rule read_next_block_ok [OF Cons.prems(1) refl, of r ?l]) (use Cons.prems k u in simp_all)
  from Cons.IH [of w1 "r\<lparr>current_block_index := ?k + 1\<rparr>"] Cons.prems k w1 show ?case
    by (auto simp: add.commute)
qed simp

lemma read_each_append:
  "read_each peer (as @ bs) r w = obind (read_each peer as r w) (\<lambda>(r', w'). read_each peer bs r' w')"
proof (induction as arbitrary: r w)
  case (Cons a as)
  have "obind (obind m k) k' = obind m (\<lambda>x. obind (k x) k')" for m :: "(message_reader \<times> os) run option" and k k'
    :: "message_reader \<times> os \<Rightarrow> (message_reader \<times> os) run option"
    by (auto simp: obind_def split: option.splits prod.splits sum.splits)
  with Cons show ?case by (simp add: split_def)
qed simp

text \<open>C12. The reader never gets to the end of a message: after \<open>k\<close> reads, it has taken as many bytes as
  the blocks \<open>2, \<dots>, k + 1\<close> have, the read after the last but one block faults, and a reader that has read
  all it can leaves as many bytes of the message in the stream as its first block has, so that the next
  message starts at its place only if the first block was empty. Destroying such a reader always logs a
  failed check.\<close>

theorem reader_stays_behind:
  assumes "never_fails w" "incoming w = encode_message bs @ rest" "bs \<noteq> []" "length (encode_message bs) < 2 ^ 60"
    "frame_apart hdr lens (length bs) {}"
  shows "\<exists>r w1. read_message os_read peer hdr lens w = Some (return (Some r, w1)) \<and>
    (\<forall>bufs. if length bufs < length bs
      then \<exists>r' w2. read_each peer bufs r w1 = Some (return (r', w2)) \<and>
          incoming w2 = drop (length (concat (take (length bufs) (tl bs)))) (concat bs @ rest) \<and>
          (Suc (length bufs) = length bs \<longrightarrow> length (incoming w2) = length (hd bs) + length rest) \<and>
          fst (destroy_MessageReader r') \<noteq> []
      else \<exists>log. read_each peer bufs r w1 = Some (log, Inl OutOfBounds))"
proof -
  let ?r = "\<lparr>num_blocks = map (\<lambda>b. of_nat (length b)) bs, current_block_index = 0\<rparr>"
  obtain w1 where w1: "read_message os_read peer hdr lens w = Some (return (Some ?r, w1))"
    "incoming w1 = concat bs @ rest" "never_fails w1"
    using read_message_ok [OF assms(1,2,4,5), of peer] by auto
  have small: "length (concat bs) < 2 ^ 60" using assms(4) by (simp add: length_encode)
  have some: "\<exists>w2. read_each peer bufs ?r w1 = Some (return (?r\<lparr>current_block_index := length bufs\<rparr>, w2)) \<and>
      incoming w2 = drop (taken bs 0 (length bufs)) (concat bs @ rest) \<and> never_fails w2"
    if "length bufs < length bs" for bufs
    using read_each_ok [OF w1(3), of ?r bs bufs peer] that small w1(2) taken_le [of bs 0 "length bufs"] by simp
  have "\<exists>log. read_each peer bufs ?r w1 = Some (log, Inl OutOfBounds)" if long: "\<not> length bufs < length bs" for bufs
  proof -
    let ?k = "length bs - 1"
    from long assms(3) obtain b cs where split: "bufs = take ?k bufs @ b # cs"
      by (cases "drop ?k bufs") (auto simp: neq_Nil_conv Suc_diff_le, metis append_take_drop_id)
    have "length (take ?k bufs) < length bs" "length (take ?k bufs) = ?k" using long assms(3) by (auto simp: Suc_le_eq)
    with some [of "take ?k bufs"] obtain w2 where
      "read_each peer (take ?k bufs) ?r w1 = Some (return (?r\<lparr>current_block_index := ?k\<rparr>, w2))" by auto
    moreover have "read_next_block os_read peer b (?r\<lparr>current_block_index := ?k\<rparr>) w2 = Some (fail OutOfBounds)"
      using assms(3) by (simp add: read_next_block_def get_next_block_length_last)
    ultimately have "read_each peer (take ?k bufs @ b # cs) ?r w1 = Some (fail OutOfBounds)"
      by (simp add: read_each_append)
    with split show ?thesis by (auto simp: fail_def)
  qed
  moreover have "\<exists>r' w2. read_each peer bufs ?r w1 = Some (return (r', w2)) \<and>
      incoming w2 = drop (length (concat (take (length bufs) (tl bs)))) (concat bs @ rest) \<and>
      (Suc (length bufs) = length bs \<longrightarrow> length (incoming w2) = length (hd bs) + length rest) \<and>
      fst (destroy_MessageReader r') \<noteq> []" if short: "length bufs < length bs" for bufs
  proof -
    from some [OF short] obtain w2 where w2: "read_each peer bufs ?r w1 = Some (return (?r\<lparr>current_block_index := length bufs\<rparr>, w2))"
      "incoming w2 = drop (taken bs 0 (length bufs)) (concat bs @ rest)" by blast
    moreover have "length (incoming w2) = length (hd bs) + length rest" if "Suc (length bufs) = length bs"
      using w2(2) taken_all [of bs "length bufs"] that assms(3) by (cases bs) simp_all
    ultimately show ?thesis using short
      by (intro exI [of _ "?r\<lparr>current_block_index := length bufs\<rparr>"] exI [of _ w2])
        (auto simp: taken_def drop_Suc destroy_MessageReader_def cc_check_def)
  qed
  ultimately show ?thesis using w1(1) by (intro exI [of _ ?r] exI [of _ w1]) auto
qed

theorem reader_stays_behind_witness:
  "\<exists>r w1 r' w2. read_message os_read ''peer'' 1000 2000
      \<lparr>mem = (\<lambda>_. 0), outgoing = [], incoming = encode_message [[1], [2, 3], [4]], script = []\<rparr> = Some (return (Some r, w1)) \<and>
    read_each ''peer'' [5000, 6000] r w1 = Some (return (r', w2)) \<and> incoming w2 = [4]"
proof -
  have "frame_apart 1000 2000 (length [[1 :: byte], [2, 3], [4]]) {}"
    by (simp add: frame_apart_def region_def upt_rec)
  from reader_stays_behind [OF _ _ _ _ this, of "\<lparr>mem = (\<lambda>_. 0), outgoing = [], incoming = encode_message [[1], [2, 3], [4]], script = []\<rparr>" "[]" "''peer''"]
  obtain r w1 where r: "read_message os_read ''peer'' 1000 2000
      \<lparr>mem = (\<lambda>_. 0), outgoing = [], incoming = encode_message [[1], [2, 3], [4]], script = []\<rparr> = Some (return (Some r, w1))"
    "\<forall>bufs. if length bufs < length [[1 :: byte], [2, 3], [4]]
      then \<exists>r' w2. read_each ''peer'' bufs r w1 = Some (return (r', w2)) \<and>
          incoming w2 = drop (length (concat (take (length bufs) (tl [[1 :: byte], [2, 3], [4]])))) (concat [[1], [2, 3], [4]] @ []) \<and>
          (Suc (length bufs) = length [[1 :: byte], [2, 3], [4]] \<longrightarrow> length (incoming w2) = length (hd [[1 :: byte], [2, 3], [4]]) + length ([] :: byte list)) \<and>
          fst (destroy_MessageReader r') \<noteq> []
      else \<exists>log. read_each ''peer'' bufs r w1 = Some (log, Inl OutOfBounds)"
    by (auto simp: never_fails_def length_encode)
  from r(2) [rule_format, of "[5000, 6000]"] r(1) show ?thesis by auto
qed

end
