(* ===== verification/MatrixShape.thy ===== *)
theory MatrixShape
  imports Prelude
begin

text \<open>
  math/BaseMatrix.h and .cpp: the shape of a matrix, offsets, and the \<open>apply_*\<close> and \<open>aggregate\<close>
  routines. Their element-wise kernels are commented out in the source (\<open>///todo\<close>), so what they do
  is to compute the start addresses and to check sizes; a call returns \<open>0\<close> together with the
  start addresses it computed. \<open>is_sparse\<close> is a virtual method that a sparse matrix would override; its
  answer is a field here, \<open>False\<close> for the matrices the constructors make.
  Dimensions are 64-bit; the \<open>int\<close> parameters and locals are 32-bit words, sign-extended where they
  meet a \<open>size_t\<close>. Addresses count elements.
\<close>

record matrix_offset =
  aCol :: u64  aRow :: u64
  bCol :: u64  bRow :: u64
  cCol :: u64  cRow :: u64
  dCol :: u64  dRow :: u64

text \<open>\<open>_aRow(bRow)\<close>: the row of the first operand is set from the second's.\<close>

definition MatrixOffset :: "u64 \<Rightarrow> u64 \<Rightarrow> u64 \<Rightarrow> u64 \<Rightarrow> u64 \<Rightarrow> u64 \<Rightarrow> u64 \<Rightarrow> u64 \<Rightarrow> matrix_offset" where
  "MatrixOffset ac ar bc br cc cr dc dr =
     \<lparr>aCol = ac, aRow = br, bCol = bc, bRow = br, cCol = cc, cRow = cr, dCol = dc, dRow = dr\<rparr>"

record matrix =
  height :: u64
  width :: u64
  stride :: u64
  data :: u64
  trans :: bool
  sparse :: bool

definition new_BaseMatrix :: "u64 \<Rightarrow> u64 \<Rightarrow> u64 \<Rightarrow> bool \<Rightarrow> matrix" where
  "new_BaseMatrix h w d tr = \<lparr>height = h, width = w, stride = w, data = d, trans = tr, sparse = False\<rparr>"

definition new_BaseMatrix_stride :: "u64 \<Rightarrow> u64 \<Rightarrow> u64 \<Rightarrow> u64 \<Rightarrow> bool \<Rightarrow> matrix" where
  "new_BaseMatrix_stride h w st d tr = \<lparr>height = h, width = w, stride = st, data = d, trans = tr, sparse = False\<rparr>"

text \<open>The copy constructor makes a \<open>BaseMatrixT\<close>, whatever class the original is of.\<close>

definition copy_BaseMatrix :: "matrix \<Rightarrow> matrix" where
  "copy_BaseMatrix m = \<lparr>height = height m, width = width m, stride = stride m, data = data m, trans = trans m,
     sparse = False\<rparr>"

definition set_data :: "u64 \<Rightarrow> matrix \<Rightarrow> matrix" where
  "set_data d m = m\<lparr>data := d\<rparr>"

definition SPARSE_SUPPORT_ERROR :: string where
  "SPARSE_SUPPORT_ERROR = ''Sparse Matrix/Vector is not support.''"

definition is_sparse :: "matrix \<Rightarrow> bool" where
  "is_sparse m = sparse m"

text \<open>The address of a row: it steps by the width, not by the stride.\<close>

definition row_buf :: "u64 \<Rightarrow> matrix \<Rightarrow> u64" where
  "row_buf row m = data m + width m * row"

text \<open>\<open>int x = size_t\<close>, and the \<open>int\<close> in an expression with a \<open>size_t\<close>.\<close>

definition to_int :: "u64 \<Rightarrow> 32 word" where
  "to_int x = ucast x"

definition of_int32 :: "32 word \<Rightarrow> u64" where
  "of_int32 x = scast x"

definition check_le :: "string \<Rightarrow> u64 \<Rightarrow> u64 \<Rightarrow> unit run" where
  "check_le msg x y = cc_check (''Check failed:'' @ msg) (x \<le> y)"

definition check_dense :: "string \<Rightarrow> bool \<Rightarrow> unit run" where
  "check_dense msg c = cc_check (''Check failed:'' @ msg @ SPARSE_SUPPORT_ERROR) c"

text \<open>The macro's two checks print its argument expressions; the model passes the two texts.\<close>

definition CAL_MATRIX_START_ADDRESS :: "string \<Rightarrow> string \<Rightarrow> u64 \<Rightarrow> u64 \<Rightarrow> u64 \<Rightarrow> 32 word \<Rightarrow> u64 \<Rightarrow> u64 \<Rightarrow> u64 run" where
  "CAL_MATRIX_START_ADDRESS col_text row_text address h w ld col row =
     bind (check_le col_text col w) (\<lambda>_.
     bind (check_le row_text row h) (\<lambda>_.
       return (address + (row * of_int32 ld + col))))"

section \<open>apply\<close>

definition apply_unary :: "'op \<Rightarrow> 32 word \<Rightarrow> 32 word \<Rightarrow> matrix_offset \<Rightarrow> matrix \<Rightarrow> (int \<times> u64) run" where
  "apply_unary op num_rows num_cols offset a =
     bind (check_dense ''!this->is_sparse() '' (\<not> sparse a)) (\<lambda>_.
     bind (CAL_MATRIX_START_ADDRESS ''(offset._aCol) <= (_width) '' ''(offset._bRow) <= (_height) ''
        (data a) (height a) (width a) (to_int (stride a)) (aCol offset) (bRow offset)) (\<lambda>t.
     bind (check_le ''(dim_m + offset._aRow) <= (this->_height) '' (of_int32 num_rows + aRow offset) (height a)) (\<lambda>_.
     bind (check_le ''(dim_n + offset._aCol) <= (this->_width) '' (of_int32 num_cols + aCol offset) (width a)) (\<lambda>_.
       return (0, t)))))"

definition apply_unary_all :: "'op \<Rightarrow> matrix \<Rightarrow> (int \<times> u64) run" where
  "apply_unary_all op a = apply_unary op (to_int (height a)) (to_int (width a)) (MatrixOffset 0 0 0 0 0 0 0 0) a"

text \<open>The second operand's height is passed as \<open>b._weight\<close>, a member the class does not have; the
  model reads it as \<open>b._height\<close>.\<close>

definition apply_binary :: "bool \<Rightarrow> bool \<Rightarrow> 'op \<Rightarrow> matrix \<Rightarrow> 32 word \<Rightarrow> 32 word \<Rightarrow> matrix_offset \<Rightarrow> matrix
    \<Rightarrow> (int \<times> u64 \<times> u64) run" where
  "apply_binary RowVector ColVector op b num_rows num_cols offset a =
     bind (check_dense ''!this->is_sparse() '' (\<not> sparse a)) (\<lambda>_.
     bind (check_dense ''b.is_sparse() '' (sparse b)) (\<lambda>_.
     bind (CAL_MATRIX_START_ADDRESS ''(offset._aCol) <= (_width) '' ''(offset._bRow) <= (_height) ''
        (data a) (height a) (width a) (to_int (stride a)) (aCol offset) (bRow offset)) (\<lambda>t1.
     bind (CAL_MATRIX_START_ADDRESS ''(offset._bCol) <= (b._width) '' ''(offset._bRow) <= (b._weight) ''
        (data b) (height b) (width b) (to_int (stride b)) (bCol offset) (bRow offset)) (\<lambda>t2.
     bind (check_le ''(dim_m + offset._aRow) <= (this->_height) '' (of_int32 num_rows + aRow offset) (height a)) (\<lambda>_.
     bind (check_le ''(dim_n + offset._bCol) <= (this->_width) '' (of_int32 num_cols + bCol offset) (width a)) (\<lambda>_.
     bind (if \<not> RowVector then check_le ''(dim_m + offset._bRow) <= (b._height) '' (of_int32 num_rows + bRow offset) (height b)
           else return ()) (\<lambda>_.
     bind (if \<not> ColVector then check_le ''(dim_n + offset._bCol) <= (b._width) '' (of_int32 num_cols + bCol offset) (width b)
           else return ()) (\<lambda>_.
       return (0, t1, t2)))))))))"

definition apply_binary_all :: "'op \<Rightarrow> matrix \<Rightarrow> matrix \<Rightarrow> (int \<times> u64 \<times> u64) run" where
  "apply_binary_all op b a =
     bind (cc_check ''Check failed:_height == b._height && _width == b._width Matrix dimensions are not equal.''
       (height a = height b \<and> width a = width b)) (\<lambda>_.
     apply_binary False False op b (to_int (height a)) (to_int (width a)) (MatrixOffset 0 0 0 0 0 0 0 0) a)"

definition apply_ternary :: "bool \<Rightarrow> bool \<Rightarrow> 'op \<Rightarrow> matrix \<Rightarrow> matrix \<Rightarrow> 32 word \<Rightarrow> 32 word \<Rightarrow> matrix_offset \<Rightarrow> matrix
    \<Rightarrow> (int \<times> u64 \<times> u64 \<times> u64) run" where
  "apply_ternary RowVector ColVector op b c num_rows num_cols offset a =
     bind (check_dense ''!this->is_sparse() '' (\<not> sparse a)) (\<lambda>_.
     bind (check_dense ''!b.is_sparse() '' (\<not> sparse b)) (\<lambda>_.
     bind (check_dense ''!c.is_sparse() '' (\<not> sparse c)) (\<lambda>_.
     bind (CAL_MATRIX_START_ADDRESS ''(offset._aCol) <= (_width) '' ''(offset._aRow) <= (_height) ''
        (data a) (height a) (width a) (to_int (stride a)) (aCol offset) (aRow offset)) (\<lambda>t1.
     bind (CAL_MATRIX_START_ADDRESS ''(offset._bCol) <= (b._width) '' ''(offset._bRow) <= (b._height) ''
        (data b) (height b) (width b) (to_int (stride b)) (bCol offset) (bRow offset)) (\<lambda>t2.
     bind (CAL_MATRIX_START_ADDRESS ''(offset._cCol) <= (c._width) '' ''(offset._cRow) <= (c._height) ''
        (data c) (height c) (width c) (to_int (stride c)) (cCol offset) (cRow offset)) (\<lambda>t3.
     bind (check_le ''(dim_m + offset._aRow) <= (this->_height) '' (of_int32 num_rows + aRow offset) (height a)) (\<lambda>_.
     bind (check_le ''(dim_n + offset._aCol) <= (this->_width) '' (of_int32 num_cols + aCol offset) (width a)) (\<lambda>_.
     bind (check_le ''(dim_m + offset._bRow) <= (b._height) '' (of_int32 num_rows + bRow offset) (height b)) (\<lambda>_.
     bind (check_le ''(dim_n + offset._bCol) <= (b._width) '' (of_int32 num_cols + bCol offset) (width b)) (\<lambda>_.
     bind (if \<not> RowVector then check_le ''(dim_m + offset._cRow) <= (c._height) '' (of_int32 num_rows + cRow offset) (height c)
           else return ()) (\<lambda>_.
     bind (if \<not> ColVector then check_le ''(dim_n + offset._cCol) <= (c._width) '' (of_int32 num_cols + cCol offset) (width c)
           else return ()) (\<lambda>_.
       return (0, t1, t2, t3)))))))))))))"

definition check_eq :: "string \<Rightarrow> u64 \<Rightarrow> u64 \<Rightarrow> unit run" where
  "check_eq msg x y = cc_check (''Check failed:'' @ msg) (x = y)"

definition apply_ternary_all :: "'op \<Rightarrow> matrix \<Rightarrow> matrix \<Rightarrow> matrix \<Rightarrow> (int \<times> u64 \<times> u64 \<times> u64) run" where
  "apply_ternary_all op b c a =
     bind (check_eq ''(_height) == (b._height) '' (height a) (height b)) (\<lambda>_.
     bind (check_eq ''(_width) == (b._width) '' (width a) (width b)) (\<lambda>_.
     bind (check_eq ''(_height) == (c._height) '' (height a) (height c)) (\<lambda>_.
     bind (check_eq ''(_width) == (c._width) '' (width a) (width c)) (\<lambda>_.
       apply_ternary False False op b c (to_int (height a)) (to_int (width a)) (MatrixOffset 0 0 0 0 0 0 0 0) a))))"

definition apply_quaternary :: "'op \<Rightarrow> matrix \<Rightarrow> matrix \<Rightarrow> matrix \<Rightarrow> 32 word \<Rightarrow> 32 word \<Rightarrow> matrix_offset \<Rightarrow> matrix
    \<Rightarrow> (int \<times> u64 \<times> u64 \<times> u64 \<times> u64) run" where
  "apply_quaternary op b c d num_rows num_cols offset a =
     bind (check_dense ''!this->is_sparse() '' (\<not> sparse a)) (\<lambda>_.
     bind (check_dense ''!b.is_sparse() '' (\<not> sparse b)) (\<lambda>_.
     bind (check_dense ''!c.is_sparse() '' (\<not> sparse c)) (\<lambda>_.
     bind (check_dense ''!d.is_sparse() '' (\<not> sparse d)) (\<lambda>_.
     bind (CAL_MATRIX_START_ADDRESS ''(offset._aCol) <= (_width) '' ''(offset._aRow) <= (_height) ''
        (data a) (height a) (width a) (to_int (stride a)) (aCol offset) (aRow offset)) (\<lambda>t1.
     bind (CAL_MATRIX_START_ADDRESS ''(offset._bCol) <= (b._width) '' ''(offset._bRow) <= (b._height) ''
        (data b) (height b) (width b) (to_int (stride b)) (bCol offset) (bRow offset)) (\<lambda>t2.
     bind (CAL_MATRIX_START_ADDRESS ''(offset._cCol) <= (c._width) '' ''(offset._cRow) <= (c._height) ''
        (data c) (height c) (width c) (to_int (stride c)) (cCol offset) (cRow offset)) (\<lambda>t3.
     bind (CAL_MATRIX_START_ADDRESS ''(offset._dCol) <= (d._width) '' ''(offset._dRow) <= (d._height) ''
        (data d) (height d) (width d) (to_int (stride d)) (dCol offset) (dRow offset)) (\<lambda>t4.
     bind (check_le ''(dim_m + offset._aRow) <= (this->_height) '' (of_int32 num_rows + aRow offset) (height a)) (\<lambda>_.
     bind (check_le ''(dim_n + offset._aCol) <= (this->_width) '' (of_int32 num_cols + aCol offset) (width a)) (\<lambda>_.
     bind (check_le ''(dim_m + offset._bRow) <= (b._height) '' (of_int32 num_rows + bRow offset) (height b)) (\<lambda>_.
     bind (check_le ''(dim_n + offset._bCol) <= (b._width) '' (of_int32 num_cols + bCol offset) (width b)) (\<lambda>_.
     bind (check_le ''(dim_m + offset._cRow) <= (c._height) '' (of_int32 num_rows + cRow offset) (height c)) (\<lambda>_.
     bind (check_le ''(dim_n + offset._cCol) <= (c._width) '' (of_int32 num_cols + cCol offset) (width c)) (\<lambda>_.
     bind (check_le ''(dim_m + offset._dRow) <= (d._height) '' (of_int32 num_rows + dRow offset) (height d)) (\<lambda>_.
     bind (check_le ''(dim_n + offset._dCol) <= (d._width) '' (of_int32 num_cols + dCol offset) (width d)) (\<lambda>_.
       return (0, t1, t2, t3, t4)))))))))))))))))"

definition apply_quaternary_all :: "'op \<Rightarrow> matrix \<Rightarrow> matrix \<Rightarrow> matrix \<Rightarrow> matrix \<Rightarrow> (int \<times> u64 \<times> u64 \<times> u64 \<times> u64) run" where
  "apply_quaternary_all op b c d a =
     bind (check_eq ''(_height) == (b._height) '' (height a) (height b)) (\<lambda>_.
     bind (check_eq ''(_width) == (b._width) '' (width a) (width b)) (\<lambda>_.
     bind (check_eq ''(_height) == (c._height) '' (height a) (height c)) (\<lambda>_.
     bind (check_eq ''(_width) == (c._width) '' (width a) (width c)) (\<lambda>_.
     bind (check_eq ''(_height) == (d._height) '' (height a) (height d)) (\<lambda>_.
     bind (check_eq ''(_width) == (d._width) '' (width a) (width d)) (\<lambda>_.
       apply_quaternary op b c d (to_int (height a)) (to_int (width a)) (MatrixOffset 0 0 0 0 0 0 0 0) a))))))"

section \<open>aggregate\<close>

definition aggregate :: "bool \<Rightarrow> bool \<Rightarrow> 'agg \<Rightarrow> 'op \<Rightarrow> 'saver \<Rightarrow> matrix \<Rightarrow> 32 word \<Rightarrow> 32 word \<Rightarrow> matrix_offset \<Rightarrow> matrix
    \<Rightarrow> (int \<times> u64 \<times> u64) run" where
  "aggregate RowVector ColVector agg op sv b num_rows num_cols offset a =
     bind (CAL_MATRIX_START_ADDRESS ''(offset._aCol) <= (_width) '' ''(offset._aRow) <= (_height) ''
        (data a) (height a) (width a) (to_int (stride a)) (aCol offset) (aRow offset)) (\<lambda>t1.
     bind (CAL_MATRIX_START_ADDRESS ''(offset._bCol) <= (b._width) '' ''(offset._bRow) <= (b._height) ''
        (data b) (height b) (width b) (to_int (stride b)) (bCol offset) (bRow offset)) (\<lambda>t2.
     bind (if RowVector = ColVector then log_msg FATAL ''Not supported.'' else return ()) (\<lambda>_.
       return (0, t1, t2))))"

definition aggregate2 :: "bool \<Rightarrow> bool \<Rightarrow> 'agg \<Rightarrow> 'op \<Rightarrow> 'saver \<Rightarrow> matrix \<Rightarrow> matrix \<Rightarrow> 32 word \<Rightarrow> 32 word \<Rightarrow> matrix_offset \<Rightarrow> matrix
    \<Rightarrow> (int \<times> u64 \<times> u64 \<times> u64) run" where
  "aggregate2 RowVector ColVector agg op sv b c num_rows num_cols offset a =
     bind (CAL_MATRIX_START_ADDRESS ''(offset._aCol) <= (_width) '' ''(offset._aRow) <= (_height) ''
        (data a) (height a) (width a) (to_int (stride a)) (aCol offset) (aRow offset)) (\<lambda>t1.
     bind (CAL_MATRIX_START_ADDRESS ''(offset._bCol) <= (b._width) '' ''(offset._bRow) <= (b._height) ''
        (data b) (height b) (width b) (to_int (stride b)) (bCol offset) (bRow offset)) (\<lambda>t2.
     bind (CAL_MATRIX_START_ADDRESS ''(offset._cCol) <= (c._width) '' ''(offset._cRow) <= (c._height) ''
        (data c) (height c) (width c) (to_int (stride c)) (cCol offset) (cRow offset)) (\<lambda>t3.
     bind (if RowVector = ColVector then log_msg FATAL ''Not supported.'' else return ()) (\<lambda>_.
       return (0, t1, t2, t3)))))"

section \<open>Passing the checks keeps the operands inside their matrices\<close>

text \<open>A matrix whose elements have addresses and whose dimensions fit an \<open>int\<close>.\<close>

definition fits :: "matrix \<Rightarrow> bool" where
  "fits x \<longleftrightarrow> unat (height x) < 2 ^ 31 \<and> width x \<le> stride x \<and> unat (stride x) < 2 ^ 31 \<and>
     unat (data x) + unat (height x) * unat (stride x) < 2 ^ 64"

text \<open>The address of the element in row \<open>i\<close> and column \<open>j\<close>, not wrapped; and that the \<open>rows\<close> by \<open>cols\<close>
  elements a kernel reaches from address \<open>t\<close> on, with the matrix's stride, are those of the matrix from
  the given row and column on, padding not included.\<close>

definition element_address :: "matrix \<Rightarrow> nat \<Rightarrow> nat \<Rightarrow> nat" where
  "element_address x i j = unat (data x) + i * unat (stride x) + j"

definition block_inside :: "matrix \<Rightarrow> u64 \<Rightarrow> u64 \<Rightarrow> u64 \<Rightarrow> nat \<Rightarrow> nat \<Rightarrow> bool" where
  "block_inside x row col t rows cols \<longleftrightarrow> (\<forall>r < rows. \<forall>k < cols.
     unat row + r < unat (height x) \<and> unat col + k < unat (width x) \<and>
     unat t + r * unat (stride x) + k = element_address x (unat row + r) (unat col + k))"

lemma of_int32_nat: "0 \<le> sint x \<Longrightarrow> unat (of_int32 x) = nat (sint x)"
proof -
  assume "0 \<le> sint x"
  moreover have "sint x < 2 ^ 31" using sint_lt [of x] by simp
  moreover have "uint (scast x :: u64) = take_bit 64 (sint x)"
    by (subst scast_eq, subst uint_word_of_int_eq) simp
  ultimately have "uint (scast x :: u64) = sint x" by (simp add: take_bit_int_eq_self)
  then show ?thesis unfolding of_int32_def by (metis nat_uint_eq)
qed

lemma of_int32_to_int: "unat x < 2 ^ 31 \<Longrightarrow> of_int32 (to_int x) = x"
proof -
  assume "unat x < 2 ^ 31"
  then have "int (unat x) < int (2 ^ 31)" by (simp only: of_nat_less_iff)
  then have small: "uint x < 2 ^ 31" by simp
  have "sint (ucast x :: 32 word) = signed_take_bit 31 (uint x)" by (simp add: signed_ucast_eq)
  also have "\<dots> = uint x"
    using small by (intro signed_take_bit_int_eq_self) (simp_all, smt (verit) uint_ge_0)
  finally show ?thesis
    unfolding of_int32_def to_int_def by (subst scast_eq) (simp only: word_of_int_uint)
qed

lemma start_inside:
  assumes "fits x" "col \<le> width x" "row \<le> height x" "0 \<le> sint m" "0 \<le> sint n"
    "of_int32 m + row \<le> height x" "of_int32 n + col \<le> width x"
  shows "block_inside x row col (data x + (row * of_int32 (to_int (stride x)) + col)) (nat (sint m)) (nat (sint n))"
  unfolding block_inside_def
proof (intro allI impI)
  fix r k assume r: "r < nat (sint m)" and k: "k < nat (sint n)"
  let ?s = "unat (stride x)" and ?h = "unat (height x)"
  from assms(1) have f: "?h < 2 ^ 31" "unat (width x) \<le> ?s" "?s < 2 ^ 31" "unat (data x) + ?h * ?s < 2 ^ 64"
    by (simp_all add: fits_def word_le_nat_alt)
  have small: "sint m < 2 ^ 31" "sint n < 2 ^ 31" using sint_lt [of m] sint_lt [of n] by simp_all
  have le: "unat row \<le> ?h" "unat col \<le> unat (width x)" using assms(2,3) by (simp_all add: word_le_nat_alt)
  have "unat (of_int32 m + row) = nat (sint m) + unat row"
    using small le(1) f(1) assms(4) by (subst unat_add_u64) (simp_all add: of_int32_nat)
  with assms(6) have rows: "nat (sint m) + unat row \<le> ?h" by (simp add: word_le_nat_alt)
  have "unat (of_int32 n + col) = nat (sint n) + unat col"
    using small le(2) f(2,3) assms(5) by (subst unat_add_u64) (simp_all add: of_int32_nat)
  with assms(7) have cols: "nat (sint n) + unat col \<le> unat (width x)" by (simp add: word_le_nat_alt)
  have "unat row + 1 \<le> ?h" using rows r by linarith
  then have "(unat row + 1) * ?s \<le> ?h * ?s" by (rule mult_le_mono1)
  moreover have "unat col < ?s" using cols k f(2) by linarith
  ultimately have inside: "unat row * ?s + unat col < ?h * ?s" by (simp add: algebra_simps)
  have mul: "unat (row * stride x) = unat row * ?s" using inside f(4) by (intro unat_mult_u64) linarith
  then have add: "unat (row * stride x + col) = unat row * ?s + unat col"
    using inside f(4) by (subst unat_add_u64) linarith+
  then have "unat (data x + (row * stride x + col)) = unat (data x) + (unat row * ?s + unat col)"
    using inside f(4) by (subst unat_add_u64) linarith+
  moreover have "unat row + r < ?h" "unat col + k < unat (width x)" using rows cols r k by linarith+
  ultimately show "unat row + r < ?h \<and> unat col + k < unat (width x) \<and>
      unat (data x + (row * of_int32 (to_int (stride x)) + col)) + r * ?s + k =
        element_address x (unat row + r) (unat col + k)"
    using of_int32_to_int [OF f(3)] by (simp add: element_address_def algebra_simps)
qed

lemma check_le_log: "fst (check_le msg x y) = [] \<longleftrightarrow> x \<le> y"
  by (simp add: check_le_def cc_check_def)

lemma check_le_value [simp]: "snd (check_le msg x y) = Inr ()" "snd (check_dense msg p) = Inr ()"
  by (simp_all add: check_le_def check_dense_def)

lemma start_address_value [simp]:
  "snd (CAL_MATRIX_START_ADDRESS ct rt ad h w ld col row) = Inr (ad + (row * of_int32 ld + col))"
  by (simp add: CAL_MATRIX_START_ADDRESS_def check_le_def)

lemma start_address_log:
  "fst (CAL_MATRIX_START_ADDRESS ct rt ad h w ld col row) = [] \<longleftrightarrow> col \<le> w \<and> row \<le> h"
  by (simp add: CAL_MATRIX_START_ADDRESS_def fst_bind check_le_log)

lemmas silent_simps = fst_bind check_le_log start_address_log snd_bind_Inr



text \<open>What the checks of the other routines do not keep: \<open>apply_unary\<close> starts at row \<open>bRow\<close> and checks
  \<open>aRow\<close>, the constructor of the offset drops \<open>aRow\<close>, and \<open>apply_binary\<close> demands a sparse second
  operand.\<close>

lemma MatrixOffset_drops_aRow: "MatrixOffset ac ar bc br cc cr dc dr = MatrixOffset ac ar' bc br cc cr dc dr"
  by (simp add: MatrixOffset_def)

lemma apply_binary_rejects_dense:
  assumes "\<not> sparse b"
  shows "run_log (apply_binary RowVector ColVector op b m n offset a) \<noteq> []"
  using assms by (simp add: apply_binary_def run_log_def fst_bind check_dense_def cc_check_def)

end
