(* ===== verification/MatrixOps.thy ===== *)
theory MatrixOps
  imports Prelude Complex_Main
begin

text \<open>
  The element-wise operators of math/BaseMatrix.cpp: the function objects that the
  \<open>DEFINE_MATRIX_*_OP\<close> macros declare, over the reals. A reference argument that an operator assigns
  is a result. \<open>real_t\<close> stands for the element type \<open>real\<close> (\<open>float\<close> or \<open>double\<close>): rounding, overflow
  and the values that are not numbers are not modelled, so at a pole (division by zero, \<open>log\<close> or \<open>sqrt\<close>
  outside its domain) an equation here says nothing about the code. \<open>std::pow\<close> is a parameter.
  The lemmas relate the operators of the forward pass to those of the backward pass: each
  \<open>*Derivative\<close> multiplies the incoming gradient by the derivative of the activation.
\<close>

type_synonym real_t = real

section \<open>Unary operators\<close>

definition unary_Neg :: "real_t \<Rightarrow> real_t" where
  "unary_Neg a = - a"

definition unary_Exp :: "real_t \<Rightarrow> real_t" where
  "unary_Exp a = exp a"

definition unary_Log :: "real_t \<Rightarrow> real_t" where
  "unary_Log a = ln a"

definition unary_Sqrt :: "real_t \<Rightarrow> real_t" where
  "unary_Sqrt a = sqrt a"

definition unary_Square :: "real_t \<Rightarrow> real_t" where
  "unary_Square a = a * a"

definition unary_Reciprocal :: "real_t \<Rightarrow> real_t" where
  "unary_Reciprocal a = 1 / a"

definition unary_Abs :: "real_t \<Rightarrow> real_t" where
  "unary_Abs a = (if a > 0 then a else - a)"

definition unary_Sign :: "real_t \<Rightarrow> real_t" where
  "unary_Sign a = of_bool (a > 0) - (a - 0)"

definition unary_Zero :: "real_t \<Rightarrow> real_t" where
  "unary_Zero a = 0"

definition unary_Pow :: "(real_t \<Rightarrow> real_t \<Rightarrow> real_t) \<Rightarrow> real_t \<Rightarrow> real_t \<Rightarrow> real_t" where
  "unary_Pow fpow t a = fpow a t"

definition unary_SubScalar :: "real_t \<Rightarrow> real_t \<Rightarrow> real_t" where
  "unary_SubScalar t a = a - t"

definition unary_MulScalar :: "real_t \<Rightarrow> real_t \<Rightarrow> real_t" where
  "unary_MulScalar t a = a * t"

definition unary_DivScalar :: "real_t \<Rightarrow> real_t \<Rightarrow> real_t" where
  "unary_DivScalar t a = a / t"

definition unary_Assign :: "real_t \<Rightarrow> real_t \<Rightarrow> real_t" where
  "unary_Assign t a = t"

definition unary_Add :: "real_t \<Rightarrow> real_t \<Rightarrow> real_t" where
  "unary_Add t a = a + t"

definition unary_Add2 :: "real_t \<Rightarrow> real_t \<Rightarrow> real_t \<Rightarrow> real_t" where
  "unary_Add2 t1 t2 a = a * t1 + t2"

definition unary_Clip :: "real_t \<Rightarrow> real_t \<Rightarrow> real_t \<Rightarrow> real_t" where
  "unary_Clip t1 t2 a = (if a < t1 then t1 else (if a > t2 then t2 else a))"

definition unary_DownClip :: "real_t \<Rightarrow> real_t \<Rightarrow> real_t" where
  "unary_DownClip t a = (if a > t then a else t)"

definition unary_BiggerThanScalar :: "real_t \<Rightarrow> real_t \<Rightarrow> real_t" where
  "unary_BiggerThanScalar t a = (if a > t then 1 else 0)"

definition unary_ApplyL1 :: "real_t \<Rightarrow> real_t \<Rightarrow> real_t" where
  "unary_ApplyL1 t a = (let lambda = t in if a > lambda then a - lambda else if a < - lambda then a + lambda else 0)"

section \<open>Binary operators\<close>

text \<open>Both operands are references: the result is the pair of their new values.\<close>

definition binary_Add :: "real_t \<Rightarrow> real_t \<Rightarrow> real_t \<times> real_t" where
  "binary_Add a b = (a + b, b)"

definition binary_Add1 :: "real_t \<Rightarrow> real_t \<Rightarrow> real_t \<Rightarrow> real_t \<times> real_t" where
  "binary_Add1 t a b = (a + b * t, b)"

definition binary_Pow :: "(real_t \<Rightarrow> real_t \<Rightarrow> real_t) \<Rightarrow> real_t \<Rightarrow> real_t \<Rightarrow> real_t \<Rightarrow> real_t \<times> real_t" where
  "binary_Pow fpow t a b = (fpow b t, b)"

definition binary_Add2 :: "real_t \<Rightarrow> real_t \<Rightarrow> real_t \<Rightarrow> real_t \<Rightarrow> real_t \<times> real_t" where
  "binary_Add2 t1 t2 a b = (t1 * a + t2 * b, b)"

definition binary_Sub :: "real_t \<Rightarrow> real_t \<Rightarrow> real_t \<times> real_t" where
  "binary_Sub a b = (a - b, b)"

definition binary_Sub1 :: "real_t \<Rightarrow> real_t \<Rightarrow> real_t \<Rightarrow> real_t \<times> real_t" where
  "binary_Sub1 t a b = (a - b * t, b)"

definition binary_Relu :: "real_t \<Rightarrow> real_t \<Rightarrow> real_t \<times> real_t" where
  "binary_Relu a b = (a, if a > 0 then a else 0)"

definition binary_ReluDerivative :: "real_t \<Rightarrow> real_t \<Rightarrow> real_t \<times> real_t" where
  "binary_ReluDerivative a b = (a * (if b > 0 then 1 else 0), b)"

definition binary_SoftRelu :: "real_t \<Rightarrow> real_t \<Rightarrow> real_t \<times> real_t" where
  "binary_SoftRelu a b = (a, ln (1 + exp (if a > 40 then 40 else (if a < - 40 then - 40 else a))))"

definition binary_SoftReluDerivative :: "real_t \<Rightarrow> real_t \<Rightarrow> real_t \<times> real_t" where
  "binary_SoftReluDerivative a b = (a * (1 - exp (- 1 * (if b > 40 then 40 else (if b < - 40 then - 40 else b)))), b)"

definition binary_Brelu :: "real_t \<Rightarrow> real_t \<Rightarrow> real_t \<Rightarrow> real_t \<Rightarrow> real_t \<times> real_t" where
  "binary_Brelu t1 t2 a b = (a, let b1 = (if a > t1 then a else t1) in if b1 < t2 then b1 else t2)"

definition binary_BreluDerivative :: "real_t \<Rightarrow> real_t \<Rightarrow> real_t \<Rightarrow> real_t \<Rightarrow> real_t \<times> real_t" where
  "binary_BreluDerivative t1 t2 a b = (a * (if b > t1 \<and> b < t2 then 1 else 0), b)"

definition binary_Square :: "real_t \<Rightarrow> real_t \<Rightarrow> real_t \<times> real_t" where
  "binary_Square a b = (a, a * a)"

definition binary_SquareDerivative :: "real_t \<Rightarrow> real_t \<Rightarrow> real_t \<times> real_t" where
  "binary_SquareDerivative a b = (a * (2 * b), b)"

definition binary_Tanh :: "real_t \<Rightarrow> real_t \<Rightarrow> real_t \<times> real_t" where
  "binary_Tanh a b = (a, 2 / (1 + exp (- 2 * b)) - 1)"

definition binary_TanhDerivative :: "real_t \<Rightarrow> real_t \<Rightarrow> real_t \<times> real_t" where
  "binary_TanhDerivative a b = (a * (1 - b * b), b)"

definition binary_ScaledTanh :: "real_t \<Rightarrow> real_t \<Rightarrow> real_t \<Rightarrow> real_t \<Rightarrow> real_t \<times> real_t" where
  "binary_ScaledTanh t1 t2 a b = (a, t1 * (2 / (1 + exp (- 2 * t2 * a)) - 1))"

definition binary_ScaledTanhDerivative :: "real_t \<Rightarrow> real_t \<Rightarrow> real_t \<Rightarrow> real_t \<Rightarrow> real_t \<times> real_t" where
  "binary_ScaledTanhDerivative t1 t2 a b = (a * (t2 * (t1 - b * b)), b)"

definition binary_ReciprocalDerivative :: "real_t \<Rightarrow> real_t \<Rightarrow> real_t \<times> real_t" where
  "binary_ReciprocalDerivative a b = (a * (- b * b), b)"

definition binary_Abs :: "real_t \<Rightarrow> real_t \<Rightarrow> real_t \<times> real_t" where
  "binary_Abs a b = (a, if a > 0 then a else - a)"

definition binary_AbsDerivative :: "real_t \<Rightarrow> real_t \<Rightarrow> real_t \<times> real_t" where
  "binary_AbsDerivative a b = (if b > 0 then a else if b < 0 then - a else 0, b)"

text \<open>\<open>binary::Sigmoid\<close> is defined in the source and used by no method: \<open>BaseMatrixT::sigmoid\<close> has loops of
  its own (\<open>mat_sigmoid\<close> in MatrixMethods). Its derivative is used by \<open>sigmoid_derivative\<close>.\<close>

definition binary_Sigmoid :: "real_t \<Rightarrow> real_t \<Rightarrow> real_t \<times> real_t" where
  "binary_Sigmoid a b = (a, let tmp = (if a < - 40 then - 40 else (if a > 13 then 13 else a)) in 1 / (1 + exp (- tmp)))"

definition binary_SigmoidDerivative :: "real_t \<Rightarrow> real_t \<Rightarrow> real_t \<times> real_t" where
  "binary_SigmoidDerivative a b = (a * (b * (1 - b)), b)"

definition binary_ExpDerivative :: "real_t \<Rightarrow> real_t \<Rightarrow> real_t \<times> real_t" where
  "binary_ExpDerivative a b = (a * b, b)"

definition binary_Sign :: "real_t \<Rightarrow> real_t \<Rightarrow> real_t \<times> real_t" where
  "binary_Sign a b = (a, if a > 0 then 1 else - 1)"

definition binary_Exp :: "real_t \<Rightarrow> real_t \<Rightarrow> real_t \<times> real_t" where
  "binary_Exp a b = (exp b, b)"

definition binary_Log :: "real_t \<Rightarrow> real_t \<Rightarrow> real_t \<times> real_t" where
  "binary_Log a b = (ln b, b)"

definition binary_Sqrt :: "real_t \<Rightarrow> real_t \<Rightarrow> real_t \<times> real_t" where
  "binary_Sqrt a b = (sqrt b, b)"

definition binary_InvSqrt :: "real_t \<Rightarrow> real_t \<Rightarrow> real_t \<times> real_t" where
  "binary_InvSqrt a b = (1 / sqrt b, b)"

definition binary_IsEqualTo :: "real_t \<Rightarrow> real_t \<Rightarrow> real_t \<Rightarrow> real_t \<times> real_t" where
  "binary_IsEqualTo t a b = (of_bool (b = t), b)"

definition binary_AddScalar :: "real_t \<Rightarrow> real_t \<Rightarrow> real_t \<Rightarrow> real_t \<times> real_t" where
  "binary_AddScalar t a b = (b + t, b)"

definition binary_SubScalar :: "real_t \<Rightarrow> real_t \<Rightarrow> real_t \<Rightarrow> real_t \<times> real_t" where
  "binary_SubScalar t a b = (b - t, b)"

definition binary_MulScalar :: "real_t \<Rightarrow> real_t \<Rightarrow> real_t \<Rightarrow> real_t \<times> real_t" where
  "binary_MulScalar t a b = (b * t, b)"

definition binary_DivScalar :: "real_t \<Rightarrow> real_t \<Rightarrow> real_t \<Rightarrow> real_t \<times> real_t" where
  "binary_DivScalar t a b = (b / t, b)"

definition binary_ApplyL1 :: "real_t \<Rightarrow> real_t \<Rightarrow> real_t \<Rightarrow> real_t \<times> real_t" where
  "binary_ApplyL1 t a b = (let lambda = t * b in if a > lambda then a - lambda else (if a < - lambda then a + lambda else 0), b)"

definition binary_ApplyL2 :: "real_t \<Rightarrow> real_t \<Rightarrow> real_t \<Rightarrow> real_t \<times> real_t" where
  "binary_ApplyL2 t a b = (a * (1 / (1 + t * b)), b)"

definition binary_DotMul :: "real_t \<Rightarrow> real_t \<Rightarrow> real_t \<times> real_t" where
  "binary_DotMul a b = (a * b, b)"

section \<open>Ternary operators\<close>

text \<open>All of them assign the first operand only.\<close>

definition ternary_SoftCrossEntropy :: "real_t \<Rightarrow> real_t \<Rightarrow> real_t \<Rightarrow> real_t" where
  "ternary_SoftCrossEntropy a b c = - c * ln b - (1 - c) * ln (1 - b)"

definition ternary_SoftCrossEntropyBp :: "real_t \<Rightarrow> real_t \<Rightarrow> real_t \<Rightarrow> real_t" where
  "ternary_SoftCrossEntropyBp a b c = a + (b - c) / (b * (1 - b))"

definition ternary_BinaryLabelCrossEntropy :: "real_t \<Rightarrow> real_t \<Rightarrow> real_t \<Rightarrow> real_t" where
  "ternary_BinaryLabelCrossEntropy a b c = (if c > 1 / 2 then - ln b else - ln (1 - b))"

definition ternary_BinaryLabelCrossEntropyBp :: "real_t \<Rightarrow> real_t \<Rightarrow> real_t \<Rightarrow> real_t" where
  "ternary_BinaryLabelCrossEntropyBp a b c = a + (if c > 1 / 2 then - 1 / b else 1 / (1 - b))"

definition ternary_Add :: "real_t \<Rightarrow> real_t \<Rightarrow> real_t \<Rightarrow> real_t" where
  "ternary_Add a b c = b + c"

definition ternary_Add1 :: "real_t \<Rightarrow> real_t \<Rightarrow> real_t \<Rightarrow> real_t \<Rightarrow> real_t \<Rightarrow> real_t" where
  "ternary_Add1 t1 t2 a b c = t1 * b + t2 * c"

definition ternary_Sub :: "real_t \<Rightarrow> real_t \<Rightarrow> real_t \<Rightarrow> real_t" where
  "ternary_Sub a b c = c - c"

definition ternary_Sub1 :: "real_t \<Rightarrow> real_t \<Rightarrow> real_t \<Rightarrow> real_t \<Rightarrow> real_t \<Rightarrow> real_t" where
  "ternary_Sub1 t1 t2 a b c = t1 * b - t2 * c"

definition ternary_Add2 :: "real_t \<Rightarrow> real_t \<Rightarrow> real_t \<Rightarrow> real_t" where
  "ternary_Add2 a b c = a + (b + c)"

definition ternary_Add3 :: "real_t \<Rightarrow> real_t \<Rightarrow> real_t \<Rightarrow> real_t \<Rightarrow> real_t \<Rightarrow> real_t \<Rightarrow> real_t" where
  "ternary_Add3 t1 t2 t3 a b c = t1 * a + t2 * b + t3 * c"

definition ternary_DotMul :: "real_t \<Rightarrow> real_t \<Rightarrow> real_t \<Rightarrow> real_t" where
  "ternary_DotMul a b c = b * c"

definition ternary_DotDiv :: "real_t \<Rightarrow> real_t \<Rightarrow> real_t \<Rightarrow> real_t" where
  "ternary_DotDiv a b c = (if b = 0 then 0 else b / c)"

definition ternary_DotDiv2P :: "real_t \<Rightarrow> real_t \<Rightarrow> real_t \<Rightarrow> real_t \<Rightarrow> real_t \<Rightarrow> real_t" where
  "ternary_DotDiv2P t1 t2 a b c = (b + t1) / (c + t2)"

definition ternary_LogisticRegressionLoss :: "real_t \<Rightarrow> real_t \<Rightarrow> real_t \<Rightarrow> real_t" where
  "ternary_LogisticRegressionLoss a b c = (let x = (if b > 40 then 40 else if b < - 40 then - 40 else b) in ln (1 + exp x) - c * x)"

definition ternary_LogisticRegressionLossBp :: "real_t \<Rightarrow> real_t \<Rightarrow> real_t \<Rightarrow> real_t" where
  "ternary_LogisticRegressionLossBp a b c = (let x = (if b > 40 then 40 else if b < - 40 then - 40 else b); y = exp x in y / (1 + y) - c)"

definition ternary_BiggerThan :: "real_t \<Rightarrow> real_t \<Rightarrow> real_t \<Rightarrow> real_t" where
  "ternary_BiggerThan a b c = (if b > c then 1 else 0)"

section \<open>Quaternary operators\<close>

text \<open>The new values of the first and the third operand; the others are read.\<close>

definition quaternary_SgdUpdate :: "real_t \<Rightarrow> real_t \<Rightarrow> real_t \<Rightarrow> real_t \<Rightarrow> real_t \<Rightarrow> real_t \<Rightarrow> real_t \<Rightarrow> real_t \<times> real_t" where
  "quaternary_SgdUpdate t1 t2 t3 a b c d = (a, t2 * c - t1 * (b + t3 * a))"

definition quaternary_RankLoss :: "real_t \<Rightarrow> real_t \<Rightarrow> real_t \<Rightarrow> real_t \<Rightarrow> real_t \<times> real_t" where
  "quaternary_RankLoss a b c d = (let x = b - c; y = (if x > 40 then 40 else (if x < - 40 then - 40 else x)) in ln (1 + exp y) - y * d, c)"

definition quaternary_RankLossBp :: "real_t \<Rightarrow> real_t \<Rightarrow> real_t \<Rightarrow> real_t \<Rightarrow> real_t \<times> real_t" where
  "quaternary_RankLossBp a b c d = (let x = b - c; y = (if x > 40 then 40 else (if x < - 40 then - 40 else x)); z = exp y in z / (1 + z) - d, c)"

section \<open>Gradients\<close>

text \<open>\<open>bwd\<close> turns an incoming gradient into the gradient at \<open>x\<close> by the chain rule through \<open>fwd\<close>.\<close>

definition chain_rule :: "(real_t \<Rightarrow> real_t) \<Rightarrow> (real_t \<Rightarrow> real_t) \<Rightarrow> real_t \<Rightarrow> bool" where
  "chain_rule fwd bwd x \<longleftrightarrow> (\<exists>D. (fwd has_real_derivative D) (at x) \<and> (\<forall>g. bwd g = g * D))"

lemma chain_ruleI:
  "(fwd has_real_derivative D) (at x) \<Longrightarrow> (\<And>g. bwd g = g * D) \<Longrightarrow> chain_rule fwd bwd x"
  by (auto simp: chain_rule_def)

text \<open>A function that equals another on an open interval has its derivative there.\<close>

lemma derivative_on_interval:
  fixes f h :: "real \<Rightarrow> real"
  assumes "(h has_real_derivative D) (at x)" "l < x" "x < u" "\<And>y. l < y \<Longrightarrow> y < u \<Longrightarrow> f y = h y"
  shows "(f has_real_derivative D) (at x)"
  using assms by (intro has_field_derivative_transform_within_open [OF assms(1), of "{l<..<u}"]) auto

lemma sigmoid_gradient:
  assumes "- 40 < x" "x < 13"
  shows "chain_rule (\<lambda>x. snd (binary_Sigmoid x b)) (\<lambda>g. fst (binary_SigmoidDerivative g (snd (binary_Sigmoid x b)))) x"
proof -
  let ?h = "\<lambda>x::real. 1 / (1 + exp (- x))"
  have pos: "1 + exp (- x) \<noteq> 0" by (smt (verit) exp_gt_zero)
  then have "(?h has_real_derivative ?h x * (1 - ?h x)) (at x)"
    by (auto intro!: derivative_eq_intros simp: field_simps)
  then have "((\<lambda>x. snd (binary_Sigmoid x b)) has_real_derivative ?h x * (1 - ?h x)) (at x)"
    by (rule derivative_on_interval [where l = "- 40" and u = 13]) (use assms in \<open>auto simp: binary_Sigmoid_def Let_def\<close>)
  then show ?thesis
    by (rule chain_ruleI) (use assms in \<open>simp add: binary_SigmoidDerivative_def binary_Sigmoid_def Let_def\<close>)
qed

lemma relu_gradient:
  assumes "x \<noteq> 0"
  shows "chain_rule (\<lambda>x. snd (binary_Relu x b)) (\<lambda>g. fst (binary_ReluDerivative g (snd (binary_Relu x b)))) x"
proof (cases "x > 0")
  case True
  have "((\<lambda>x. snd (binary_Relu x b)) has_real_derivative 1) (at x)"
    by (rule derivative_on_interval [where h = "\<lambda>x. x" and l = 0 and u = "x + 1"])
      (use True in \<open>auto simp: binary_Relu_def\<close>)
  then show ?thesis by (rule chain_ruleI) (use True in \<open>simp add: binary_ReluDerivative_def binary_Relu_def\<close>)
next
  case False
  have "((\<lambda>x. snd (binary_Relu x b)) has_real_derivative 0) (at x)"
    by (rule derivative_on_interval [where h = "\<lambda>x. 0" and l = "x - 1" and u = 0])
      (use False assms in \<open>auto simp: binary_Relu_def\<close>)
  then show ?thesis by (rule chain_ruleI) (use False in \<open>simp add: binary_ReluDerivative_def binary_Relu_def\<close>)
qed

lemma soft_relu_gradient:
  assumes "- 40 < x" "1 + exp x \<le> exp 40"
  shows "chain_rule (\<lambda>x. snd (binary_SoftRelu x b)) (\<lambda>g. fst (binary_SoftReluDerivative g (snd (binary_SoftRelu x b)))) x"
proof -
  let ?h = "\<lambda>x::real. ln (1 + exp x)"
  have pos: "0 < 1 + exp x" by (smt (verit) exp_gt_zero)
  have "exp x < exp (40 :: real)" using assms(2) by linarith
  then have x: "x < 40" by simp
  have "?h x \<le> ln (exp 40)" using pos assms(2) by (subst ln_le_cancel_iff) simp_all
  then have "?h x \<le> 40" by simp
  moreover have "0 \<le> ?h x" by simp
  ultimately have out: "\<not> ?h x < - 40" "\<not> 40 < ?h x" by linarith+
  have "exp (- ?h x) = 1 / (1 + exp x)" using pos by (simp add: exp_minus inverse_eq_divide)
  then have bwd: "1 - exp (- ?h x) = exp x / (1 + exp x)" using pos by (simp add: field_simps)
  have "(?h has_real_derivative exp x / (1 + exp x)) (at x)"
    using pos by (auto intro!: derivative_eq_intros simp: field_simps)
  then have "((\<lambda>x. snd (binary_SoftRelu x b)) has_real_derivative exp x / (1 + exp x)) (at x)"
    by (rule derivative_on_interval [where l = "- 40" and u = 40]) (use assms(1) x in \<open>auto simp: binary_SoftRelu_def\<close>)
  moreover have "snd (binary_SoftRelu x b) = ?h x" using assms(1) x by (simp add: binary_SoftRelu_def)
  ultimately show ?thesis
    using out bwd by (intro chain_ruleI [where D = "exp x / (1 + exp x)"]) (simp_all add: binary_SoftReluDerivative_def)
qed

text \<open>Where the forward operator is constant but the backward operator is not zero, the rule fails.\<close>

lemma no_chain_rule:
  assumes "(fwd has_real_derivative 0) (at x)" "bwd 1 \<noteq> 0"
  shows "\<not> chain_rule fwd bwd x"
  using assms DERIV_unique by (fastforce simp: chain_rule_def)

lemma sigmoid_gradient_outside:
  assumes "x < - 40 \<or> 13 < x"
  shows "\<not> chain_rule (\<lambda>x. snd (binary_Sigmoid x b)) (\<lambda>g. fst (binary_SigmoidDerivative g (snd (binary_Sigmoid x b)))) x"
proof (rule no_chain_rule)
  have "((\<lambda>x. snd (binary_Sigmoid x b)) has_real_derivative 0) (at x)" if "x < - 40"
    by (rule derivative_on_interval [where h = "\<lambda>_. 1 / (1 + exp 40)" and l = "x - 1" and u = "- 40"])
      (use that in \<open>auto simp: binary_Sigmoid_def Let_def\<close>)
  moreover have "((\<lambda>x. snd (binary_Sigmoid x b)) has_real_derivative 0) (at x)" if "13 < x"
    by (rule derivative_on_interval [where h = "\<lambda>_. 1 / (1 + exp (- 13))" and l = 13 and u = "x + 1"])
      (use that in \<open>auto simp: binary_Sigmoid_def Let_def\<close>)
  ultimately show "((\<lambda>x. snd (binary_Sigmoid x b)) has_real_derivative 0) (at x)" using assms by blast
  have inside: "1 / (1 + exp y) \<noteq> 0 \<and> 1 / (1 + exp y) \<noteq> 1" for y :: real
    using exp_gt_zero [of y] by (simp add: add_pos_pos less_imp_neq [symmetric])
  show "fst (binary_SigmoidDerivative 1 (snd (binary_Sigmoid x b))) \<noteq> 0"
    using inside by (simp add: binary_SigmoidDerivative_def binary_Sigmoid_def Let_def)
qed

lemma soft_relu_gradient_outside:
  assumes "x < - 40 \<or> 40 < x"
  shows "\<not> chain_rule (\<lambda>x. snd (binary_SoftRelu x b)) (\<lambda>g. fst (binary_SoftReluDerivative g (snd (binary_SoftRelu x b)))) x"
proof (rule no_chain_rule)
  have "((\<lambda>x. snd (binary_SoftRelu x b)) has_real_derivative 0) (at x)" if "x < - 40"
    by (rule derivative_on_interval [where h = "\<lambda>_. ln (1 + exp (- 40))" and l = "x - 1" and u = "- 40"])
      (use that in \<open>auto simp: binary_SoftRelu_def\<close>)
  moreover have "((\<lambda>x. snd (binary_SoftRelu x b)) has_real_derivative 0) (at x)" if "40 < x"
    by (rule derivative_on_interval [where h = "\<lambda>_. ln (1 + exp 40)" and l = 40 and u = "x + 1"])
      (use that in \<open>auto simp: binary_SoftRelu_def\<close>)
  ultimately show "((\<lambda>x. snd (binary_SoftRelu x b)) has_real_derivative 0) (at x)" using assms by blast
  have "snd (binary_SoftRelu x b) \<noteq> 0"
    using ln_gt_zero [of "1 + exp y" for y :: real] by (simp add: binary_SoftRelu_def less_imp_neq [symmetric])
  then show "fst (binary_SoftReluDerivative 1 (snd (binary_SoftRelu x b))) \<noteq> 0"
    by (simp add: binary_SoftReluDerivative_def)
qed

lemma brelu_gradient:
  assumes "x \<noteq> t1" "x \<noteq> t2" "t1 < t2"
  shows "chain_rule (\<lambda>x. snd (binary_Brelu t1 t2 x b)) (\<lambda>g. fst (binary_BreluDerivative t1 t2 g (snd (binary_Brelu t1 t2 x b)))) x"
proof -
  note defs = binary_BreluDerivative_def binary_Brelu_def Let_def
  consider "x < t1" | "t1 < x" "x < t2" | "t2 < x" using assms by linarith
  then show ?thesis
  proof cases
    case 1
    have "((\<lambda>x. snd (binary_Brelu t1 t2 x b)) has_real_derivative 0) (at x)"
      by (rule derivative_on_interval [where h = "\<lambda>x. t1" and l = "x - 1" and u = t1]) (use 1 assms in \<open>auto simp: defs\<close>)
    then show ?thesis by (rule chain_ruleI) (use 1 assms in \<open>simp add: defs\<close>)
  next
    case 2
    have "((\<lambda>x. snd (binary_Brelu t1 t2 x b)) has_real_derivative 1) (at x)"
      by (rule derivative_on_interval [where h = "\<lambda>x. x" and l = t1 and u = t2]) (use 2 in \<open>auto simp: defs\<close>)
    then show ?thesis by (rule chain_ruleI) (use 2 in \<open>simp add: defs\<close>)
  next
    case 3
    have "((\<lambda>x. snd (binary_Brelu t1 t2 x b)) has_real_derivative 0) (at x)"
      by (rule derivative_on_interval [where h = "\<lambda>x. t2" and l = t2 and u = "x + 1"]) (use 3 assms in \<open>auto simp: defs\<close>)
    then show ?thesis by (rule chain_ruleI) (use 3 assms in \<open>simp add: defs\<close>)
  qed
qed

lemma tanh_algebra:
  fixes e s1 s2 :: real
  assumes "1 + e \<noteq> 0" "s1 \<noteq> 0"
  shows "s2 / s1 * (s1 * s1 - s1 * (2 / (1 + e) - 1) * (s1 * (2 / (1 + e) - 1))) = s1 * (4 * s2 * e / (1 + e)\<^sup>2)"
proof -
  have "2 / (1 + e) - 1 = (1 - e) / (1 + e)" using assms(1) by (simp add: field_simps)
  then have "s1 * s1 - s1 * (2 / (1 + e) - 1) * (s1 * (2 / (1 + e) - 1)) = s1 * s1 * (1 - ((1 - e) / (1 + e))\<^sup>2)"
    by (simp add: algebra_simps power2_eq_square)
  also have "1 - ((1 - e) / (1 + e))\<^sup>2 = ((1 + e)\<^sup>2 - (1 - e)\<^sup>2) / (1 + e)\<^sup>2"
    unfolding power_divide using assms(1) by (simp add: field_simps)
  also have "(1 + e)\<^sup>2 - (1 - e)\<^sup>2 = 4 * e" by (simp add: power2_eq_square algebra_simps)
  finally show ?thesis using assms(2) by (simp add: field_simps)
qed

lemma scaled_tanh_gradient:
  assumes "s1 \<noteq> 0"
  shows "chain_rule (\<lambda>x. snd (binary_ScaledTanh s1 s2 x b))
    (\<lambda>g. fst (binary_ScaledTanhDerivative (s1 * s1) (s2 / s1) g (snd (binary_ScaledTanh s1 s2 x b)))) x"
proof -
  let ?e = "exp (- 2 * s2 * x)"
  have pos: "1 + ?e \<noteq> 0" by (smt (verit) exp_gt_zero)
  have "((\<lambda>x. s1 * (2 / (1 + exp (- 2 * s2 * x)) - 1)) has_real_derivative s1 * (4 * s2 * ?e / (1 + ?e)\<^sup>2)) (at x)"
    using pos by (auto intro!: derivative_eq_intros simp: field_simps power2_eq_square)
  then show ?thesis
    by (intro chain_ruleI [where D = "s1 * (4 * s2 * ?e / (1 + ?e)\<^sup>2)"])
      (simp_all only: binary_ScaledTanh_def binary_ScaledTanhDerivative_def fst_conv snd_conv tanh_algebra [OF pos assms])
qed

lemma tanh_gradient: "chain_rule tanh (\<lambda>g. fst (binary_TanhDerivative g (tanh x))) x"
  by (rule chain_ruleI [where D = "1 - tanh x * tanh x"])
    (auto simp: binary_TanhDerivative_def power2_eq_square intro!: derivative_eq_intros)

lemma exp_gradient: "chain_rule (\<lambda>x. fst (binary_Exp a x)) (\<lambda>g. fst (binary_ExpDerivative g (fst (binary_Exp a x)))) x"
  by (rule chain_ruleI [where D = "exp x"]) (auto simp: binary_Exp_def binary_ExpDerivative_def intro!: derivative_eq_intros)

lemma square_gradient: "chain_rule (\<lambda>x. snd (binary_Square x b)) (\<lambda>g. fst (binary_SquareDerivative g x)) x"
  by (rule chain_ruleI [where D = "2 * x"]) (auto simp: binary_Square_def binary_SquareDerivative_def intro!: derivative_eq_intros)

lemma reciprocal_gradient:
  "x \<noteq> 0 \<Longrightarrow> chain_rule unary_Reciprocal (\<lambda>g. fst (binary_ReciprocalDerivative g (unary_Reciprocal x))) x"
  by (rule chain_ruleI [where D = "- 1 / (x * x)"])
    (auto simp: unary_Reciprocal_def [abs_def] binary_ReciprocalDerivative_def intro!: derivative_eq_intros)

lemma abs_gradient:
  assumes "x \<noteq> 0"
  shows "chain_rule (\<lambda>x. snd (binary_Abs x b)) (\<lambda>g. fst (binary_AbsDerivative g x)) x"
proof (cases "x > 0")
  case True
  have "((\<lambda>x. snd (binary_Abs x b)) has_real_derivative 1) (at x)"
    by (rule derivative_on_interval [where h = "\<lambda>x. x" and l = 0 and u = "x + 1"]) (use True in \<open>auto simp: binary_Abs_def\<close>)
  then show ?thesis by (rule chain_ruleI) (use True in \<open>simp add: binary_AbsDerivative_def\<close>)
next
  case False
  have "((\<lambda>x. snd (binary_Abs x b)) has_real_derivative - 1) (at x)"
    by (rule derivative_on_interval [where h = "\<lambda>x. - x" and l = "x - 1" and u = 0])
      (use False assms in \<open>auto simp: binary_Abs_def intro!: derivative_eq_intros\<close>)
  then show ?thesis by (rule chain_ruleI) (use False assms in \<open>simp add: binary_AbsDerivative_def\<close>)
qed

text \<open>The losses: \<open>D\<close> is the derivative of the loss in its prediction \<open>b\<close>. The cross entropies add it to the
  first operand, the logistic and the rank loss assign it.\<close>

definition loss_gradient :: "(real_t \<Rightarrow> real_t) \<Rightarrow> real_t \<Rightarrow> real_t \<Rightarrow> bool" where
  "loss_gradient loss b D \<longleftrightarrow> (loss has_real_derivative D) (at b)"

lemma soft_cross_entropy_gradient:
  assumes "0 < b" "b < 1"
  shows "loss_gradient (\<lambda>b. ternary_SoftCrossEntropy a b c) b (ternary_SoftCrossEntropyBp g b c - g)"
proof -
  have "((\<lambda>b. - c * ln b - (1 - c) * ln (1 - b)) has_real_derivative - c / b + (1 - c) / (1 - b)) (at b)"
    using assms by (auto intro!: derivative_eq_intros)
  moreover have "- c / b + (1 - c) / (1 - b) = (b - c) / (b * (1 - b))"
  proof -
    have "- c / b + (1 - c) / (1 - b) = ((- c) * (1 - b) + (1 - c) * b) / (b * (1 - b))"
      using assms by (intro add_frac_eq) simp_all
    then show ?thesis by (simp add: algebra_simps)
  qed
  ultimately show ?thesis
    unfolding loss_gradient_def ternary_SoftCrossEntropy_def ternary_SoftCrossEntropyBp_def by simp
qed

lemma binary_label_cross_entropy_gradient:
  assumes "0 < b" "b < 1"
  shows "loss_gradient (\<lambda>b. ternary_BinaryLabelCrossEntropy a b c) b (ternary_BinaryLabelCrossEntropyBp g b c - g)"
  using assms unfolding loss_gradient_def ternary_BinaryLabelCrossEntropy_def ternary_BinaryLabelCrossEntropyBp_def
  by (auto intro!: derivative_eq_intros simp: field_simps)

lemma logistic_derivative: "((\<lambda>x. ln (1 + exp x) - c * x) has_real_derivative exp x / (1 + exp x) - c) (at (x::real))"
proof -
  have "0 < 1 + exp x" by (smt (verit) exp_gt_zero)
  then show ?thesis by (auto intro!: derivative_eq_intros simp: field_simps)
qed

lemma logistic_regression_gradient:
  assumes "- 40 < b" "b < 40"
  shows "loss_gradient (\<lambda>b. ternary_LogisticRegressionLoss a b c) b (ternary_LogisticRegressionLossBp g b c)"
proof -
  have "((\<lambda>b. ternary_LogisticRegressionLoss a b c) has_real_derivative exp b / (1 + exp b) - c) (at b)"
    by (rule derivative_on_interval [OF logistic_derivative assms])
      (simp add: ternary_LogisticRegressionLoss_def)
  then show ?thesis using assms by (simp add: loss_gradient_def ternary_LogisticRegressionLossBp_def Let_def)
qed

lemma rank_loss_gradient:
  assumes "- 40 < b - c" "b - c < 40"
  shows "loss_gradient (\<lambda>b. fst (quaternary_RankLoss a b c d)) b (fst (quaternary_RankLossBp g b c d))"
proof -
  have "((\<lambda>b. ln (1 + exp (b - c)) - d * (b - c)) has_real_derivative (exp (b - c) / (1 + exp (b - c)) - d) * 1) (at b)"
    by (rule DERIV_chain2 [OF logistic_derivative]) (auto intro!: derivative_eq_intros)
  then have "((\<lambda>b. fst (quaternary_RankLoss a b c d)) has_real_derivative (exp (b - c) / (1 + exp (b - c)) - d) * 1) (at b)"
    by (rule derivative_on_interval [where l = "c - 40" and u = "c + 40"])
      (use assms in \<open>simp_all add: quaternary_RankLoss_def Let_def\<close>)
  then show ?thesis using assms by (simp add: loss_gradient_def quaternary_RankLossBp_def Let_def)
qed

text \<open>\<open>binary::Tanh\<close> computes its result from the old value of the output operand, not from its input.\<close>

lemma Tanh_ignores_input: "snd (binary_Tanh a b) = snd (binary_Tanh a' b)"
  by (simp add: binary_Tanh_def)

text \<open>\<open>unary::Sign\<close> subtracts the element from the comparison, \<open>ternary::Sub\<close> subtracts \<open>c\<close> from itself.\<close>

lemma Sign_is_not_the_sign: "unary_Sign a = sgn a \<longleftrightarrow> a = 0"
  by (auto simp: unary_Sign_def sgn_if of_bool_def)

lemma Sub_is_zero: "ternary_Sub a b c = 0"
  by (simp add: ternary_Sub_def)

text \<open>\<open>ApplyL1\<close> is the soft threshold: it moves a value towards zero by \<open>t\<close> and stops at zero. The
  learning-rate form scales the threshold.\<close>

lemma ApplyL1_shrinks:
  assumes "0 \<le> t"
  shows "\<bar>unary_ApplyL1 t a\<bar> = max 0 (\<bar>a\<bar> - t)" "0 \<le> unary_ApplyL1 t a * a"
  using assms by (auto simp: unary_ApplyL1_def Let_def max_def mult_nonpos_nonpos)

lemma ApplyL1_binary: "binary_ApplyL1 t a b = (unary_ApplyL1 (t * b) a, b)"
  by (simp add: unary_ApplyL1_def binary_ApplyL1_def Let_def)

text \<open>C32. The backward operators of the activations are the chain rule through the forward ones, each in its own
  range, over the reals. The repository has no caller of them; as their formulas suggest, the second
  operand of a backward operator is taken to be the output of the forward operator, for square and abs the
  input. Given an incoming gradient, the operator then multiplies it by the derivative of the forward
  operator at \<open>x\<close>: sigmoid between -40 and 13, soft relu above -40 as long as \<open>1 + exp x\<close> is at most
  \<open>exp 40\<close>, relu, abs and reciprocal except at 0, bounded relu with \<open>t1 < t2\<close> except at the two bounds, scaled
  tanh for all \<open>x\<close> when its first parameter \<open>s1\<close> is not 0 (its backward operator is made with \<open>s1 * s1\<close> and
  \<open>s2 / s1\<close>, as \<open>scaled_tanh_derivative\<close> does), exp and square everywhere. The backward operator of
  tanh is the chain rule through tanh itself; the forward operator of that name does not read its input. Outside their clipping ranges
  sigmoid (below -40 and above 13) and soft relu (below -40 and above 40) are constant and their backward operators are not
  zero, so there the rule fails.\<close>

theorem activation_gradients:
  "(- 40 < x \<and> x < 13 \<longrightarrow>
      chain_rule (\<lambda>x. snd (binary_Sigmoid x b)) (\<lambda>g. fst (binary_SigmoidDerivative g (snd (binary_Sigmoid x b)))) x) \<and>
    (x < - 40 \<or> 13 < x \<longrightarrow>
      \<not> chain_rule (\<lambda>x. snd (binary_Sigmoid x b)) (\<lambda>g. fst (binary_SigmoidDerivative g (snd (binary_Sigmoid x b)))) x) \<and>
    (- 40 < x \<and> 1 + exp x \<le> exp 40 \<longrightarrow>
      chain_rule (\<lambda>x. snd (binary_SoftRelu x b)) (\<lambda>g. fst (binary_SoftReluDerivative g (snd (binary_SoftRelu x b)))) x) \<and>
    (x < - 40 \<or> 40 < x \<longrightarrow>
      \<not> chain_rule (\<lambda>x. snd (binary_SoftRelu x b)) (\<lambda>g. fst (binary_SoftReluDerivative g (snd (binary_SoftRelu x b)))) x) \<and>
    (x \<noteq> 0 \<longrightarrow>
      chain_rule (\<lambda>x. snd (binary_Relu x b)) (\<lambda>g. fst (binary_ReluDerivative g (snd (binary_Relu x b)))) x \<and>
      chain_rule unary_Reciprocal (\<lambda>g. fst (binary_ReciprocalDerivative g (unary_Reciprocal x))) x \<and>
      chain_rule (\<lambda>x. snd (binary_Abs x b)) (\<lambda>g. fst (binary_AbsDerivative g x)) x) \<and>
    (x \<noteq> t1 \<and> x \<noteq> t2 \<and> t1 < t2 \<longrightarrow>
      chain_rule (\<lambda>x. snd (binary_Brelu t1 t2 x b)) (\<lambda>g. fst (binary_BreluDerivative t1 t2 g (snd (binary_Brelu t1 t2 x b)))) x) \<and>
    (s1 \<noteq> 0 \<longrightarrow>
      chain_rule (\<lambda>x. snd (binary_ScaledTanh s1 s2 x b))
        (\<lambda>g. fst (binary_ScaledTanhDerivative (s1 * s1) (s2 / s1) g (snd (binary_ScaledTanh s1 s2 x b)))) x) \<and>
    chain_rule (\<lambda>x. fst (binary_Exp a x)) (\<lambda>g. fst (binary_ExpDerivative g (fst (binary_Exp a x)))) x \<and>
    chain_rule (\<lambda>x. snd (binary_Square x b)) (\<lambda>g. fst (binary_SquareDerivative g x)) x \<and>
    chain_rule tanh (\<lambda>g. fst (binary_TanhDerivative g (tanh x))) x"
  by (simp add: sigmoid_gradient sigmoid_gradient_outside relu_gradient soft_relu_gradient soft_relu_gradient_outside
      brelu_gradient scaled_tanh_gradient exp_gradient reciprocal_gradient square_gradient abs_gradient tanh_gradient)

theorem activation_gradients_witness:
  "chain_rule (\<lambda>x. snd (binary_Sigmoid x 0)) (\<lambda>g. fst (binary_SigmoidDerivative g (snd (binary_Sigmoid 1 0)))) 1 \<and>
   chain_rule (\<lambda>x. snd (binary_ScaledTanh (12 / 7) (2 / 3) x 0))
     (\<lambda>g. fst (binary_ScaledTanhDerivative (12 / 7 * (12 / 7)) ((2 / 3) / (12 / 7)) g (snd (binary_ScaledTanh (12 / 7) (2 / 3) 1 0)))) 1 \<and>
   chain_rule (\<lambda>x. snd (binary_Brelu 0 24 x 0)) (\<lambda>g. fst (binary_BreluDerivative 0 24 g (snd (binary_Brelu 0 24 20 0)))) 20 \<and>
   \<not> chain_rule (\<lambda>x. snd (binary_Sigmoid x 0)) (\<lambda>g. fst (binary_SigmoidDerivative g (snd (binary_Sigmoid 20 0)))) 20"
  using activation_gradients [of 1 0 0 24 "12 / 7" "2 / 3" 0] activation_gradients [of 20 0 0 24 "12 / 7" "2 / 3" 0] by simp

text \<open>The two ways a backward operator \<open>bp\<close>, as a function of the first operand, gives the derivative of a loss.\<close>

definition adds_gradient :: "(real_t \<Rightarrow> real_t) \<Rightarrow> real_t \<Rightarrow> (real_t \<Rightarrow> real_t) \<Rightarrow> bool" where
  "adds_gradient loss b bp \<longleftrightarrow> (\<exists>D. loss_gradient loss b D \<and> (\<forall>g. bp g = g + D))"

definition assigns_gradient :: "(real_t \<Rightarrow> real_t) \<Rightarrow> real_t \<Rightarrow> (real_t \<Rightarrow> real_t) \<Rightarrow> bool" where
  "assigns_gradient loss b bp \<longleftrightarrow> (\<exists>D. loss_gradient loss b D \<and> (\<forall>g. bp g = D))"

lemma logistic_bp_assigns: "ternary_LogisticRegressionLossBp g b c = ternary_LogisticRegressionLossBp h b c"
  by (simp add: ternary_LogisticRegressionLossBp_def)

lemma rank_bp_assigns: "quaternary_RankLossBp g b c d = quaternary_RankLossBp h b c d"
  by (simp add: quaternary_RankLossBp_def)

lemma assigns_not_adds: "assigns_gradient loss b bp \<Longrightarrow> \<not> adds_gradient loss b bp"
  unfolding assigns_gradient_def adds_gradient_def by (metis add_cancel_left_right add_left_imp_eq zero_neq_one)

text \<open>C33. What the backward operators of the losses do with the derivative of the loss in the prediction,
  over the reals. For a prediction strictly between 0 and 1 those of the two cross entropies add it to
  the first operand. Strictly inside the clipping range (between -40 and 40, of the prediction or of the difference of the two
  ranked ones) those of the logistic and of the pairwise rank loss assign it, whatever the first operand
  held. BaseMatrix.h documents the logistic one as adding (line 471), which it therefore does not; it
  says nothing of the other three.\<close>

theorem loss_gradients:
  assumes "0 < b" "b < 1" "- 40 < y" "y < 40" "- 40 < u - v" "u - v < 40"
  shows "adds_gradient (\<lambda>b. ternary_SoftCrossEntropy a b c) b (\<lambda>g. ternary_SoftCrossEntropyBp g b c) \<and>
    adds_gradient (\<lambda>b. ternary_BinaryLabelCrossEntropy a b c) b (\<lambda>g. ternary_BinaryLabelCrossEntropyBp g b c) \<and>
    assigns_gradient (\<lambda>y. ternary_LogisticRegressionLoss a y c) y (\<lambda>g. ternary_LogisticRegressionLossBp g y c) \<and>
    \<not> adds_gradient (\<lambda>y. ternary_LogisticRegressionLoss a y c) y (\<lambda>g. ternary_LogisticRegressionLossBp g y c) \<and>
    assigns_gradient (\<lambda>u. fst (quaternary_RankLoss a u v d)) u (\<lambda>g. fst (quaternary_RankLossBp g u v d))"
proof -
  have logistic: "assigns_gradient (\<lambda>y. ternary_LogisticRegressionLoss a y c) y (\<lambda>g. ternary_LogisticRegressionLossBp g y c)"
    unfolding assigns_gradient_def
    using logistic_regression_gradient [OF assms(3,4)] logistic_bp_assigns by blast
  moreover have "assigns_gradient (\<lambda>u. fst (quaternary_RankLoss a u v d)) u (\<lambda>g. fst (quaternary_RankLossBp g u v d))"
    unfolding assigns_gradient_def
    using rank_loss_gradient [OF assms(5,6)] rank_bp_assigns by metis
  moreover have "adds_gradient (\<lambda>b. ternary_SoftCrossEntropy a b c) b (\<lambda>g. ternary_SoftCrossEntropyBp g b c)"
    unfolding adds_gradient_def using soft_cross_entropy_gradient [OF assms(1,2), of a c 0]
    by (intro exI [of _ "ternary_SoftCrossEntropyBp 0 b c"]) (simp add: ternary_SoftCrossEntropyBp_def)
  moreover have "adds_gradient (\<lambda>b. ternary_BinaryLabelCrossEntropy a b c) b (\<lambda>g. ternary_BinaryLabelCrossEntropyBp g b c)"
    unfolding adds_gradient_def using binary_label_cross_entropy_gradient [OF assms(1,2), of a c 0]
    by (intro exI [of _ "ternary_BinaryLabelCrossEntropyBp 0 b c"]) (simp add: ternary_BinaryLabelCrossEntropyBp_def)
  ultimately show ?thesis using assigns_not_adds by blast
qed

theorem loss_gradients_witness:
  "adds_gradient (\<lambda>b. ternary_SoftCrossEntropy 0 b 1) (1 / 4) (\<lambda>g. ternary_SoftCrossEntropyBp g (1 / 4) 1) \<and>
   \<not> adds_gradient (\<lambda>y. ternary_LogisticRegressionLoss 0 y 1) 2 (\<lambda>g. ternary_LogisticRegressionLossBp g 2 1)"
  using loss_gradients [of "1 / 4" 2 0 0 0 1 0] by simp

end
