(* ===== verification/MatrixMethods.thy ===== *)
theory MatrixMethods
  imports MatrixShape MatrixOps NumParse
begin

text \<open>
  The methods of \<open>BaseMatrixT\<close> in math/BaseMatrix.cpp. Most of them pass an operator of MatrixOps to one of
  the \<open>apply_*\<close> routines of MatrixShape; the operator is then not executed, because the kernels are
  commented out there, so these methods only compute addresses and log failed checks. Three methods run
  their own loops over the elements: \<open>sigmoid\<close>, \<open>binary_label_cross_entropy\<close> and \<open>apply_l2\<close> with
  learning rates. They work on a store that maps element addresses to values, so that operands may alias.
  A method with several overloads has a suffix (\<open>_of\<close> for the ones with a second operand).
\<close>

definition void :: "'x run \<Rightarrow> unit run" where
  "void m = bind m (\<lambda>_. return ())"

section \<open>Methods that pass an operator to apply\<close>

definition mat_neg :: "matrix \<Rightarrow> unit run" where
  "mat_neg m =
     void (apply_unary_all unary_Neg m)"

definition mat_exp :: "matrix \<Rightarrow> unit run" where
  "mat_exp m =
     void (apply_unary_all unary_Exp m)"

definition mat_log :: "matrix \<Rightarrow> unit run" where
  "mat_log m =
     return ()"

definition mat_sqrt :: "matrix \<Rightarrow> unit run" where
  "mat_sqrt m =
     void (apply_unary_all unary_Sqrt m)"

definition mat_square :: "matrix \<Rightarrow> unit run" where
  "mat_square m =
     void (apply_unary_all unary_Square m)"

definition mat_reciprocal :: "matrix \<Rightarrow> unit run" where
  "mat_reciprocal m =
     void (apply_unary_all unary_Reciprocal m)"

definition mat_abs :: "matrix \<Rightarrow> unit run" where
  "mat_abs m =
     void (apply_unary_all unary_Abs m)"

definition mat_sign :: "matrix \<Rightarrow> unit run" where
  "mat_sign m =
     void (apply_unary_all unary_Sign m)"

definition mat_zero :: "matrix \<Rightarrow> unit run" where
  "mat_zero m =
     void (apply_unary_all unary_Zero m)"

definition mat_zero_at_offset :: "u64 \<Rightarrow> u64 \<Rightarrow> matrix \<Rightarrow> unit run" where
  "mat_zero_at_offset col_offset num_columns m =
     void (apply_unary unary_Zero (to_int (height m)) (to_int num_columns) (MatrixOffset col_offset 0 0 0 0 0 0 0) m)"

definition mat_pow :: "real_t \<Rightarrow> matrix \<Rightarrow> unit run" where
  "mat_pow t m =
     return ()"

definition mat_sub_scalar :: "real_t \<Rightarrow> matrix \<Rightarrow> unit run" where
  "mat_sub_scalar t m =
     void (apply_unary_all (unary_SubScalar t) m)"

definition mat_mul_scalar :: "real_t \<Rightarrow> matrix \<Rightarrow> unit run" where
  "mat_mul_scalar t m =
     void (apply_unary_all (unary_MulScalar t) m)"

definition mat_div_scalar :: "real_t \<Rightarrow> matrix \<Rightarrow> unit run" where
  "mat_div_scalar t m =
     void (apply_unary_all (unary_DivScalar t) m)"

definition mat_assign :: "real_t \<Rightarrow> matrix \<Rightarrow> unit run" where
  "mat_assign t m =
     void (apply_unary_all (unary_Assign t) m)"

definition mat_add_scalar_1 :: "real_t \<Rightarrow> matrix \<Rightarrow> unit run" where
  "mat_add_scalar_1 t m =
     void (apply_unary_all (unary_Add t) m)"

definition mat_add_scalar_2 :: "real_t \<Rightarrow> real_t \<Rightarrow> matrix \<Rightarrow> unit run" where
  "mat_add_scalar_2 t1 t2 m =
     void (apply_unary_all (unary_Add2 t1 t2) m)"

definition mat_clip :: "real_t \<Rightarrow> real_t \<Rightarrow> matrix \<Rightarrow> unit run" where
  "mat_clip t1 t2 m =
     void (apply_unary_all (unary_Clip t1 t2) m)"

definition mat_down_clip :: "real_t \<Rightarrow> matrix \<Rightarrow> unit run" where
  "mat_down_clip t m =
     void (apply_unary_all (unary_DownClip t) m)"

definition mat_bigger_than_scalar :: "real_t \<Rightarrow> matrix \<Rightarrow> unit run" where
  "mat_bigger_than_scalar t m =
     void (apply_unary_all (unary_BiggerThanScalar t) m)"

definition mat_add :: "matrix \<Rightarrow> matrix \<Rightarrow> unit run" where
  "mat_add b m =
     void (apply_binary_all binary_Add b m)"

definition mat_add_real :: "matrix \<Rightarrow> matrix \<Rightarrow> unit run" where
  "mat_add_real b m =
     bind (check_eq ''(_height) == (b._height) '' (height m) (height b)) (\<lambda>_. check_eq ''(_width) == (b._width) '' (width m) (width b))"

definition mat_add_at_offset :: "matrix \<Rightarrow> u64 \<Rightarrow> matrix \<Rightarrow> unit run" where
  "mat_add_at_offset b col_offset m =
     (if col_offset + width b \<le> width m
   then void (apply_binary False False binary_Add b (to_int (height m)) (to_int (width m)) (MatrixOffset col_offset 0 0 0 0 0 0 0) m)
   else if col_offset + width m \<le> width b
   then void (apply_binary False False binary_Add b (to_int (height m)) (to_int (width m)) (MatrixOffset 0 0 col_offset 0 0 0 0 0) m)
   else log_msg FATAL (''Wrong argument: a.width='' @ show_nat (unat (width m)) @ '' b.width='' @ show_nat (unat (width b)) @
          '' col_offset='' @ show_int (sint col_offset)))"

definition mat_add_p2p :: "matrix \<Rightarrow> matrix \<Rightarrow> unit run" where
  "mat_add_p2p b m =
     return ()"

definition mat_add_col_vector :: "matrix \<Rightarrow> matrix \<Rightarrow> unit run" where
  "mat_add_col_vector b m =
     void (apply_binary False True binary_Add b (to_int (height m)) (to_int (width m)) (MatrixOffset 0 0 0 0 0 0 0 0) m)"

definition mat_add_row_vector :: "matrix \<Rightarrow> matrix \<Rightarrow> unit run" where
  "mat_add_row_vector b m =
     void (apply_binary True False binary_Add b (to_int (height m)) (to_int (width m)) (MatrixOffset 0 0 0 0 0 0 0 0) m)"

definition mat_add_scaled :: "matrix \<Rightarrow> real_t \<Rightarrow> matrix \<Rightarrow> unit run" where
  "mat_add_scaled b t m =
     void (apply_binary_all (binary_Add1 t) b m)"

definition mat_pow_of :: "matrix \<Rightarrow> real_t \<Rightarrow> matrix \<Rightarrow> unit run" where
  "mat_pow_of b t m =
     return ()"

definition mat_add_scaled_2 :: "matrix \<Rightarrow> real_t \<Rightarrow> real_t \<Rightarrow> matrix \<Rightarrow> unit run" where
  "mat_add_scaled_2 b t1 t2 m =
     void (apply_binary_all (binary_Add2 t1 t2) b m)"

definition mat_add_bias :: "matrix \<Rightarrow> real_t \<Rightarrow> matrix \<Rightarrow> unit run" where
  "mat_add_bias b scale m =
     void (apply_binary True False (binary_Add1 scale) b (to_int (height m)) (to_int (width m)) (MatrixOffset 0 0 0 0 0 0 0 0) m)"

definition mat_sub :: "matrix \<Rightarrow> matrix \<Rightarrow> unit run" where
  "mat_sub b m =
     void (apply_binary_all binary_Sub b m)"

definition mat_sub_scaled :: "matrix \<Rightarrow> real_t \<Rightarrow> matrix \<Rightarrow> unit run" where
  "mat_sub_scaled b t m =
     void (apply_binary_all (binary_Sub1 t) b m)"

definition mat_relu :: "matrix \<Rightarrow> matrix \<Rightarrow> unit run" where
  "mat_relu b m =
     void (apply_binary_all binary_Relu b m)"

definition mat_relu_derivative :: "matrix \<Rightarrow> matrix \<Rightarrow> unit run" where
  "mat_relu_derivative b m =
     void (apply_binary_all binary_ReluDerivative b m)"

definition mat_soft_relu :: "matrix \<Rightarrow> matrix \<Rightarrow> unit run" where
  "mat_soft_relu b m =
     void (apply_binary_all binary_SoftRelu b m)"

definition mat_soft_relu_derivative :: "matrix \<Rightarrow> matrix \<Rightarrow> unit run" where
  "mat_soft_relu_derivative b m =
     void (apply_binary_all binary_SoftReluDerivative b m)"

definition mat_brelu :: "matrix \<Rightarrow> matrix \<Rightarrow> unit run" where
  "mat_brelu b m =
     (let t1 = 0; t2 = 24 in void (apply_binary_all (binary_Brelu t1 t2) b m))"

definition mat_brelu_derivative :: "matrix \<Rightarrow> matrix \<Rightarrow> unit run" where
  "mat_brelu_derivative b m =
     (let t1 = 0; t2 = 24 in void (apply_binary_all (binary_BreluDerivative t1 t2) b m))"

definition mat_square_of :: "matrix \<Rightarrow> matrix \<Rightarrow> unit run" where
  "mat_square_of b m =
     void (apply_binary_all binary_Square b m)"

definition mat_square_derivative :: "matrix \<Rightarrow> matrix \<Rightarrow> unit run" where
  "mat_square_derivative b m =
     void (apply_binary_all binary_SquareDerivative b m)"

definition mat_tanh :: "matrix \<Rightarrow> matrix \<Rightarrow> unit run" where
  "mat_tanh b m =
     void (apply_binary_all binary_Tanh b m)"

definition mat_tanh_derivative :: "matrix \<Rightarrow> matrix \<Rightarrow> unit run" where
  "mat_tanh_derivative b m =
     void (apply_binary_all binary_TanhDerivative b m)"

definition mat_scaled_tanh :: "matrix \<Rightarrow> real_t \<Rightarrow> real_t \<Rightarrow> matrix \<Rightarrow> unit run" where
  "mat_scaled_tanh b t1 t2 m =
     void (apply_binary_all (binary_ScaledTanh t1 t2) b m)"

definition mat_scaled_tanh_derivative :: "matrix \<Rightarrow> real_t \<Rightarrow> real_t \<Rightarrow> matrix \<Rightarrow> unit run" where
  "mat_scaled_tanh_derivative b t1 t2 m =
     void (apply_binary_all (binary_ScaledTanhDerivative (t1 * t1) (t2 / t1)) b m)"

definition mat_reciprocal_derivative :: "matrix \<Rightarrow> matrix \<Rightarrow> unit run" where
  "mat_reciprocal_derivative b m =
     void (apply_binary_all binary_ReciprocalDerivative b m)"

definition mat_abs_of :: "matrix \<Rightarrow> matrix \<Rightarrow> unit run" where
  "mat_abs_of b m =
     void (apply_binary_all binary_Abs b m)"

definition mat_abs_derivative :: "matrix \<Rightarrow> matrix \<Rightarrow> unit run" where
  "mat_abs_derivative b m =
     void (apply_binary_all binary_AbsDerivative b m)"

definition mat_sigmoid_derivative :: "matrix \<Rightarrow> matrix \<Rightarrow> unit run" where
  "mat_sigmoid_derivative b m =
     void (apply_binary_all binary_SigmoidDerivative b m)"

definition mat_exp_derivative :: "matrix \<Rightarrow> matrix \<Rightarrow> unit run" where
  "mat_exp_derivative b m =
     void (apply_binary_all binary_ExpDerivative b m)"

definition mat_sign_of :: "matrix \<Rightarrow> matrix \<Rightarrow> unit run" where
  "mat_sign_of b m =
     void (apply_binary_all binary_Sign b m)"

definition mat_exp_of :: "matrix \<Rightarrow> matrix \<Rightarrow> unit run" where
  "mat_exp_of b m =
     void (apply_binary_all binary_Exp b m)"

definition mat_log_of :: "matrix \<Rightarrow> matrix \<Rightarrow> unit run" where
  "mat_log_of b m =
     return ()"

definition mat_sqrt_of :: "matrix \<Rightarrow> matrix \<Rightarrow> unit run" where
  "mat_sqrt_of b m =
     void (apply_binary_all binary_Sqrt b m)"

definition mat_inv_sqrt :: "matrix \<Rightarrow> matrix \<Rightarrow> unit run" where
  "mat_inv_sqrt b m =
     bind (check_eq ''(_height) == (b._height) '' (height m) (height b)) (\<lambda>_. check_eq ''(_width) == (b._width) '' (width m) (width b))"

definition mat_is_equal_to :: "matrix \<Rightarrow> real_t \<Rightarrow> matrix \<Rightarrow> unit run" where
  "mat_is_equal_to b t m =
     void (apply_binary_all (binary_IsEqualTo t) b m)"

definition mat_add_scalar :: "matrix \<Rightarrow> real_t \<Rightarrow> matrix \<Rightarrow> unit run" where
  "mat_add_scalar b t m =
     void (apply_binary_all (binary_AddScalar t) b m)"

definition mat_sub_scalar_of :: "matrix \<Rightarrow> real_t \<Rightarrow> matrix \<Rightarrow> unit run" where
  "mat_sub_scalar_of b t m =
     void (apply_binary_all (binary_SubScalar t) b m)"

definition mat_mul_scalar_of :: "matrix \<Rightarrow> real_t \<Rightarrow> matrix \<Rightarrow> unit run" where
  "mat_mul_scalar_of b t m =
     void (apply_binary_all (binary_MulScalar t) b m)"

definition mat_div_scalar_of :: "matrix \<Rightarrow> real_t \<Rightarrow> matrix \<Rightarrow> unit run" where
  "mat_div_scalar_of b t m =
     void (apply_binary_all (binary_DivScalar t) b m)"

definition mat_soft_cross_entropy :: "matrix \<Rightarrow> matrix \<Rightarrow> matrix \<Rightarrow> unit run" where
  "mat_soft_cross_entropy b c m =
     void (apply_ternary_all ternary_SoftCrossEntropy b c m)"

definition mat_soft_cross_entropy_bp :: "matrix \<Rightarrow> matrix \<Rightarrow> matrix \<Rightarrow> unit run" where
  "mat_soft_cross_entropy_bp b c m =
     void (apply_ternary_all ternary_SoftCrossEntropyBp b c m)"

definition mat_binary_label_cross_entropy_bp :: "matrix \<Rightarrow> matrix \<Rightarrow> matrix \<Rightarrow> unit run" where
  "mat_binary_label_cross_entropy_bp b c m =
     void (apply_ternary_all ternary_BinaryLabelCrossEntropyBp b c m)"

definition mat_add_of :: "matrix \<Rightarrow> matrix \<Rightarrow> matrix \<Rightarrow> unit run" where
  "mat_add_of b c m =
     void (apply_ternary_all ternary_Add b c m)"

definition mat_add_scaled_of :: "matrix \<Rightarrow> real_t \<Rightarrow> matrix \<Rightarrow> real_t \<Rightarrow> matrix \<Rightarrow> unit run" where
  "mat_add_scaled_of b t1 c t2 m =
     void (apply_ternary_all (ternary_Add1 t1 t2) b c m)"

definition mat_sub_of :: "matrix \<Rightarrow> matrix \<Rightarrow> matrix \<Rightarrow> unit run" where
  "mat_sub_of b c m =
     void (apply_ternary_all ternary_Sub b c m)"

definition mat_sub_scaled_of :: "matrix \<Rightarrow> real_t \<Rightarrow> matrix \<Rightarrow> real_t \<Rightarrow> matrix \<Rightarrow> unit run" where
  "mat_sub_scaled_of b t1 c t2 m =
     void (apply_ternary_all (ternary_Sub1 t1 t2) b c m)"

definition mat_add2 :: "matrix \<Rightarrow> matrix \<Rightarrow> matrix \<Rightarrow> unit run" where
  "mat_add2 b c m =
     void (apply_ternary_all ternary_Add2 b c m)"

definition mat_add2_scaled :: "matrix \<Rightarrow> matrix \<Rightarrow> real_t \<Rightarrow> real_t \<Rightarrow> real_t \<Rightarrow> matrix \<Rightarrow> unit run" where
  "mat_add2_scaled b c t1 t2 t3 m =
     void (apply_ternary_all (ternary_Add3 t1 t2 t3) b c m)"

definition mat_sgd_update :: "matrix \<Rightarrow> matrix \<Rightarrow> matrix \<Rightarrow> real_t \<Rightarrow> real_t \<Rightarrow> real_t \<Rightarrow> matrix \<Rightarrow> unit run" where
  "mat_sgd_update b c d t1 t2 t3 m =
     void (apply_quaternary_all (quaternary_SgdUpdate t1 t2 t3) b c d m)"

definition mat_apply_l1_lr :: "matrix \<Rightarrow> real_t \<Rightarrow> real_t \<Rightarrow> matrix \<Rightarrow> unit run" where
  "mat_apply_l1_lr lr learning_rate decay_rate m =
     void (apply_binary_all (binary_ApplyL1 (learning_rate * decay_rate)) lr m)"

definition mat_apply_l1_lr_real :: "matrix \<Rightarrow> real_t \<Rightarrow> real_t \<Rightarrow> matrix \<Rightarrow> unit run" where
  "mat_apply_l1_lr_real lr learning_rate decay_rate m =
     return ()"

definition mat_apply_l1 :: "real_t \<Rightarrow> real_t \<Rightarrow> matrix \<Rightarrow> unit run" where
  "mat_apply_l1 learning_rate decay_rate m =
     void (apply_unary_all (unary_ApplyL1 (learning_rate * decay_rate)) m)"

definition mat_apply_l1_real :: "real_t \<Rightarrow> real_t \<Rightarrow> matrix \<Rightarrow> unit run" where
  "mat_apply_l1_real learning_rate decay_rate m =
     return ()"

definition mat_apply_l2 :: "real_t \<Rightarrow> real_t \<Rightarrow> matrix \<Rightarrow> unit run" where
  "mat_apply_l2 learning_rate decay_rate m =
     mat_mul_scalar (1 / (1 + learning_rate * decay_rate)) m"

definition mat_dot_mul :: "matrix \<Rightarrow> matrix \<Rightarrow> unit run" where
  "mat_dot_mul b m =
     void (apply_binary_all binary_DotMul b m)"

definition mat_dot_mul_of :: "matrix \<Rightarrow> matrix \<Rightarrow> matrix \<Rightarrow> unit run" where
  "mat_dot_mul_of b c m =
     void (apply_ternary_all ternary_DotMul b c m)"

definition mat_dot_div :: "matrix \<Rightarrow> matrix \<Rightarrow> matrix \<Rightarrow> unit run" where
  "mat_dot_div b c m =
     void (apply_ternary_all ternary_DotDiv b c m)"

definition mat_dot_div_2p :: "matrix \<Rightarrow> matrix \<Rightarrow> real_t \<Rightarrow> real_t \<Rightarrow> matrix \<Rightarrow> unit run" where
  "mat_dot_div_2p b c t1 t2 m =
     void (apply_ternary_all (ternary_DotDiv2P t1 t2) b c m)"

definition mat_rank_loss :: "matrix \<Rightarrow> matrix \<Rightarrow> matrix \<Rightarrow> matrix \<Rightarrow> unit run" where
  "mat_rank_loss b c d m =
     void (apply_quaternary_all quaternary_RankLoss b c d m)"

definition mat_rank_loss_bp :: "matrix \<Rightarrow> matrix \<Rightarrow> matrix \<Rightarrow> matrix \<Rightarrow> unit run" where
  "mat_rank_loss_bp b c d m =
     void (apply_quaternary_all quaternary_RankLossBp b c d m)"

definition mat_logistic_regression_loss :: "matrix \<Rightarrow> matrix \<Rightarrow> matrix \<Rightarrow> unit run" where
  "mat_logistic_regression_loss b c m =
     void (apply_ternary_all ternary_LogisticRegressionLoss b c m)"

definition mat_logistic_regression_loss_bp :: "matrix \<Rightarrow> matrix \<Rightarrow> matrix \<Rightarrow> unit run" where
  "mat_logistic_regression_loss_bp b c m =
     void (apply_ternary_all ternary_LogisticRegressionLossBp b c m)"

definition mat_bigger_than :: "matrix \<Rightarrow> matrix \<Rightarrow> matrix \<Rightarrow> unit run" where
  "mat_bigger_than b c m =
     void (apply_ternary_all ternary_BiggerThan b c m)"
section \<open>Methods with loops of their own\<close>

type_synonym element_store = "u64 \<Rightarrow> real_t"

text \<open>\<open>for (size_t i = 0; i < size; i++)\<close> over a store.\<close>

definition for_range :: "nat \<Rightarrow> (u64 \<Rightarrow> element_store \<Rightarrow> element_store) \<Rightarrow> element_store \<Rightarrow> element_store" where
  "for_range n body st = fold (\<lambda>i. body (of_nat i)) [0..<n] st"

definition sigmoid_clip :: "real_t \<Rightarrow> real_t" where
  "sigmoid_clip temp = (let THRESHOLD_MIN = - 40; THRESHOLD_MAX = 13 in
     if temp < THRESHOLD_MIN then THRESHOLD_MIN else (if temp > THRESHOLD_MAX then THRESHOLD_MAX else temp))"

text \<open>The second loop reads \<open>out[1]\<close>, and the exponential between the loops is commented out.\<close>

definition mat_sigmoid :: "matrix \<Rightarrow> element_store \<Rightarrow> matrix \<Rightarrow> element_store run" where
  "mat_sigmoid b st m =
     (let num_samples = height m; dim = width m; inp = data m; out = data b in
      bind (check_eq ''(b._height) == (num_samples) '' (height b) num_samples) (\<lambda>_.
      bind (check_eq ''(b._width) == (dim) '' (width b) dim) (\<lambda>_.
        let st1 = for_range (unat (num_samples * dim)) (\<lambda>i s. s(out + i := - sigmoid_clip (s (inp + i)))) st;
            st2 = for_range (unat (num_samples * dim)) (\<lambda>i s. s(out + i := 1 / (1 + s (out + 1)))) st1
        in return st2)))"

definition mat_binary_label_cross_entropy :: "matrix \<Rightarrow> matrix \<Rightarrow> element_store \<Rightarrow> matrix \<Rightarrow> element_store run" where
  "mat_binary_label_cross_entropy b c st m =
     bind (check_eq ''(_height) == (b._height) '' (height m) (height b)) (\<lambda>_.
     bind (check_eq ''(_height) == (c._height) '' (height m) (height c)) (\<lambda>_.
     bind (check_eq ''(_width) == (b._width) '' (width m) (width b)) (\<lambda>_.
     bind (check_eq ''(_width) == (c._width) '' (width m) (width c)) (\<lambda>_.
       let n = unat (height m * width m); out = data b; label = data b; cost = data m;
           st1 = for_range n (\<lambda>i s. s(cost + i := (if s (label + i) > 1 / 2 then s (out + i) else 1 - s (out + i)))) st;
           st2 = for_range n (\<lambda>i s. s(cost + i := s (cost + i) * - 1)) st1
       in return st2))))"

text \<open>The loop of \<open>apply_l2\<close> with learning rates, over \<open>height * width\<close> consecutive addresses: it does not
  look at the stride.\<close>

definition mat_apply_l2_lr :: "matrix \<Rightarrow> real_t \<Rightarrow> real_t \<Rightarrow> element_store \<Rightarrow> matrix \<Rightarrow> element_store run" where
  "mat_apply_l2_lr lr learning_rate decay_rate st m =
     (let decay = learning_rate * decay_rate in
      return (for_range (unat (height m * width m))
        (\<lambda>j s. s(data m + j := s (data m + j) * (1 / (1 + decay * s (data lr + j))))) st))"

section \<open>What the loops compute\<close>

lemma for_range_0 [simp]: "for_range 0 body st = st"
  by (simp add: for_range_def)

lemma for_range_Suc [simp]: "for_range (Suc n) body st = body (of_nat n) (for_range n body st)"
  by (simp add: for_range_def)

lemma of_nat_u64_inj: "i < 2 ^ 64 \<Longrightarrow> j < 2 ^ 64 \<Longrightarrow> (of_nat i :: u64) = of_nat j \<longleftrightarrow> i = j"
  by (metis unat_of_nat_u64)

text \<open>A loop that computes each element of \<open>out\<close> from a source that earlier iterations have not written.\<close>

lemma for_range_pointwise:
  assumes "n \<le> 2 ^ 64" "\<And>i j s v. j < i \<Longrightarrow> i < n \<Longrightarrow> f (of_nat i) (s(out + of_nat j := v)) = f (of_nat i) s"
  shows "for_range n (\<lambda>i s. s(out + i := f i s)) st p =
    (if \<exists>i < n. p = out + of_nat i then f (p - out) st else st p)"
  using assms
proof (induction n arbitrary: p)
  case 0
  then show ?case by simp
next
  case (Suc n)
  note reads = Suc.prems(2)
  let ?st = "\<lambda>k. for_range k (\<lambda>i s. s(out + i := f i s)) st"
  have IH: "?st n q = (if \<exists>i < n. q = out + of_nat i then f (q - out) st else st q)" for q
    using Suc.prems by (intro Suc.IH) auto
  have unread: "f (of_nat n) (?st k) = f (of_nat n) st" if "k \<le> n" for k
    using that
  proof (induction k)
    case (Suc k)
    then have "f (of_nat n) (?st (Suc k)) = f (of_nat n) (?st k)"
      by (simp only: for_range_Suc, subst reads) (simp_all del: fun_upd_apply)
    with Suc show ?case by (simp del: fun_upd_apply)
  qed simp
  show ?case
  proof (cases "p = out + of_nat n")
    case True
    then have "(\<exists>i < Suc n. p = out + of_nat i)" "p - out = of_nat n" by auto
    moreover have "for_range (Suc n) (\<lambda>i s. s(out + i := f i s)) st p = f (of_nat n) (?st n)"
      using True by (simp only: for_range_Suc fun_upd_same)
    ultimately show ?thesis using unread [of n] by (simp only: if_True order_refl)
  next
    case False
    then have "(\<exists>i < Suc n. p = out + of_nat i) \<longleftrightarrow> (\<exists>i < n. p = out + of_nat i)" by (auto simp: less_Suc_eq)
    moreover have "for_range (Suc n) (\<lambda>i s. s(out + i := f i s)) st p = ?st n p"
      by (simp only: for_range_Suc fun_upd_other [OF False])
    ultimately show ?thesis using IH [of p] by (simp only:)
  qed
qed

text \<open>No element of \<open>src\<close> is overwritten through \<open>dst\<close> before the loop reads it: the operands are
  apart, or the same.\<close>

definition not_overtaken :: "nat \<Rightarrow> u64 \<Rightarrow> u64 \<Rightarrow> bool" where
  "not_overtaken n src dst \<longleftrightarrow> (\<forall>i < n. \<forall>j < i. src + of_nat i \<noteq> dst + of_nat j)"

lemma not_overtaken_self: "n \<le> 2 ^ 64 \<Longrightarrow> not_overtaken n a a"
  by (auto simp: not_overtaken_def of_nat_u64_inj)

lemma unat_element: "unat (a :: u64) + i < 2 ^ 64 \<Longrightarrow> unat (a + of_nat i) = unat a + i"
  by (subst unat_add_u64) (simp_all add: unat_of_nat_u64)

lemma not_overtaken_apart:
  assumes "unat src + n \<le> 2 ^ 64" "unat dst + n \<le> 2 ^ 64" "unat src + n \<le> unat dst \<or> unat dst + n \<le> unat src"
  shows "not_overtaken n src dst"
  unfolding not_overtaken_def
proof (intro allI impI notI)
  fix i j assume "i < n" "j < i" and eq: "src + of_nat i = dst + of_nat j"
  then have "unat src + i < 2 ^ 64" "unat dst + j < 2 ^ 64" using assms(1,2) by linarith+
  then have "unat src + i = unat dst + j" using arg_cong [OF eq, of unat] by (simp only: unat_element)
  with assms(3) \<open>i < n\<close> \<open>j < i\<close> show False by linarith
qed

lemma size_bound: "unat (x :: u64) \<le> 2 ^ 64"
  by (rule less_imp_le) (rule unat_u64_less)

lemma sigmoid_loop2:
  assumes "n \<le> 2 ^ 64"
  shows "for_range n (\<lambda>i s. s(out + i := 1 / (1 + s (out + 1)))) st (out + 1) =
      (if n \<le> 1 then st (out + 1) else 1 / (1 + st (out + 1)))"
    and "i < n \<Longrightarrow> for_range n (\<lambda>i s. s(out + i := 1 / (1 + s (out + 1)))) st (out + of_nat i) =
      (if i < 2 then 1 / (1 + st (out + 1)) else 1 / (1 + 1 / (1 + st (out + 1))))"
  using assms
proof (induction n arbitrary: i)
  case 0
  { case 1 show ?case by simp }
  { case 2 then show ?case by simp }
next
  case (Suc n)
  have n1: "(out + 1 = out + of_nat n) = (n = 1)" if "Suc n \<le> 2 ^ 64"
    using of_nat_u64_inj [of 1 n] that by auto
  { case 1
    then show ?case using Suc.IH(1) n1 by (auto simp: le_Suc_eq) }
  { case 2
    show ?case
    proof (cases "i = n")
      case True
      with 2 show ?thesis using Suc.IH(1) by simp
    next
      case False
      with 2 have "i < n" "of_nat i \<noteq> (of_nat n :: u64)" by (auto simp: of_nat_u64_inj)
      with 2 show ?thesis using Suc.IH(2) [of i] by simp
    qed }
qed

text \<open>\<open>BaseMatrixT::sigmoid\<close> does not compute the sigmoid of its elements: on matrices of the same
  shape with at least two elements every element of the result is a function of the second input element
  alone. With \<open>t\<close> that element clipped to \<open>[-40, 13]\<close>, the first two outputs are \<open>1 / (1 - t)\<close> and all
  later ones \<open>1 / (1 + 1 / (1 - t))\<close>, whatever the inputs at their positions are.\<close>

theorem sigmoid_uses_second_element:
  assumes "height b = height m" "width b = width m" "i < unat (height m * width m)" "1 < unat (height m * width m)"
    "not_overtaken (unat (height m * width m)) (data m) (data b)"
    "t = sigmoid_clip (st (data m + 1))" "t \<noteq> 1" "t \<noteq> 2"
  shows "\<exists>st'. mat_sigmoid b st m = return st' \<and>
    st' (data b + of_nat i) = (if i < 2 then 1 / (1 - t) else 1 / (1 + 1 / (1 - t)))"
proof -
  let ?n = "unat (height m * width m)"
  let ?st1 = "for_range ?n (\<lambda>i s. s(data b + i := - sigmoid_clip (s (data m + i)))) st"
  have "?st1 (data b + 1) = (if \<exists>i < ?n. data b + 1 = data b + of_nat i then - sigmoid_clip (st (data m + (data b + 1 - data b)))
      else st (data b + 1))"
    using assms(5) by (intro for_range_pointwise size_bound) (auto simp: not_overtaken_def)
  moreover have "\<exists>i < ?n. data b + 1 = data b + of_nat i" using assms(4) by (intro exI [of _ 1]) simp
  ultimately have "?st1 (data b + 1) = - t" using assms(6) by simp
  then have "for_range ?n (\<lambda>i s. s(data b + i := 1 / (1 + s (data b + 1)))) ?st1 (data b + of_nat i) =
      (if i < 2 then 1 / (1 - t) else 1 / (1 + 1 / (1 - t)))"
    using sigmoid_loop2(2) [OF size_bound assms(3), of "data b" ?st1] by simp
  moreover have "mat_sigmoid b st m =
      return (for_range ?n (\<lambda>i s. s(data b + i := 1 / (1 + s (data b + 1)))) ?st1)"
    using assms(1,2) by (simp add: mat_sigmoid_def check_eq_def Let_def)
  ultimately show ?thesis by blast
qed

theorem sigmoid_uses_second_element_witness:
  "\<exists>st'. mat_sigmoid \<lparr>height = 1, width = 3, stride = 3, data = 50, trans = False, sparse = False\<rparr> (\<lambda>p. 3)
      \<lparr>height = 1, width = 3, stride = 3, data = 10, trans = False, sparse = False\<rparr> = return st' \<and> st' 52 = 2"
proof -
  have "not_overtaken 3 10 50"
    by (rule not_overtaken_apart) simp_all
  then show ?thesis
    using sigmoid_uses_second_element [of "\<lparr>height = 1, width = 3, stride = 3, data = 50, trans = False, sparse = False\<rparr>"
        "\<lparr>height = 1, width = 3, stride = 3, data = 10, trans = False, sparse = False\<rparr>" 2 3 "\<lambda>p. 3"]
    by (simp add: sigmoid_clip_def)
qed

text \<open>\<open>BaseMatrixT::binary_label_cross_entropy\<close> never reads the labels \<open>c\<close>, and no logarithm is
  taken: on three matrices of the same shape the cost of each element is \<open>- max p (1 - p)\<close> for the
  prediction \<open>p\<close>, the negated confidence in whichever label the prediction itself favours.\<close>

theorem cross_entropy_ignores_labels:
  assumes "height b = height m" "width b = width m" "height c = height m" "width c = width m"
    "i < unat (height m * width m)" "not_overtaken (unat (height m * width m)) (data b) (data m)"
  shows "\<exists>st'. mat_binary_label_cross_entropy b c st m = return st' \<and>
    st' (data m + of_nat i) = - max (st (data b + of_nat i)) (1 - st (data b + of_nat i))"
proof -
  let ?n = "unat (height m * width m)"
  let ?st1 = "for_range ?n (\<lambda>i s. s(data m + i := (if s (data b + i) > 1 / 2 then s (data b + i) else 1 - s (data b + i)))) st"
  let ?st2 = "for_range ?n (\<lambda>i s. s(data m + i := s (data m + i) * - 1)) ?st1"
  have ex: "\<exists>k < ?n. data m + of_nat i = data m + of_nat k" using assms(5) by blast
  have "?st1 (data m + of_nat i) = (if \<exists>k < ?n. data m + of_nat i = data m + of_nat k
      then (if st (data b + (data m + of_nat i - data m)) > 1 / 2 then st (data b + (data m + of_nat i - data m))
        else 1 - st (data b + (data m + of_nat i - data m))) else st (data m + of_nat i))"
    using assms(6) by (intro for_range_pointwise size_bound) (auto simp: not_overtaken_def)
  then have st1: "?st1 (data m + of_nat i) = max (st (data b + of_nat i)) (1 - st (data b + of_nat i))"
    using ex by (auto simp: max_def)
  have "?st2 (data m + of_nat i) = (if \<exists>k < ?n. data m + of_nat i = data m + of_nat k
      then ?st1 (data m + (data m + of_nat i - data m)) * - 1 else ?st1 (data m + of_nat i))"
    using not_overtaken_self [OF size_bound, of "height m * width m" "data m"]
    by (intro for_range_pointwise size_bound) (auto simp: not_overtaken_def)
  then have "?st2 (data m + of_nat i) = - max (st (data b + of_nat i)) (1 - st (data b + of_nat i))"
    using ex st1 by simp
  moreover have "mat_binary_label_cross_entropy b c st m = return ?st2"
    using assms(1-4) by (simp add: mat_binary_label_cross_entropy_def check_eq_def Let_def)
  ultimately show ?thesis by blast
qed

theorem cross_entropy_ignores_labels_witness:
  "\<exists>st'. mat_binary_label_cross_entropy \<lparr>height = 1, width = 2, stride = 2, data = 50, trans = False, sparse = False\<rparr>
      \<lparr>height = 1, width = 2, stride = 2, data = 90, trans = False, sparse = False\<rparr> (\<lambda>p. if p = 51 then 1 / 4 else 0)
      \<lparr>height = 1, width = 2, stride = 2, data = 10, trans = False, sparse = False\<rparr> = return st' \<and> st' 11 = - (3 / 4)"
proof -
  have "not_overtaken 2 50 10"
    by (rule not_overtaken_apart) simp_all
  then show ?thesis
    using cross_entropy_ignores_labels [of "\<lparr>height = 1, width = 2, stride = 2, data = 50, trans = False, sparse = False\<rparr>"
        "\<lparr>height = 1, width = 2, stride = 2, data = 10, trans = False, sparse = False\<rparr>"
        "\<lparr>height = 1, width = 2, stride = 2, data = 90, trans = False, sparse = False\<rparr>" 1 "\<lambda>p. if p = 51 then 1 / 4 else 0"]
    by simp
qed

text \<open>\<open>apply_l2\<close> with learning rates scales each element by \<open>1 / (1 + decay * lr)\<close>, unless the two
  matrices overlap in a way that changes a learning rate before it is used.\<close>

lemma apply_l2_scales:
  assumes "i < unat (height m * width m)" "not_overtaken (unat (height m * width m)) (data lr) (data m)"
  shows "\<exists>st'. mat_apply_l2_lr lr learning_rate decay_rate st m = return st' \<and>
    st' (data m + of_nat i) = st (data m + of_nat i) * (1 / (1 + learning_rate * decay_rate * st (data lr + of_nat i)))"
proof -
  let ?n = "unat (height m * width m)"
  have "for_range ?n (\<lambda>j s. s(data m + j := s (data m + j) * (1 / (1 + learning_rate * decay_rate * s (data lr + j))))) st
      (data m + of_nat i) = (if \<exists>k < ?n. data m + of_nat i = data m + of_nat k
      then st (data m + (data m + of_nat i - data m)) *
        (1 / (1 + learning_rate * decay_rate * st (data lr + (data m + of_nat i - data m)))) else st (data m + of_nat i))"
    using assms(2) not_overtaken_self [OF size_bound, of "height m * width m" "data m"]
    by (intro for_range_pointwise size_bound) (auto simp: not_overtaken_def)
  moreover have "\<exists>k < ?n. data m + of_nat i = data m + of_nat k" using assms(1) by blast
  ultimately show ?thesis by (simp add: mat_apply_l2_lr_def)
qed

lemma for_range_elsewhere:
  "(\<And>i s. i < n \<Longrightarrow> body (of_nat i) s p = s p) \<Longrightarrow> for_range n body st p = st p"
  by (induction n) simp_all

lemma apply_l2_elsewhere:
  "\<forall>i < unat (height m * width m). p \<noteq> data m + of_nat i \<Longrightarrow>
    for_range (unat (height m * width m)) (\<lambda>j s. s(data m + j := f j s)) st p = st p"
  by (rule for_range_elsewhere) simp

text \<open>Every method that hands a dense operand to the two-operand \<open>apply\<close> logs a failed check: the guard
  \<open>b.is_sparse()\<close> lacks its negation.\<close>

lemma apply_binary_all_rejects_dense:
  "\<not> sparse b \<Longrightarrow> fst (void (apply_binary_all op b m)) \<noteq> []"
  unfolding void_def apply_binary_all_def
  by (rule fst_bind_nonempty) (simp add: fst_bind apply_binary_rejects_dense [unfolded run_log_def])

lemma add_rejects_dense_operand: "\<not> sparse b \<Longrightarrow> run_log (mat_add b m) \<noteq> []"
  by (simp add: mat_add_def run_log_def apply_binary_all_rejects_dense)

end
