(* ===== verification/MatrixMacros.thy ===== *)
theory MatrixMacros
  imports MatrixOps
begin

text \<open>
  math/MatrixOps.h: the macros that declare the operator classes. A class is the map from the names of
  its two operators to their access and body; the two operators of a class have the same body, and a
  class with parameters keeps them as constants that its constructor sets. \<open>HL_DEVICE\<close> is a compiler
  attribute and has no counterpart.
\<close>

datatype access_level = Public | Private

type_synonym 'op operator_class = "string \<rightharpoonup> access_level \<times> 'op"

section \<open>Constructors with parameters\<close>

text \<open>\<open>op\<close> is the body as a function of the constants.\<close>

definition ONE_PARAMETER :: "('t \<Rightarrow> 'op) \<Rightarrow> 't \<Rightarrow> 'op" where
  "ONE_PARAMETER op s = (let t = s in op t)"

definition TWO_PARAMETER :: "('t \<Rightarrow> 't \<Rightarrow> 'op) \<Rightarrow> 't \<Rightarrow> 't \<Rightarrow> 'op" where
  "TWO_PARAMETER op s1 s2 = (let t1 = s1; t2 = s2 in op t1 t2)"

definition THREE_PARAMETER :: "('t \<Rightarrow> 't \<Rightarrow> 't \<Rightarrow> 'op) \<Rightarrow> 't \<Rightarrow> 't \<Rightarrow> 't \<Rightarrow> 'op" where
  "THREE_PARAMETER op s1 s2 s3 = (let t1 = s1; t2 = s2; t3 = s3 in op t1 t2 t3)"

definition FOUR_PARAMETER :: "('t \<Rightarrow> 't \<Rightarrow> 't \<Rightarrow> 't \<Rightarrow> 'op) \<Rightarrow> 't \<Rightarrow> 't \<Rightarrow> 't \<Rightarrow> 't \<Rightarrow> 'op" where
  "FOUR_PARAMETER op s1 s2 s3 s4 = (let t1 = s1; t2 = s2; t3 = s3; t4 = s4 in op t1 t2 t3 t4)"

section \<open>Operator classes\<close>

definition DEFINE_MATRIX_UNARY_OP :: "'op \<Rightarrow> 'op operator_class" where
  "DEFINE_MATRIX_UNARY_OP op = [''gpu_operator'' \<mapsto> (Public, op), ''cpu_operator'' \<mapsto> (Public, op)]"

text \<open>The GPU operator is misspelled.\<close>

definition DEFINE_MATRIX_UNARY_PARAMETER_OP :: "'op \<Rightarrow> 'op operator_class" where
  "DEFINE_MATRIX_UNARY_PARAMETER_OP op = [''gpu_operatoe'' \<mapsto> (Public, op), ''cpu_operator'' \<mapsto> (Public, op)]"

text \<open>The class has no \<open>public:\<close>.\<close>

definition DEFINE_MATRIX_BINARY_OP :: "'op \<Rightarrow> 'op operator_class" where
  "DEFINE_MATRIX_BINARY_OP op = [''gpu_operator'' \<mapsto> (Private, op), ''cpu_operator'' \<mapsto> (Private, op)]"

definition DEFINE_MATRIX_BINARY_PARAMETER_OP :: "'op \<Rightarrow> 'op operator_class" where
  "DEFINE_MATRIX_BINARY_PARAMETER_OP op = [''gpu_operator'' \<mapsto> (Public, op), ''cpu_operator'' \<mapsto> (Public, op)]"

definition DEFINE_MATRIX_TERNARY_OP :: "'op \<Rightarrow> 'op operator_class" where
  "DEFINE_MATRIX_TERNARY_OP op = [''gpu_operator'' \<mapsto> (Public, op), ''cpu_operator'' \<mapsto> (Public, op)]"

definition DEFINE_MATRIX_TERNARY_PARAMETER_OP :: "'op \<Rightarrow> 'op operator_class" where
  "DEFINE_MATRIX_TERNARY_PARAMETER_OP op = [''gpu_operator'' \<mapsto> (Public, op), ''cpu_operator'' \<mapsto> (Public, op)]"

definition DEFINE_MATRIX_QUATERNARY_OP :: "'op \<Rightarrow> 'op operator_class" where
  "DEFINE_MATRIX_QUATERNARY_OP op = [''gpu_operator'' \<mapsto> (Public, op), ''cpu_operator'' \<mapsto> (Public, op)]"

definition DEFINE_MATRIX_QUATERNARY_PARAMETER_OP :: "'op \<Rightarrow> 'op operator_class" where
  "DEFINE_MATRIX_QUATERNARY_PARAMETER_OP op = [''gpu_operator'' \<mapsto> (Public, op), ''cpu_operator'' \<mapsto> (Public, op)]"

section \<open>Which operators a kernel can call\<close>

text \<open>A call from outside the class needs a public member of the name.\<close>

definition callable :: "'op operator_class \<Rightarrow> string \<Rightarrow> 'op option" where
  "callable cls name = (case cls name of Some (Public, op) \<Rightarrow> Some op | _ \<Rightarrow> None)"

lemma callable_operators:
  "callable (DEFINE_MATRIX_BINARY_OP op) name = None"
  "callable (DEFINE_MATRIX_UNARY_PARAMETER_OP op) ''gpu_operator'' = None"
  "callable (DEFINE_MATRIX_UNARY_PARAMETER_OP op) ''cpu_operator'' = Some op"
  "cls \<in> {DEFINE_MATRIX_UNARY_OP, DEFINE_MATRIX_BINARY_PARAMETER_OP, DEFINE_MATRIX_TERNARY_OP,
      DEFINE_MATRIX_TERNARY_PARAMETER_OP, DEFINE_MATRIX_QUATERNARY_OP, DEFINE_MATRIX_QUATERNARY_PARAMETER_OP} \<Longrightarrow>
    name \<in> {''gpu_operator'', ''cpu_operator''} \<Longrightarrow> callable (cls op) name = Some op"
  by (auto simp: callable_def DEFINE_MATRIX_BINARY_OP_def DEFINE_MATRIX_UNARY_PARAMETER_OP_def DEFINE_MATRIX_UNARY_OP_def
      DEFINE_MATRIX_BINARY_PARAMETER_OP_def DEFINE_MATRIX_TERNARY_OP_def DEFINE_MATRIX_TERNARY_PARAMETER_OP_def
      DEFINE_MATRIX_QUATERNARY_OP_def DEFINE_MATRIX_QUATERNARY_PARAMETER_OP_def)

text \<open>Only a binary operator without parameters cannot be called by either kernel: these are \<open>Add\<close>, \<open>Sub\<close>,
  \<open>Relu\<close> and their like, while the scaled forms with parameters can.\<close>

lemma add_cannot_be_called: "callable (DEFINE_MATRIX_BINARY_OP binary_Add) ''cpu_operator'' = None"
  by (rule callable_operators)

lemma scaled_add_can_be_called:
  "callable (DEFINE_MATRIX_BINARY_PARAMETER_OP (ONE_PARAMETER binary_Add1 t)) ''cpu_operator'' = Some (binary_Add1 t)"
  by (subst callable_operators(4)) (simp_all add: ONE_PARAMETER_def)

end
