(* ===== verification/MatrixDoc.thy ===== *)
theory MatrixDoc
  imports MatrixMethods
begin

text \<open>
  The element-wise operators of math/BaseMatrix.cpp against what the comments of math/BaseMatrix.h say
  they compute, and against each other. The specifications \<open>doc_*\<close> are the comments, read over the reals.
  Relu, square, scaled tanh and soft relu agree with them, the last up to the error of the clipping, which
  is bounded here; tanh, the sigmoid method and three others do not compute what their comment says.
\<close>

section \<open>What the comments say\<close>

definition doc_relu :: "real_t \<Rightarrow> real_t" where
  "doc_relu this = max 0 this"

definition doc_soft_relu :: "real_t \<Rightarrow> real_t" where
  "doc_soft_relu this = ln (1 + exp this)"

definition doc_square :: "real_t \<Rightarrow> real_t" where
  "doc_square this = this * this"

definition doc_tanh :: "real_t \<Rightarrow> real_t" where
  "doc_tanh this = tanh this"

definition doc_scaled_tanh :: "real_t \<Rightarrow> real_t \<Rightarrow> real_t \<Rightarrow> real_t" where
  "doc_scaled_tanh t1 t2 this = t1 * tanh (t2 * this)"

definition doc_sigmoid :: "real_t \<Rightarrow> real_t" where
  "doc_sigmoid this = 1 / (1 + exp (- this))"

definition doc_sub :: "real_t \<Rightarrow> real_t \<Rightarrow> real_t" where
  "doc_sub b c = b - c"

text \<open>The new values of \<open>this\<close> and \<open>c\<close>.\<close>

definition doc_sgd_update :: "real_t \<Rightarrow> real_t \<Rightarrow> real_t \<Rightarrow> real_t \<Rightarrow> real_t \<Rightarrow> real_t \<Rightarrow> real_t \<Rightarrow> real_t \<times> real_t" where
  "doc_sgd_update t1 t2 t3 this b c d = (let c' = t2 * c - t1 * d * (b + t3 * this) in (this + c', c'))"

definition doc_logistic_regression_loss_bp :: "real_t \<Rightarrow> real_t \<Rightarrow> real_t \<Rightarrow> real_t" where
  "doc_logistic_regression_loss_bp this b c = this + (exp b / (1 + exp b) - c)"

section \<open>The activations\<close>

lemma one_plus_exp_pos: "0 < 1 + exp (x :: real)"
  by (simp add: add_pos_pos)

lemma doc_sigmoid_bounds: "0 < doc_sigmoid x" "doc_sigmoid x < 1" "doc_sigmoid x < exp x" "1 - doc_sigmoid x < exp (- x)"
proof -
  have pos: "0 < 1 + exp (- x)" by (rule one_plus_exp_pos)
  then show "0 < doc_sigmoid x" "doc_sigmoid x < 1" by (simp_all add: doc_sigmoid_def)
  have "exp x * (1 + exp (- x)) = exp x + 1" by (simp add: distrib_left exp_minus_inverse)
  with pos show "doc_sigmoid x < exp x" by (simp add: doc_sigmoid_def divide_less_eq)
  have "1 - doc_sigmoid x = exp (- x) / (1 + exp (- x))" using pos by (simp add: doc_sigmoid_def field_simps)
  also have "\<dots> < exp (- x)" using pos by (simp add: divide_less_eq)
  finally show "1 - doc_sigmoid x < exp (- x)" .
qed

lemma doc_sigmoid_mono: "x \<le> y \<Longrightarrow> doc_sigmoid x \<le> doc_sigmoid y"
  using one_plus_exp_pos [of "- x"] one_plus_exp_pos [of "- y"] by (simp add: doc_sigmoid_def frac_le)

lemma sigmoid_value: "snd (binary_Sigmoid a b) = doc_sigmoid (if a < - 40 then - 40 else if a > 13 then 13 else a)"
  by (simp add: binary_Sigmoid_def doc_sigmoid_def Let_def)

lemma sigmoid_error: "\<bar>snd (binary_Sigmoid a b) - doc_sigmoid a\<bar> < exp (- 13)"
proof -
  consider "a < - 40" | "- 40 \<le> a" "a \<le> 13" | "13 < a" by linarith
  then show ?thesis
  proof cases
    case 1
    then have "doc_sigmoid (- 40) < exp (- 40)" "doc_sigmoid a \<le> doc_sigmoid (- 40)"
      by (simp_all add: doc_sigmoid_bounds doc_sigmoid_mono)
    moreover have "exp (- 40) < exp (- 13 :: real)" by simp
    ultimately have "doc_sigmoid (- 40) - doc_sigmoid a < exp (- 13)" using doc_sigmoid_bounds(1) [of a] by linarith
    with 1 \<open>doc_sigmoid a \<le> doc_sigmoid (- 40)\<close> show ?thesis by (simp add: sigmoid_value)
  next
    case 2
    then show ?thesis by (simp add: sigmoid_value)
  next
    case 3
    then have "doc_sigmoid 13 \<le> doc_sigmoid a" by (simp add: doc_sigmoid_mono)
    with 3 doc_sigmoid_bounds(4) [of 13] doc_sigmoid_bounds(2) [of a] show ?thesis by (simp add: sigmoid_value)
  qed
qed

lemma doc_soft_relu_bounds: "0 < doc_soft_relu x" "x < doc_soft_relu x" "doc_soft_relu x \<le> exp x"
  "doc_soft_relu x \<le> x + exp (- x)"
proof -
  have pos: "0 < 1 + exp x" by (rule one_plus_exp_pos)
  show "0 < doc_soft_relu x" unfolding doc_soft_relu_def by (rule ln_gt_zero) simp
  have "ln (exp x) < ln (1 + exp x)" by (subst ln_less_cancel_iff) (simp_all add: pos)
  then show "x < doc_soft_relu x" by (simp add: doc_soft_relu_def)
  show "doc_soft_relu x \<le> exp x" unfolding doc_soft_relu_def by (rule ln_add_one_self_le_self) simp
  have "1 + exp x = exp x * (1 + exp (- x))" by (simp add: distrib_left exp_minus_inverse)
  then have "doc_soft_relu x = x + ln (1 + exp (- x))"
    using one_plus_exp_pos [of "- x"] by (simp add: doc_soft_relu_def ln_mult)
  also have "\<dots> \<le> x + exp (- x)" using ln_add_one_self_le_self [of "exp (- x)"] by simp
  finally show "doc_soft_relu x \<le> x + exp (- x)" .
qed

lemma doc_soft_relu_mono: "x \<le> y \<Longrightarrow> doc_soft_relu x \<le> doc_soft_relu y"
  using one_plus_exp_pos [of x] one_plus_exp_pos [of y] by (simp add: doc_soft_relu_def)

lemma soft_relu_value: "snd (binary_SoftRelu a b) = doc_soft_relu (if a > 40 then 40 else if a < - 40 then - 40 else a)"
  by (simp add: binary_SoftRelu_def doc_soft_relu_def)

lemma soft_relu_error:
  "a \<le> 40 \<Longrightarrow> \<bar>snd (binary_SoftRelu a b) - doc_soft_relu a\<bar> \<le> exp (- 40)"
  "40 < a \<Longrightarrow> a - 40 - exp (- 40) < doc_soft_relu a - snd (binary_SoftRelu a b)"
proof -
  show "\<bar>snd (binary_SoftRelu a b) - doc_soft_relu a\<bar> \<le> exp (- 40)" if "a \<le> 40"
  proof (cases "a < - 40")
    case True
    then have "doc_soft_relu a \<le> doc_soft_relu (- 40)" by (simp add: doc_soft_relu_mono)
    with True doc_soft_relu_bounds(3) [of "- 40"] doc_soft_relu_bounds(1) [of a] show ?thesis
      by (simp add: soft_relu_value)
  qed (use that in \<open>simp add: soft_relu_value\<close>)
  show "a - 40 - exp (- 40) < doc_soft_relu a - snd (binary_SoftRelu a b)" if "40 < a"
    using that doc_soft_relu_bounds(2) [of a] doc_soft_relu_bounds(4) [of 40] by (simp add: soft_relu_value)
qed

lemma tanh_form: "2 / (1 + exp (- 2 * x)) - 1 = tanh (x :: real)"
  using one_plus_exp_pos [of "- 2 * x"] by (simp add: tanh_real_altdef field_simps)

lemma tanh_reads_output: "snd (binary_Tanh a b) = doc_tanh a \<longleftrightarrow> b = a"
  unfolding binary_Tanh_def snd_conv tanh_form doc_tanh_def by (rule tanh_real_eq_iff)

text \<open>The second element: \<open>BaseMatrixT::sigmoid\<close> makes \<open>1 / (1 - t)\<close> of it, \<open>t\<close> the clipped input.\<close>

lemma sigmoid_clip_below: "- sigmoid_clip x < exp (- x)"
proof -
  have "1 - x \<le> exp (- x)" using exp_ge_add_one_self [of "- x"] by simp
  moreover have "- 13 < exp (- x)" by (rule less_trans [OF _ exp_gt_zero]) simp
  ultimately show ?thesis by (simp add: sigmoid_clip_def Let_def)
qed

lemma sigmoid_second_element_wrong: "1 / (1 - sigmoid_clip x) \<noteq> doc_sigmoid x"
proof
  assume "1 / (1 - sigmoid_clip x) = doc_sigmoid x"
  then have "1 - sigmoid_clip x = 1 + exp (- x)" by (simp add: doc_sigmoid_def)
  with sigmoid_clip_below [of x] show False by simp
qed

text \<open>C34. What the forward activations compute, over the reals, against the comments of BaseMatrix.h. The operators of
  relu, square and the scaled tanh compute what the comments of these methods say. That of soft relu does so up to \<open>exp (-40)\<close> for inputs up to
  40; above, it is constant and its error grows with the input. That of tanh reads the output element
  \<open>b\<close> in place of the input \<open>a\<close> and is right exactly when they are equal. The operator class \<open>binary::Sigmoid\<close>
  is within \<open>exp (-13)\<close> of the documented sigmoid everywhere and equals it between -40 and 13, but nothing
  uses it: the method \<open>sigmoid\<close> has loops of its own, and on two matrices of the same shape with at least two
  elements, the output not overwriting inputs before they are read, every output depends on the second input element
  alone (its clipped value \<open>t\<close>, away from the poles at 1 and 2), and the second output is never the
  documented one.\<close>

theorem activations_against_documentation:
  "snd (binary_Relu a b) = doc_relu a \<and> snd (binary_Square a b) = doc_square a \<and>
   snd (binary_ScaledTanh t1 t2 a b) = doc_scaled_tanh t1 t2 a \<and>
   (if a \<le> 40 then \<bar>snd (binary_SoftRelu a b) - doc_soft_relu a\<bar> \<le> exp (- 40)
    else a - 40 - exp (- 40) < doc_soft_relu a - snd (binary_SoftRelu a b)) \<and>
   (snd (binary_Tanh a b) = doc_tanh a \<longleftrightarrow> b = a) \<and>
   \<bar>snd (binary_Sigmoid a b) - doc_sigmoid a\<bar> < exp (- 13) \<and>
   (- 40 \<le> a \<and> a \<le> 13 \<longrightarrow> snd (binary_Sigmoid a b) = doc_sigmoid a) \<and>
   (height out = height m \<and> width out = width m \<and> 1 < unat (height m * width m) \<and>
      not_overtaken (unat (height m * width m)) (data m) (data out) \<and>
      t = sigmoid_clip (st (data m + 1)) \<and> t \<noteq> 1 \<and> t \<noteq> 2 \<longrightarrow>
    (\<exists>st'. mat_sigmoid out st m = return st' \<and> st' (data out + 1) \<noteq> doc_sigmoid (st (data m + 1)) \<and>
      (\<forall>i < unat (height m * width m).
        st' (data out + of_nat i) = (if i < 2 then 1 / (1 - t) else 1 / (1 + 1 / (1 - t))))))"
proof (intro conjI)
  show "snd (binary_Relu a b) = doc_relu a" by (simp add: binary_Relu_def doc_relu_def max_def)
  show "snd (binary_Square a b) = doc_square a" by (simp add: binary_Square_def doc_square_def)
  show "snd (binary_ScaledTanh t1 t2 a b) = doc_scaled_tanh t1 t2 a"
    using tanh_form [of "t2 * a"] by (simp add: binary_ScaledTanh_def doc_scaled_tanh_def mult.assoc)
  show "snd (binary_Tanh a b) = doc_tanh a \<longleftrightarrow> b = a" by (rule tanh_reads_output)
  show "(- 40 \<le> a \<and> a \<le> 13 \<longrightarrow> snd (binary_Sigmoid a b) = doc_sigmoid a)" by (simp add: sigmoid_value)
  show "height out = height m \<and> width out = width m \<and> 1 < unat (height m * width m) \<and>
      not_overtaken (unat (height m * width m)) (data m) (data out) \<and>
      t = sigmoid_clip (st (data m + 1)) \<and> t \<noteq> 1 \<and> t \<noteq> 2 \<longrightarrow>
    (\<exists>st'. mat_sigmoid out st m = return st' \<and> st' (data out + 1) \<noteq> doc_sigmoid (st (data m + 1)) \<and>
      (\<forall>i < unat (height m * width m).
        st' (data out + of_nat i) = (if i < 2 then 1 / (1 - t) else 1 / (1 + 1 / (1 - t)))))"
  proof (rule impI, elim conjE)
    assume h: "height out = height m" "width out = width m" "1 < unat (height m * width m)"
      "not_overtaken (unat (height m * width m)) (data m) (data out)"
      "t = sigmoid_clip (st (data m + 1))" "t \<noteq> 1" "t \<noteq> 2"
    note each = sigmoid_uses_second_element [where b = out and m = m and t = t and st = st, OF h(1,2) _ h(3-7)]
    from each [of 1] h(3) obtain st' where st': "mat_sigmoid out st m = return st'" "st' (data out + 1) = 1 / (1 - t)" by auto
    have "st' (data out + of_nat i) = (if i < 2 then 1 / (1 - t) else 1 / (1 + 1 / (1 - t)))"
      if "i < unat (height m * width m)" for i
      using each [OF that] st'(1) by (simp add: return_def)
    with st' h(5) sigmoid_second_element_wrong [of "st (data m + 1)"]
    show "\<exists>st'. mat_sigmoid out st m = return st' \<and> st' (data out + 1) \<noteq> doc_sigmoid (st (data m + 1)) \<and>
      (\<forall>i < unat (height m * width m).
        st' (data out + of_nat i) = (if i < 2 then 1 / (1 - t) else 1 / (1 + 1 / (1 - t))))" by auto
  qed
qed (use sigmoid_error soft_relu_error in auto)

theorem activations_against_documentation_witness:
  "\<exists>st'. mat_sigmoid \<lparr>height = 1, width = 3, stride = 3, data = 50, trans = False, sparse = False\<rparr> (\<lambda>p. 3)
      \<lparr>height = 1, width = 3, stride = 3, data = 10, trans = False, sparse = False\<rparr> = return st' \<and>
      st' 51 \<noteq> doc_sigmoid 3 \<and> st' 52 = 2"
proof -
  let ?out = "\<lparr>height = 1, width = 3, stride = 3, data = 50, trans = False, sparse = False\<rparr>"
  let ?m = "\<lparr>height = 1, width = 3, stride = 3, data = 10, trans = False, sparse = False\<rparr>"
  have "not_overtaken 3 10 50" by (rule not_overtaken_apart) simp_all
  with activations_against_documentation [of 0 0 0 0 ?out ?m 3 "\<lambda>p. 3"] obtain st' where
    st': "mat_sigmoid ?out (\<lambda>p. 3) ?m = return st'" "st' 51 \<noteq> doc_sigmoid 3"
    "\<forall>i < 3. st' (50 + of_nat i) = (if i < 2 then 1 / (1 - 3) else 1 / (1 + 1 / (1 - 3)))"
    by (auto simp: sigmoid_clip_def)
  from st'(3) [rule_format, of 2] have "st' 52 = 2" by simp
  with st'(1,2) show ?thesis by blast
qed

section \<open>The losses\<close>

text \<open>C35. The losses are one another's special cases, and so are their backward operators, over the reals: the rank
  loss of \<open>b\<close> and \<open>c\<close> is the logistic loss of \<open>b - c\<close>; on a label of 0 or 1 and a prediction strictly
  between 0 and 1 the binary-label cross entropy is the soft cross entropy; and between -40 and 13, where nothing is
  clipped, the logistic loss is the soft cross entropy of the sigmoid. Backwards, from any incoming gradient \<open>g\<close>,
  the operator of the soft cross entropy followed by that of the sigmoid gives what the operator of the
  sigmoid alone makes of \<open>g\<close> plus the value the logistic operator assigns: the same value when \<open>g\<close> is 0. (The
  values are those of the operators, which for the logistic loss assign; its comment in BaseMatrix.h says
  that it adds.)\<close>

theorem losses_agree:
  assumes "- 40 \<le> x" "x \<le> 13" "label = 0 \<or> label = 1" "0 < p" "p < 1"
  shows "quaternary_RankLoss a b c d = (ternary_LogisticRegressionLoss a (b - c) d, c) \<and>
    quaternary_RankLossBp a b c d = (ternary_LogisticRegressionLossBp a (b - c) d, c) \<and>
    ternary_BinaryLabelCrossEntropy a p label = ternary_SoftCrossEntropy a p label \<and>
    ternary_BinaryLabelCrossEntropyBp a p label = ternary_SoftCrossEntropyBp a p label \<and>
    ternary_LogisticRegressionLoss a x c = ternary_SoftCrossEntropy a (snd (binary_Sigmoid x b)) c \<and>
    fst (binary_SigmoidDerivative (ternary_SoftCrossEntropyBp g (snd (binary_Sigmoid x b)) c) (snd (binary_Sigmoid x b))) =
      fst (binary_SigmoidDerivative g (snd (binary_Sigmoid x b))) + ternary_LogisticRegressionLossBp a x c"
proof -
  let ?s = "doc_sigmoid x"
  have s: "snd (binary_Sigmoid x b) = ?s" using assms(1,2) by (simp add: sigmoid_value)
  have pos: "0 < 1 + exp x" "0 < 1 + exp (- x)" by (rule one_plus_exp_pos)+
  have "1 + exp x = exp x * (1 + exp (- x))" by (simp add: distrib_left exp_minus_inverse)
  then have se: "?s = exp x / (1 + exp x)" "1 - ?s = 1 / (1 + exp x)"
    using pos by (simp_all add: doc_sigmoid_def field_simps)
  then have ln: "ln ?s = x - ln (1 + exp x)" "ln (1 - ?s) = - ln (1 + exp x)" using pos by (simp_all add: ln_div)
  have loss: "ternary_LogisticRegressionLoss a x c = ternary_SoftCrossEntropy a ?s c"
    using assms(1,2) unfolding ternary_LogisticRegressionLoss_def ternary_SoftCrossEntropy_def ln
    by (simp add: Let_def) (simp add: algebra_simps)
  have "ternary_LogisticRegressionLossBp a x c = ?s - c"
    using assms(1,2) by (simp add: ternary_LogisticRegressionLossBp_def se(1) Let_def)
  moreover have "?s * (1 - ?s) \<noteq> 0" using doc_sigmoid_bounds(1,2) [of x] by simp
  ultimately have bp: "fst (binary_SigmoidDerivative (ternary_SoftCrossEntropyBp g ?s c) ?s) =
      fst (binary_SigmoidDerivative g ?s) + ternary_LogisticRegressionLossBp a x c"
    by (simp add: binary_SigmoidDerivative_def ternary_SoftCrossEntropyBp_def distrib_right)
  have "ternary_BinaryLabelCrossEntropyBp a p label = ternary_SoftCrossEntropyBp a p label"
    using assms(3-5) by (auto simp: ternary_BinaryLabelCrossEntropyBp_def ternary_SoftCrossEntropyBp_def field_simps)
  moreover have "ternary_BinaryLabelCrossEntropy a p label = ternary_SoftCrossEntropy a p label"
    using assms(3) by (auto simp: ternary_BinaryLabelCrossEntropy_def ternary_SoftCrossEntropy_def)
  moreover have "quaternary_RankLoss a b c d = (ternary_LogisticRegressionLoss a (b - c) d, c)"
    by (simp add: quaternary_RankLoss_def ternary_LogisticRegressionLoss_def Let_def mult.commute)
  moreover have "quaternary_RankLossBp a b c d = (ternary_LogisticRegressionLossBp a (b - c) d, c)"
    by (simp add: quaternary_RankLossBp_def ternary_LogisticRegressionLossBp_def Let_def)
  ultimately show ?thesis using loss bp by (simp only: s simp_thms)
qed

theorem losses_agree_witness:
  "ternary_LogisticRegressionLoss 0 2 1 = ternary_SoftCrossEntropy 0 (snd (binary_Sigmoid 2 0)) 1 \<and>
   ternary_BinaryLabelCrossEntropyBp 0 (1 / 4) 1 = ternary_SoftCrossEntropyBp 0 (1 / 4) 1 \<and>
   fst (binary_SigmoidDerivative (ternary_SoftCrossEntropyBp 0 (snd (binary_Sigmoid 2 0)) 1) (snd (binary_Sigmoid 2 0))) =
     ternary_LogisticRegressionLossBp 0 2 1"
  using losses_agree [of 2 1 "1 / 4" 0 0 1 0 0] by (simp add: binary_SigmoidDerivative_def)

section \<open>Where the comments are wrong\<close>

text \<open>Four methods do not compute what their comment says, whatever the other operands are. Tanh
  takes the hyperbolic tangent of the output operand \<open>b\<close>, so it is right only if that holds the input
  already. The difference of two matrices is right only if they are equal. \<open>sgd_update\<close> leaves \<open>this\<close>
  alone and ignores the learning rates \<open>d\<close>: it is right only when the documented new momentum is zero
  with and without the rate. The backward logistic loss assigns where it is documented to add, so it is
  right only on a zero gradient.\<close>

theorem methods_differ_from_documentation:
  assumes "- 40 \<le> b" "b \<le> 40"
  shows "(snd (binary_Tanh a b) = doc_tanh a \<longleftrightarrow> b = a) \<and>
    (ternary_Sub a b c = doc_sub b c \<longleftrightarrow> b = c) \<and>
    (quaternary_SgdUpdate t1 t2 t3 a b c d = doc_sgd_update t1 t2 t3 a b c d \<longleftrightarrow>
      t2 * c = t1 * (b + t3 * a) \<and> t2 * c = t1 * d * (b + t3 * a)) \<and>
    (ternary_LogisticRegressionLossBp a b c = doc_logistic_regression_loss_bp a b c \<longleftrightarrow> a = 0)"
proof (intro conjI)
  show "snd (binary_Tanh a b) = doc_tanh a \<longleftrightarrow> b = a" by (rule tanh_reads_output)
  show "ternary_Sub a b c = doc_sub b c \<longleftrightarrow> b = c" by (auto simp: ternary_Sub_def doc_sub_def)
  show "quaternary_SgdUpdate t1 t2 t3 a b c d = doc_sgd_update t1 t2 t3 a b c d \<longleftrightarrow>
      t2 * c = t1 * (b + t3 * a) \<and> t2 * c = t1 * d * (b + t3 * a)"
    by (auto simp: quaternary_SgdUpdate_def doc_sgd_update_def Let_def)
  show "ternary_LogisticRegressionLossBp a b c = doc_logistic_regression_loss_bp a b c \<longleftrightarrow> a = 0"
    using assms by (auto simp: ternary_LogisticRegressionLossBp_def doc_logistic_regression_loss_bp_def Let_def)
qed

theorem methods_differ_from_documentation_witness:
  "snd (binary_Tanh 1 2) \<noteq> doc_tanh 1 \<and> ternary_Sub 1 2 3 \<noteq> doc_sub 2 3 \<and>
   quaternary_SgdUpdate 1 1 0 0 2 3 1 \<noteq> doc_sgd_update 1 1 0 0 2 3 1 \<and>
   ternary_LogisticRegressionLossBp 1 2 3 \<noteq> doc_logistic_regression_loss_bp 1 2 3"
  using methods_differ_from_documentation [of 2 1 3 0 0 0 0] methods_differ_from_documentation [of 2 0 3 1 1 0 1] by simp

section \<open>Rows\<close>

text \<open>\<open>row_buf\<close> steps by the width, while the \<open>apply\<close> routines step by the stride: it is the start of a row
  for every row only when the stride is the width.\<close>

lemma row_buf_iff_packed:
  assumes "unat (stride m) < 2 ^ 31"
  shows "(\<forall>row. row_buf row m = data m + (row * of_int32 (to_int (stride m)) + 0)) \<longleftrightarrow> stride m = width m"
proof -
  have "of_int32 (to_int (stride m)) = stride m" using assms by (rule of_int32_to_int)
  then show ?thesis unfolding row_buf_def by (metis add.right_neutral add_left_cancel mult.commute mult.right_neutral)
qed

end
