(* ===== verification/Regularization.thy ===== *)
theory Regularization
  imports MatrixMethods
begin

text \<open>
  The regularization steps of math/BaseMatrix.cpp (\<open>apply_l1\<close>, \<open>apply_l2\<close>) against what they are for. A
  step with the strength \<open>k\<close> should move a parameter \<open>a\<close> to the point that weighs the penalty \<open>h\<close> against
  the distance from \<open>a\<close>: the minimum of \<open>(x - a)\<^sup>2 / 2 + h x\<close> over \<open>x\<close>, where \<open>h\<close> is \<open>k * \<bar>x\<bar>\<close> or
  \<open>k / 2 * x\<^sup>2\<close>.
\<close>

section \<open>Proximal points\<close>

definition penalized :: "(real_t \<Rightarrow> real_t) \<Rightarrow> real_t \<Rightarrow> real_t \<Rightarrow> real_t" where
  "penalized h a x = (x - a)\<^sup>2 / 2 + h x"

definition proximal :: "(real_t \<Rightarrow> real_t) \<Rightarrow> real_t \<Rightarrow> real_t \<Rightarrow> bool" where
  "proximal h a p \<longleftrightarrow> (\<forall>x. x \<noteq> p \<longrightarrow> penalized h a p < penalized h a x)"

definition l1_penalty :: "real_t \<Rightarrow> real_t \<Rightarrow> real_t" where
  "l1_penalty k x = k * \<bar>x\<bar>"

definition l2_penalty :: "real_t \<Rightarrow> real_t \<Rightarrow> real_t" where
  "l2_penalty k x = k / 2 * x\<^sup>2"

lemma proximal_unique: "proximal h a p \<Longrightarrow> proximal h a q \<Longrightarrow> p = q"
  by (metis proximal_def less_asym)

text \<open>A subgradient \<open>g\<close> of the penalty at \<open>p\<close> that balances the distance makes \<open>p\<close> the minimum.\<close>

lemma proximal_subgradient:
  assumes "\<And>x. h p + g * (x - p) \<le> h x" "a = p + g"
  shows "proximal h a p"
  unfolding proximal_def
proof (intro allI impI)
  fix x :: real_t assume "x \<noteq> p"
  then have "0 < (x - p)\<^sup>2" by simp
  moreover have "penalized h a x = penalized h a p + (x - p)\<^sup>2 / 2 + (h x - h p - g * (x - p))"
    unfolding penalized_def assms(2) by (simp add: power2_eq_square field_simps)
  ultimately show "penalized h a p < penalized h a x" using assms(1) [of x] by linarith
qed

lemma soft_threshold_proximal:
  assumes "0 \<le> k"
  shows "proximal (l1_penalty k) a (unary_ApplyL1 k a)"
proof (rule proximal_subgradient [where g = "a - unary_ApplyL1 k a"])
  fix x
  have up: "k * x \<le> k * \<bar>x\<bar>" "- (k * x) \<le> k * \<bar>x\<bar>"
    using mult_left_mono [OF _ assms, of x "\<bar>x\<bar>"] mult_left_mono [OF _ assms, of "- x" "\<bar>x\<bar>"] by simp_all
  consider "k < a" | "a < - k" | "\<bar>a\<bar> \<le> k" by linarith
  then show "l1_penalty k (unary_ApplyL1 k a) + (a - unary_ApplyL1 k a) * (x - unary_ApplyL1 k a) \<le> l1_penalty k x"
  proof cases
    case 1
    then show ?thesis using assms up(1) by (simp add: unary_ApplyL1_def l1_penalty_def algebra_simps)
  next
    case 2
    then show ?thesis using assms up(2) by (simp add: unary_ApplyL1_def l1_penalty_def algebra_simps)
  next
    case 3
    have "a * x \<le> \<bar>a\<bar> * \<bar>x\<bar>" by (metis abs_ge_self abs_mult)
    also have "\<dots> \<le> k * \<bar>x\<bar>" by (rule mult_right_mono [OF 3]) simp
    finally show ?thesis using 3 by (auto simp: unary_ApplyL1_def l1_penalty_def Let_def)
  qed
qed simp

lemma shrinking_proximal:
  assumes "0 \<le> k"
  shows "proximal (l2_penalty k) a (a * (1 / (1 + k)))"
proof (rule proximal_subgradient [where g = "k * (a * (1 / (1 + k)))"])
  have tangent: "l2_penalty k p + k * p * (x - p) \<le> l2_penalty k x" for p x
  proof -
    have "l2_penalty k x = l2_penalty k p + k * p * (x - p) + k / 2 * (x - p)\<^sup>2"
      by (simp add: l2_penalty_def power2_eq_square field_simps)
    then show ?thesis using assms by simp
  qed
  show "l2_penalty k (a * (1 / (1 + k))) + k * (a * (1 / (1 + k))) * (x - a * (1 / (1 + k))) \<le> l2_penalty k x" for x
    by (rule tangent)
next
  have "a = a * ((1 + k) * (1 / (1 + k)))" using assms by simp
  also have "\<dots> = a * (1 / (1 + k)) + k * (a * (1 / (1 + k)))" by (simp only: algebra_simps mult_1)
  finally show "a = a * (1 / (1 + k)) + k * (a * (1 / (1 + k)))" .
qed

section \<open>The regularization steps\<close>

text \<open>The element in row \<open>i\<close> and column \<open>j\<close>. The loop of \<open>apply_l2\<close> ignores the stride: it takes the first
  \<open>height * width\<close> addresses of the matrix, which are its elements when the stride is the width.\<close>

definition element_at :: "matrix \<Rightarrow> nat \<Rightarrow> nat \<Rightarrow> u64" where
  "element_at m i j = data m + (of_nat i * stride m + of_nat j)"

lemma element_at_packed:
  assumes "stride m = w"
  shows "element_at m i j = data m + of_nat (i * unat w + j)"
  using assms by (simp add: element_at_def)

lemma packed_index:
  assumes "i < h" "j < (w :: nat)"
  shows "i * w + j < h * w"
proof -
  have "i * w + j < (i + 1) * w" using assms(2) by simp
  also have "\<dots> \<le> h * w" using assms(1) by (intro mult_le_mono1) simp
  finally show ?thesis .
qed

lemma index_packed: "n < h * w \<Longrightarrow> n div w < h \<and> n mod w < (w :: nat) \<and> n div w * w + n mod w = n"
  by (cases "w = 0") (simp_all add: less_mult_imp_div_less)

text \<open>With a wider stride the loop stops before the last element.\<close>

lemma strided_index:
  assumes "1 < h" "0 < w" "w < (s :: nat)"
  shows "h * w \<le> (h - 1) * s + (w - 1)"
proof -
  have "h * w = (h - 1) * w + w" using assms(1) by (cases h) simp_all
  moreover have "(h - 1) * (w + 1) \<le> (h - 1) * s" using assms(3) by (intro mult_le_mono2) simp
  ultimately show ?thesis using assms(1,2) by simp
qed

lemma apply_l2_result:
  assumes "mat_apply_l2_lr lr learning_rate decay_rate st m = return st'" "n = unat (height m) * unat (width m)" "n < 2 ^ 64"
    "not_overtaken n (data lr) (data m)"
  shows "i < n \<Longrightarrow> st' (data m + of_nat i) =
      st (data m + of_nat i) * (1 / (1 + learning_rate * decay_rate * st (data lr + of_nat i)))"
    "\<forall>i < n. p \<noteq> data m + of_nat i \<Longrightarrow> st' p = st p"
proof -
  have n: "unat (height m * width m) = n" using assms(2,3) by (simp add: unat_mult_u64)
  show "st' (data m + of_nat i) = st (data m + of_nat i) * (1 / (1 + learning_rate * decay_rate * st (data lr + of_nat i)))"
    if "i < n"
    using apply_l2_scales [of i m lr learning_rate decay_rate st] that assms(1,4) by (simp add: n return_def)
  have "st' = for_range n (\<lambda>j s. s(data m + j := s (data m + j) * (1 / (1 + learning_rate * decay_rate * s (data lr + j))))) st"
    using assms(1) by (simp add: mat_apply_l2_lr_def n return_def)
  moreover assume "\<forall>i < n. p \<noteq> data m + of_nat i"
  ultimately show "st' p = st p" by (simp add: for_range_elsewhere)
qed

lemma apply_l2_packed:
  assumes "mat_apply_l2_lr lr learning_rate decay_rate st m = return st'" "n = unat (height m) * unat (width m)" "n < 2 ^ 64"
    "not_overtaken n (data lr) (data m)" "\<And>i. i < n \<Longrightarrow> 0 \<le> learning_rate * decay_rate * st (data lr + of_nat i)"
    "stride m = width m" "stride lr = width m"
  shows "i < unat (height m) \<Longrightarrow> j < unat (width m) \<Longrightarrow>
      proximal (l2_penalty (learning_rate * decay_rate * st (element_at lr i j))) (st (element_at m i j)) (st' (element_at m i j))"
    "\<forall>i < unat (height m). \<forall>j < unat (width m). p \<noteq> element_at m i j \<Longrightarrow> st' p = st p"
proof -
  note result = apply_l2_result [OF assms(1-4)] and at_m = element_at_packed [OF assms(6)] and at_lr = element_at_packed [OF assms(7)]
  show "proximal (l2_penalty (learning_rate * decay_rate * st (element_at lr i j))) (st (element_at m i j)) (st' (element_at m i j))"
    if "i < unat (height m)" "j < unat (width m)"
  proof -
    have at: "i * unat (width m) + j < n" unfolding assms(2) using that by (rule packed_index)
    show ?thesis unfolding at_m at_lr result(1) [OF at] by (rule shrinking_proximal [OF assms(5) [OF at]])
  qed
  assume p: "\<forall>i < unat (height m). \<forall>j < unat (width m). p \<noteq> element_at m i j"
  have "p \<noteq> data m + of_nat i" if "i < n" for i
  proof -
    let ?r = "i div unat (width m)" and ?c = "i mod unat (width m)"
    have "i < unat (height m) * unat (width m)" using that unfolding assms(2) .
    note at = index_packed [OF this]
    have "p \<noteq> element_at m ?r ?c"
      using p [rule_format, OF at [THEN conjunct1] at [THEN conjunct2, THEN conjunct1]] .
    then show ?thesis unfolding at_m at [THEN conjunct2, THEN conjunct2] .
  qed
  then show "st' p = st p" by (intro result(2)) blast
qed

lemma apply_l2_strided:
  assumes "mat_apply_l2_lr lr learning_rate decay_rate st m = return st'" "n = unat (height m) * unat (width m)" "n < 2 ^ 64"
    "not_overtaken n (data lr) (data m)"
    "width m < stride m" "0 < width m" "1 < height m" "unat (height m) * unat (stride m) < 2 ^ 64"
  shows "st' (element_at m (unat (height m) - 1) (unat (width m) - 1)) = st (element_at m (unat (height m) - 1) (unat (width m) - 1))"
    "st' (element_at m 0 (unat (width m))) = st (element_at m 0 (unat (width m))) *
          (1 / (1 + learning_rate * decay_rate * st (data lr + width m)))"
proof -
  note result = apply_l2_result [OF assms(1-4)]
  let ?h = "unat (height m)" and ?w = "unat (width m)" and ?s = "unat (stride m)"
  let ?l = "(?h - 1) * ?s + (?w - 1)"
  have sizes: "1 < ?h" "0 < ?w" "?w < ?s" using assms(5-7) by (simp_all add: word_less_nat_alt)
  have last: "element_at m (?h - 1) (?w - 1) = data m + of_nat ?l" by (simp add: element_at_def)
  have "?l < ?h * ?s" using sizes by (intro packed_index) simp_all
  then have l: "?l < 2 ^ 64" using assms(8) by linarith
  have beyond: "n \<le> ?l" unfolding assms(2) using sizes by (rule strided_index)
  have "data m + of_nat ?l \<noteq> data m + of_nat i" if i: "i < n" for i
  proof
    assume "data m + of_nat ?l = data m + of_nat i"
    then have "(of_nat ?l :: u64) = of_nat i" unfolding add_left_cancel .
    then have "?l = i" using of_nat_u64_inj [OF l less_trans [OF i assms(3)]] by (rule rev_iffD1)
    with i beyond show False by linarith
  qed
  then show "st' (element_at m (?h - 1) (?w - 1)) = st (element_at m (?h - 1) (?w - 1))"
    unfolding last by (intro result(2)) blast
  have "1 * ?w < ?h * ?w" using sizes(1,2) by (intro mult_strict_right_mono) simp_all
  then have "?w < n" unfolding assms(2) by simp
  from result(1) [OF this] show "st' (element_at m 0 ?w) =
      st (element_at m 0 ?w) * (1 / (1 + learning_rate * decay_rate * st (data lr + width m)))"
    by (simp add: element_at_def)
qed

text \<open>C36. The regularization steps are the proximal steps of their penalties. For strengths that are not
  negative, the operators of \<open>apply_l1\<close>, with one rate and with a rate for each element, move an element
  \<open>a\<close> to the unique minimum of \<open>(x - a)\<^sup>2 / 2 + k * \<bar>x\<bar>\<close>, and those of \<open>apply_l2\<close> to the unique minimum of
  \<open>(x - a)\<^sup>2 / 2 + k / 2 * x\<^sup>2\<close>, where \<open>k\<close> is the product of the rates. The loop of \<open>apply_l2\<close> with learning
  rates ignores the strides. When the stride of the matrix and of the rates is the width, the number of
  elements does not wrap, and the matrices do not overlap in such a way that a rate is changed before it is
  read, it does this to every element of the matrix, with the rate in the same row and column, and to
  nothing else. On a matrix of more than one row whose stride is wider, it leaves the last element as it was
  and scales the first cell of padding.\<close>

theorem regularization_is_proximal:
  assumes "0 \<le> k" "0 \<le> k * b" "n = unat (height m) * unat (width m)" "n < 2 ^ 64"
    "not_overtaken n (data lr) (data m)"
    "\<And>i. i < n \<Longrightarrow> 0 \<le> learning_rate * decay_rate * st (data lr + of_nat i)"
  shows "proximal (l1_penalty k) a (unary_ApplyL1 k a) \<and>
    proximal (l1_penalty (k * b)) a (fst (binary_ApplyL1 k a b)) \<and>
    proximal (l2_penalty k) a (unary_MulScalar (1 / (1 + k)) a) \<and>
    proximal (l2_penalty (k * b)) a (fst (binary_ApplyL2 k a b)) \<and>
    (\<exists>st'. mat_apply_l2_lr lr learning_rate decay_rate st m = return st' \<and>
      (stride m = width m \<and> stride lr = width m \<longrightarrow>
        (\<forall>i < unat (height m). \<forall>j < unat (width m).
          proximal (l2_penalty (learning_rate * decay_rate * st (element_at lr i j)))
            (st (element_at m i j)) (st' (element_at m i j))) \<and>
        (\<forall>p. (\<forall>i < unat (height m). \<forall>j < unat (width m). p \<noteq> element_at m i j) \<longrightarrow> st' p = st p)) \<and>
      (width m < stride m \<and> 0 < width m \<and> 1 < height m \<and> unat (height m) * unat (stride m) < 2 ^ 64 \<longrightarrow>
        st' (element_at m (unat (height m) - 1) (unat (width m) - 1)) = st (element_at m (unat (height m) - 1) (unat (width m) - 1)) \<and>
        st' (element_at m 0 (unat (width m))) = st (element_at m 0 (unat (width m))) *
          (1 / (1 + learning_rate * decay_rate * st (data lr + width m)))))"
proof -
  obtain st' where run: "mat_apply_l2_lr lr learning_rate decay_rate st m = return st'" by (simp add: mat_apply_l2_lr_def)
  have steps: "proximal (l1_penalty k) a (unary_ApplyL1 k a)" "proximal (l1_penalty (k * b)) a (fst (binary_ApplyL1 k a b))"
    "proximal (l2_penalty k) a (unary_MulScalar (1 / (1 + k)) a)" "proximal (l2_penalty (k * b)) a (fst (binary_ApplyL2 k a b))"
    unfolding ApplyL1_binary unary_MulScalar_def binary_ApplyL2_def fst_conv
    by (rule soft_threshold_proximal shrinking_proximal assms(1,2))+
  show ?thesis
  proof (intro conjI steps exI [of _ st'] run impI allI; (elim conjE)?)
  qed (blast intro: apply_l2_packed [OF run assms(3-6)] apply_l2_strided [OF run assms(3-5)])+
qed

text \<open>One row of two elements at 50, the second of which has the rate 3; and two rows of one element with a
  stride of two, where the padding at 51 is scaled in place of the last element at 52.\<close>

theorem regularization_is_proximal_witness:
  "proximal (l1_penalty 2) (- 5) (- 3) \<and>
   (\<exists>st'. mat_apply_l2_lr \<lparr>height = 1, width = 2, stride = 2, data = 10, trans = False, sparse = False\<rparr> 1 1
      (\<lambda>p. if p = 11 then 3 else if p = 51 then 8 else 0)
      \<lparr>height = 1, width = 2, stride = 2, data = 50, trans = False, sparse = False\<rparr> = return st' \<and>
    proximal (l2_penalty 3) 8 (st' 51)) \<and>
   (\<exists>st'. mat_apply_l2_lr \<lparr>height = 2, width = 1, stride = 1, data = 10, trans = False, sparse = False\<rparr> 1 1
      (\<lambda>p. if p = 11 then 3 else if p = 51 then 8 else if p = 52 then 5 else 0)
      \<lparr>height = 2, width = 1, stride = 2, data = 50, trans = False, sparse = False\<rparr> = return st' \<and> st' 51 = 2 \<and> st' 52 = 5)"
proof -
  let ?m = "\<lparr>height = 1, width = 2, stride = 2, data = 50, trans = False, sparse = False\<rparr>"
  let ?lr = "\<lparr>height = 1, width = 2, stride = 2, data = 10, trans = False, sparse = False\<rparr>"
  let ?m2 = "\<lparr>height = 2, width = 1, stride = 2, data = 50, trans = False, sparse = False\<rparr>"
  let ?lr2 = "\<lparr>height = 2, width = 1, stride = 1, data = 10, trans = False, sparse = False\<rparr>"
  let ?st = "\<lambda>p :: u64. if p = 11 then 3 else if p = 51 then 8 else 0 :: real"
  let ?st2 = "\<lambda>p :: u64. if p = 11 then 3 else if p = 51 then 8 else if p = 52 then 5 else 0 :: real"
  have apart: "not_overtaken 2 (data ?lr) (data ?m)" "not_overtaken 2 (data ?lr2) (data ?m2)"
    by (rule not_overtaken_apart; simp)+
  have hyps: "(0 :: real) \<le> 2" "0 \<le> 2 * (0 :: real)" "2 = unat (height ?m) * unat (width ?m)" "(2 :: nat) < 2 ^ 64"
    "2 = unat (height ?m2) * unat (width ?m2)" "\<And>i. 0 \<le> 1 * 1 * ?st (data ?lr + of_nat i)"
    "\<And>i. 0 \<le> 1 * 1 * ?st2 (data ?lr2 + of_nat i)" by simp_all
  note row = regularization_is_proximal [where k = 2 and b = 0 and n = 2 and m = ?m and lr = ?lr and a = "- 5"
      and st = ?st and learning_rate = 1 and decay_rate = 1, OF hyps(1-4) apart(1) hyps(6)]
    and column = regularization_is_proximal [where k = 2 and b = 0 and n = 2 and m = ?m2 and lr = ?lr2 and a = "- 5"
      and st = ?st2 and learning_rate = 1 and decay_rate = 1, OF hyps(1,2,5,4) apart(2) hyps(7)]
  from row [THEN conjunct2, THEN conjunct2, THEN conjunct2, THEN conjunct2] obtain st' where
    st': "mat_apply_l2_lr ?lr 1 1 ?st ?m = return st'"
    "\<forall>i < 1. \<forall>j < 2. proximal (l2_penalty (1 * 1 * ?st (element_at ?lr i j))) (?st (element_at ?m i j)) (st' (element_at ?m i j))"
    by (elim exE conjE) simp
  from st'(2) [rule_format, of 0 1] have two: "proximal (l2_penalty 3) 8 (st' 51)" by (simp add: element_at_def)
  from column [THEN conjunct2, THEN conjunct2, THEN conjunct2, THEN conjunct2] obtain st'' where
    st'': "mat_apply_l2_lr ?lr2 1 1 ?st2 ?m2 = return st''" "st'' (element_at ?m2 1 0) = ?st2 (element_at ?m2 1 0)"
    "st'' (element_at ?m2 0 1) = ?st2 (element_at ?m2 0 1) * (1 / (1 + 1 * 1 * ?st2 (data ?lr2 + width ?m2)))"
    by (elim exE conjE) simp
  then have "st'' 51 = 2" "st'' 52 = 5" by (simp_all add: element_at_def)
  with st''(1) st'(1) two row [THEN conjunct1] show ?thesis by (auto simp: unary_ApplyL1_def)
qed

end
