(* ===== verification/Vector.thy ===== *)
theory Vector
  imports MemoryHandle MatrixShape
begin

text \<open>
  math/Vector.h: vectors over shared memory handles. \<open>VectorT\<close> derives from \<open>BaseMatrixT\<close> through
  \<open>BaseVector\<close>, so the record of a vector extends that of a matrix; \<open>_size\<close> is a reference to
  \<open>_width\<close>, and both are the field \<open>width\<close>. Here \<open>data\<close> counts bytes, and \<open>elem\<close> is \<open>sizeof(T)\<close>.
  The member \<open>_memory_handle\<close> is used by the class but not declared in it; it is a field here.
  A \<open>shared_ptr\<close> is the number of a control block, which holds a handle and its reference count.
  The pure virtual \<open>new_memory\<close> and the destructor of the handle it makes are parameters;
  \<open>create\<close> is declared but not defined and is a parameter of the methods that call it. The macro
  \<open>CHECK_LE\<close> of \<open>sub_vec\<close> is not declared in the repository and is a parameter too.
\<close>

section \<open>Shared pointers to memory handles\<close>

record 's handle_store =
  control :: "(memory_handle \<times> nat) list"   \<comment> \<open>control blocks: handle and reference count\<close>
  provider :: 's                            \<comment> \<open>what the handles take their memory from\<close>

definition alive :: "nat \<Rightarrow> 's handle_store \<Rightarrow> bool" where
  "alive i st \<longleftrightarrow> i < length (control st) \<and> 0 < snd (control st ! i)"

definition handle_at :: "'s handle_store \<Rightarrow> nat \<Rightarrow> memory_handle" where
  "handle_at st i = fst (control st ! i)"

definition make_shared :: "memory_handle \<Rightarrow> 's handle_store \<Rightarrow> nat \<times> 's handle_store" where
  "make_shared h st = (length (control st), st\<lparr>control := control st @ [(h, 1)]\<rparr>)"

definition share :: "nat \<Rightarrow> 's handle_store \<Rightarrow> 's handle_store run" where
  "share i st =
     (if alive i st
      then return (st\<lparr>control := (control st)[i := (handle_at st i, snd (control st ! i) + 1)]\<rparr>)
      else fail UseAfterFree)"

definition release :: "(memory_handle \<Rightarrow> 's \<Rightarrow> 's run) \<Rightarrow> nat \<Rightarrow> 's handle_store \<Rightarrow> 's handle_store run" where
  "release destroy i st =
     (if \<not> alive i st then fail UseAfterFree
      else (let c = snd (control st ! i) - 1;
                st' = st\<lparr>control := (control st)[i := (handle_at st i, c)]\<rparr>
            in if c = 0 then bind (destroy (handle_at st i) (provider st)) (\<lambda>s. return (st'\<lparr>provider := s\<rparr>))
               else return st'))"

fun release_opt :: "(memory_handle \<Rightarrow> 's \<Rightarrow> 's run) \<Rightarrow> nat option \<Rightarrow> 's handle_store \<Rightarrow> 's handle_store run" where
  "release_opt destroy None st = return st"
| "release_opt destroy (Some i) st = release destroy i st"

section \<open>Vectors\<close>

record vector = matrix +
  memory_handle_of :: "nat option"

definition BaseVector :: "u64 \<Rightarrow> ptr \<Rightarrow> vector" where
  "BaseVector n d = matrix.extend (new_BaseMatrix 1 n d False) \<lparr>memory_handle_of = None\<rparr>"

definition VectorT_data :: "u64 \<Rightarrow> ptr \<Rightarrow> vector" where
  "VectorT_data n d = BaseVector n d"

definition VectorT_handle :: "u64 \<Rightarrow> u64 \<Rightarrow> nat \<Rightarrow> u64 \<Rightarrow> 's handle_store \<Rightarrow> (vector \<times> 's handle_store) run" where
  "VectorT_handle elem n i offset st =
     bind (share i st) (\<lambda>st'.
       return (BaseVector n (get_buf (handle_at st i) + offset * elem) \<lparr>memory_handle_of := Some i\<rparr>, st'))"

definition destroy_VectorT :: "(memory_handle \<Rightarrow> 's \<Rightarrow> 's run) \<Rightarrow> vector \<Rightarrow> 's handle_store \<Rightarrow> 's handle_store run" where
  "destroy_VectorT destroy v st = release_opt destroy (memory_handle_of v) st"

definition vector_get_size :: "vector \<Rightarrow> u64" where "vector_get_size v = width v"
definition vector_get_data :: "vector \<Rightarrow> ptr" where "vector_get_data v = data v"
definition get_memory_handle :: "vector \<Rightarrow> nat option" where "get_memory_handle v = memory_handle_of v"

text \<open>\<open>_memory_handle = new_memory(..)\<close> makes the new handle first and then releases the old one.\<close>

definition resize :: "(u64 \<Rightarrow> 's \<Rightarrow> (memory_handle \<times> 's) run) \<Rightarrow> (memory_handle \<Rightarrow> 's \<Rightarrow> 's run) \<Rightarrow> u64
    \<Rightarrow> u64 \<Rightarrow> vector \<Rightarrow> 's handle_store \<Rightarrow> (vector \<times> 's handle_store) run" where
  "resize new_memory destroy elem new_size v st =
     bind (case memory_handle_of v of
             None \<Rightarrow> return True
           | Some i \<Rightarrow> if alive i st then return (new_size * elem > get_alloc_size (handle_at st i))
                       else fail UseAfterFree) (\<lambda>realloc.
     if realloc
     then bind (new_memory (new_size * elem) (provider st)) (\<lambda>(h, s).
          let (k, st1) = make_shared h (st\<lparr>provider := s\<rparr>)
          in bind (release_opt destroy (memory_handle_of v) st1) (\<lambda>st2.
             return (v\<lparr>memory_handle_of := Some k, data := get_buf h, width := new_size\<rparr>, st2)))
     else return (v\<lparr>width := new_size\<rparr>, st))"

definition resize_or_create :: "(u64 \<Rightarrow> 's \<Rightarrow> (memory_handle \<times> 's) run) \<Rightarrow> (memory_handle \<Rightarrow> 's \<Rightarrow> 's run) \<Rightarrow> u64
    \<Rightarrow> (u64 \<Rightarrow> 's handle_store \<Rightarrow> (vector \<times> 's handle_store) run)
    \<Rightarrow> vector option \<Rightarrow> u64 \<Rightarrow> 's handle_store \<Rightarrow> (vector \<times> 's handle_store) run" where
  "resize_or_create new_memory destroy elem create vec n st =
     (case vec of
        Some v \<Rightarrow> resize new_memory destroy elem n v st
      | None \<Rightarrow> create n st)"

text \<open>The three overloads of \<open>sub_vec_from\<close>, and \<open>sub_vec\<close>.\<close>

definition sub_vec_from :: "u64 \<Rightarrow> vector \<Rightarrow> u64 \<Rightarrow> u64 \<Rightarrow> vector \<Rightarrow> vector run" where
  "sub_vec_from elem src start n v =
     bind (cc_check ''Check failed:(start) < (src._size) '' (start < width src)) (\<lambda>_.
     bind (cc_check ''Check failed:(start + size) <= (src._size) '' (start + n \<le> width src)) (\<lambda>_.
       return (v\<lparr>width := n, data := data src + start * elem\<rparr>)))"

definition sub_vec_from_pointer :: "u64 \<Rightarrow> ptr \<Rightarrow> u64 \<Rightarrow> u64 \<Rightarrow> vector \<Rightarrow> vector" where
  "sub_vec_from_pointer elem src start n v = v\<lparr>width := n, data := src + start * elem\<rparr>"

definition sub_vec_from_interval :: "u64 \<Rightarrow> vector \<Rightarrow> u64 \<times> u64 \<Rightarrow> vector \<Rightarrow> vector run" where
  "sub_vec_from_interval elem src interval v =
     sub_vec_from elem src (fst interval) (snd interval - fst interval) v"

definition sub_vec :: "(string \<Rightarrow> bool \<Rightarrow> unit run) \<Rightarrow> (ptr \<Rightarrow> u64 \<Rightarrow> vector) \<Rightarrow> u64 \<Rightarrow> u64 \<Rightarrow> u64 \<Rightarrow> vector \<Rightarrow> vector run" where
  "sub_vec macro create elem start n v =
     bind (macro ''start + size <= static_cast<size_t>(get_size())'' (start + n \<le> vector_get_size v)) (\<lambda>_.
       return (create (vector_get_data v + start * elem) n))"

section \<open>Resizing\<close>

text \<open>The vector's elements fit in the memory of its own handle.\<close>

definition has_room :: "u64 \<Rightarrow> vector \<Rightarrow> 's handle_store \<Rightarrow> bool" where
  "has_room elem v st \<longleftrightarrow> (\<exists>i. memory_handle_of v = Some i \<and> alive i st \<and> data v = get_buf (handle_at st i) \<and>
     unat (width v) * unat elem \<le> unat (get_alloc_size (handle_at st i)))"

lemma make_shared_simps:
  assumes "make_shared h st = (k, st')"
  shows "alive k st'" "handle_at st' k = h" "provider st' = provider st" "k = length (control st)"
    "control st' = control st @ [(h, 1)]"
  using assms by (auto simp: make_shared_def alive_def handle_at_def nth_append)

lemma release_control:
  assumes "snd (release destroy i st) = Inr st'"
  shows "control st' = (control st)[i := (handle_at st i, snd (control st ! i) - 1)]" "alive i st"
proof -
  show "alive i st" using assms by (cases "alive i st") (simp_all add: release_def)
  then have r: "release destroy i st = (let c = snd (control st ! i) - 1;
      st' = st\<lparr>control := (control st)[i := (handle_at st i, c)]\<rparr>
    in if c = 0 then bind (destroy (handle_at st i) (provider st)) (\<lambda>s. return (st'\<lparr>provider := s\<rparr>))
       else return st')" by (simp add: release_def)
  show "control st' = (control st)[i := (handle_at st i, snd (control st ! i) - 1)]"
  proof (cases "snd (control st ! i) - 1 = 0")
    case True
    with assms have "snd (bind (destroy (handle_at st i) (provider st))
        (\<lambda>s. return (st\<lparr>control := (control st)[i := (handle_at st i, 0)], provider := s\<rparr>))) = Inr st'"
      unfolding r Let_def by simp
    then obtain s where "st\<lparr>control := (control st)[i := (handle_at st i, 0)], provider := s\<rparr> = st'"
      by (rule snd_bind_InrE) simp
    with True show ?thesis by auto
  next
    case False
    with assms show ?thesis unfolding r Let_def by auto
  qed
qed

lemma release_other:
  assumes "snd (release destroy i st) = Inr st'" "k \<noteq> i"
  shows "alive k st' = alive k st" "handle_at st' k = handle_at st k"
  using assms(2) unfolding alive_def handle_at_def release_control(1) [OF assms(1)] by simp_all

lemma release_opt_other:
  assumes "snd (release_opt destroy j st) = Inr st'" "j \<noteq> Some k"
  shows "alive k st' = alive k st" "handle_at st' k = handle_at st k"
  using assms by (cases j; simp add: release_other [of destroy _ st st' k])+

text \<open>The two ways \<open>resize\<close> can go.\<close>

lemma resizeE:
  assumes "snd (resize new_memory destroy elem n v st) = Inr (v', st')"
  obtains (keep) i where "memory_handle_of v = Some i" "alive i st" "n * elem \<le> get_alloc_size (handle_at st i)"
      "v' = v\<lparr>width := n\<rparr>" "st' = st"
  | (realloc) h s where "snd (new_memory (n * elem) (provider st)) = Inr (h, s)"
      "\<And>i. memory_handle_of v = Some i \<Longrightarrow> alive i st \<and> get_alloc_size (handle_at st i) < n * elem"
      "v' = v\<lparr>memory_handle_of := Some (length (control st)), data := get_buf h, width := n\<rparr>"
      "snd (release_opt destroy (memory_handle_of v)
        (snd (make_shared h (st\<lparr>provider := s\<rparr>)))) = Inr st'"
proof (cases "memory_handle_of v")
  case None
  from assms obtain h s where n: "snd (new_memory (n * elem) (provider st)) = Inr (h, s)"
    and st': "v' = v\<lparr>memory_handle_of := Some (length (control st)), data := get_buf h, width := n\<rparr>"
      "st' = snd (make_shared h (st\<lparr>provider := s\<rparr>))"
    unfolding resize_def None by (auto simp: None make_shared_def elim!: snd_bind_InrE)
  show ?thesis by (rule realloc [OF n]) (use None st' in simp_all)
next
  case (Some i)
  then have al: "alive i st" using assms by (cases "alive i st") (simp_all add: resize_def)
  show ?thesis
  proof (cases "n * elem > get_alloc_size (handle_at st i)")
    case True
    with assms Some al obtain h s where n: "snd (new_memory (n * elem) (provider st)) = Inr (h, s)"
      and st': "v' = v\<lparr>memory_handle_of := Some (length (control st)), data := get_buf h, width := n\<rparr>"
      and rel: "snd (release_opt destroy (Some i) (snd (make_shared h (st\<lparr>provider := s\<rparr>)))) = Inr st'"
      unfolding resize_def by (auto simp: make_shared_def elim!: snd_bind_InrE)
    show ?thesis by (rule realloc [OF n]) (use Some al True st' rel in simp_all)
  next
    case False
    with assms Some al have "v' = v\<lparr>width := n\<rparr>" "st' = st" by (simp_all add: resize_def)
    with False Some al show ?thesis by (intro keep) (simp_all add: not_less)
  qed
qed

locale vector_memory =
  fixes new_memory :: "u64 \<Rightarrow> 's \<Rightarrow> (memory_handle \<times> 's) run"
  assumes new_memory_size: "snd (new_memory n s) = Inr (h, s') \<Longrightarrow> n \<le> get_alloc_size h"
begin

lemma resize_has_room:
  assumes "snd (resize new_memory destroy elem n v st) = Inr (v', st')"
    "unat n * unat elem < 2 ^ 64" "\<And>i. memory_handle_of v = Some i \<Longrightarrow> data v = get_buf (handle_at st i)"
  shows "has_room elem v' st' \<and> width v' = n"
  using assms(1)
proof (cases rule: resizeE)
  case (keep i)
  then show ?thesis using assms(2,3) by (simp add: has_room_def word_le_nat_alt unat_mult_u64)
next
  case (realloc h s)
  obtain k st1 where k: "make_shared h (st\<lparr>provider := s\<rparr>) = (k, st1)" by (cases "make_shared h (st\<lparr>provider := s\<rparr>)")
  note shared = make_shared_simps [OF k]
  have "memory_handle_of v \<noteq> Some k" using realloc(2) shared(4) by (auto simp: alive_def)
  with realloc(4) k have "alive k st'" "handle_at st' k = h"
    using shared(1,2) release_opt_other [of destroy "memory_handle_of v" st1 st' k] by simp_all
  moreover have "unat n * unat elem \<le> unat (get_alloc_size h)"
    using new_memory_size [OF realloc(1)] assms(2) by (simp add: word_le_nat_alt unat_mult_u64)
  ultimately show ?thesis using realloc(3) shared(4) by (simp add: has_room_def)
qed

end

lemma new_CpuMemoryHandle_size:
  "snd (new_CpuMemoryHandle flag palloc n s) = Inr (h, s') \<Longrightarrow> n \<le> get_alloc_size h \<and> get_size h = n"
  by (auto simp: new_CpuMemoryHandle_def new_MemoryHandle_def get_alloc_size_def get_size_def Let_def alloc_size_ge
      split: prod.splits elim!: snd_bind_InrE)

interpretation cpu_vector: vector_memory "new_CpuMemoryHandle flag palloc" for flag palloc
  by unfold_locales (use new_CpuMemoryHandle_size in blast)

section \<open>The store of handles stays consistent\<close>

definition live_handles :: "'s handle_store \<Rightarrow> memory_handle list" where
  "live_handles st = map fst (filter (\<lambda>c. 0 < snd c) (control st))"

lemma live_handles_make_shared:
  "make_shared h st = (k, st') \<Longrightarrow> live_handles st' = live_handles st @ [h]"
  by (auto simp: make_shared_def live_handles_def)

lemma control_split:
  assumes "alive i st"
  shows "control st = take i (control st) @ control st ! i # drop (Suc i) (control st)" "0 < snd (control st ! i)"
  using assms by (simp_all add: alive_def id_take_nth_drop)

lemma control_update:
  assumes "alive i st"
  shows "(control st)[i := c] = take i (control st) @ c # drop (Suc i) (control st)"
  using assms by (simp add: alive_def upd_conv_take_nth_drop)

text \<open>Dropping the last reference removes one entry of the list of live handles.\<close>

lemma live_handles_last:
  assumes "alive i st" "snd (control st ! i) = 1"
  obtains k where "k < length (live_handles st)" "live_handles st ! k = handle_at st i"
    "map fst (filter (\<lambda>c. 0 < snd c) ((control st)[i := (handle_at st i, 0)])) =
      take k (live_handles st) @ drop (Suc k) (live_handles st)"
proof -
  let ?f = "\<lambda>cs :: (memory_handle \<times> nat) list. map fst (filter (\<lambda>c. 0 < snd c) cs)"
  let ?a = "?f (take i (control st))" let ?b = "?f (drop (Suc i) (control st))"
  have "?f (control st) = ?f (take i (control st) @ control st ! i # drop (Suc i) (control st))"
    using control_split(1) [OF assms(1)] by (rule arg_cong)
  then have live: "live_handles st = ?a @ handle_at st i # ?b"
    using assms(2) by (simp add: live_handles_def handle_at_def)
  have "?f ((control st)[i := (handle_at st i, 0)]) = ?a @ ?b"
    unfolding control_update [OF assms(1)] by simp
  moreover have "length ?a < length (live_handles st)" "live_handles st ! length ?a = handle_at st i"
    "take (length ?a) (live_handles st) @ drop (Suc (length ?a)) (live_handles st) = ?a @ ?b"
    unfolding live by (simp, rule nth_append_length, simp)
  ultimately show ?thesis by (intro that [of "length ?a"]) simp_all
qed

lemma live_handles_not_last:
  assumes "alive i st" "0 < c"
  shows "map fst (filter (\<lambda>c. 0 < snd c) ((control st)[i := (handle_at st i, c)])) = live_handles st"
proof -
  let ?f = "\<lambda>cs :: (memory_handle \<times> nat) list. map fst (filter (\<lambda>c. 0 < snd c) cs)"
  have "?f (control st) = ?f (take i (control st) @ control st ! i # drop (Suc i) (control st))"
    using control_split(1) [OF assms(1)] by (rule arg_cong)
  then show ?thesis unfolding control_update [OF assms(1)] live_handles_def
    using assms(2) control_split(2) [OF assms(1)] by (simp add: handle_at_def)
qed

context handle_pool
begin

definition store_ok :: "(pool option \<times> 'm) handle_store \<Rightarrow> bool" where
  "store_ok st \<longleftrightarrow> st_ok (live_handles st, provider st)"

lemma make_shared_ok:
  assumes "store_ok st" "snd (new_CpuMemoryHandle flag palloc n (provider st)) = Inr (h, s)"
    "make_shared h (st\<lparr>provider := s\<rparr>) = (k, st')"
  shows "store_ok st'"
proof -
  have "live_handles (st\<lparr>provider := s\<rparr>) = live_handles st" by (simp add: live_handles_def)
  with make_ok [of "live_handles st" "provider st" n h s] assms live_handles_make_shared [OF assms(3)]
  show ?thesis by (simp add: store_ok_def make_shared_simps(3) [OF assms(3)])
qed

text \<open>Releasing a reference never fails, and after the last one the buffer is nobody's.\<close>

lemma release_ok:
  assumes "store_ok st" "alive i st"
  shows "\<exists>st'. release (destroy_CpuMemoryHandle pfree) i st = return st' \<and> store_ok st' \<and>
    (snd (control st ! i) = 1 \<longrightarrow> held (live_handles st') (get_buf (handle_at st i)) = None)"
proof (cases "snd (control st ! i) = 1")
  case True
  from live_handles_last [OF assms(2) True] obtain k where k: "k < length (live_handles st)"
    "live_handles st ! k = handle_at st i"
    "map fst (filter (\<lambda>c. 0 < snd c) ((control st)[i := (handle_at st i, 0)])) =
      take k (live_handles st) @ drop (Suc k) (live_handles st)" .
  from drop_ok [OF assms(1) [unfolded store_ok_def] k(1)] k(2) obtain s where
    d: "destroy_CpuMemoryHandle pfree (handle_at st i) (provider st) = return s"
    "st_ok (take k (live_handles st) @ drop (Suc k) (live_handles st), s)" by auto
  have "handles_ok (live_handles st)"
    using assms(1) by (auto simp: store_ok_def st_ok_def split: prod.splits)
  from held_remove(1) [OF this k(1)] k(2)
  have "held (take k (live_handles st) @ drop (Suc k) (live_handles st)) (get_buf (handle_at st i)) = None"
    by (simp add: get_buf_def)
  with d k(3) True assms(2) show ?thesis
    by (auto simp: release_def Let_def store_ok_def live_handles_def)
next
  case False
  with control_split(2) [OF assms(2)] have "0 < snd (control st ! i) - 1" by simp
  with live_handles_not_last [OF assms(2) this] assms False show ?thesis
    by (auto simp: release_def Let_def store_ok_def live_handles_def)
qed

lemma resize_store_ok:
  assumes "store_ok st"
    "snd (resize (new_CpuMemoryHandle flag palloc) (destroy_CpuMemoryHandle pfree) elem n v st) = Inr (v', st')"
  shows "store_ok st' \<and> (\<forall>i. memory_handle_of v = Some i \<longrightarrow> snd (control st ! i) = 1 \<longrightarrow>
      get_alloc_size (handle_at st i) < n * elem \<longrightarrow>
      held (live_handles st') (get_buf (handle_at st i)) = None \<and> data v' \<noteq> get_buf (handle_at st i))"
  using assms(2)
proof (cases rule: resizeE)
  case (keep j)
  then show ?thesis using assms(1) by auto
next
  case (realloc h s)
  obtain k st1 where k: "make_shared h (st\<lparr>provider := s\<rparr>) = (k, st1)" by (cases "make_shared h (st\<lparr>provider := s\<rparr>)")
  note shared = make_shared_simps [OF k]
  have ok1: "store_ok st1" by (rule make_shared_ok [OF assms(1) realloc(1) k])
  have rel: "snd (release_opt (destroy_CpuMemoryHandle pfree) (memory_handle_of v) st1) = Inr st'"
    using realloc(4) k by simp
  show ?thesis
  proof (cases "memory_handle_of v")
    case None
    with rel ok1 show ?thesis by simp
  next
    case (Some i)
    have old: "alive i st1" "handle_at st1 i = handle_at st i" "control st1 ! i = control st ! i" "k \<noteq> i"
      using realloc(2) [OF Some] shared(4,5) by (auto simp: alive_def handle_at_def nth_append)
    from release_ok [OF ok1 old(1)] rel Some old(2,3) have st': "store_ok st'"
      "snd (control st ! i) = 1 \<longrightarrow> held (live_handles st') (get_buf (handle_at st i)) = None" by auto
    have "alive k st'" "handle_at st' k = h"
      using shared(1,2) release_opt_other [OF rel, of k] Some old(4) by simp_all
    then have "h \<in> set (live_handles st')"
      unfolding live_handles_def alive_def handle_at_def by (force intro: nth_mem)
    then have "held (live_handles st') (get_buf h) \<noteq> None" by (auto simp: held_none get_buf_def)
    with st' realloc(3) Some show ?thesis by auto
  qed
qed

end

lemma vector_resize_width: "snd (resize new_memory destroy elem n v st) = Inr (v', st') \<Longrightarrow> width v' = n"
  by (erule resizeE) simp_all

section \<open>Properties\<close>

text \<open>The pointer of the vector is the buffer of its handle, when it has one.\<close>

definition points_to_own :: "vector \<Rightarrow> 's handle_store \<Rightarrow> bool" where
  "points_to_own v st \<longleftrightarrow> (\<forall>i. memory_handle_of v = Some i \<longrightarrow> data v = get_buf (handle_at st i))"

abbreviation cpu_resize :: "heap_choice \<Rightarrow> 32 word \<Rightarrow> u64 \<Rightarrow> u64 \<Rightarrow> vector \<Rightarrow> (pool option \<times> memory) handle_store
    \<Rightarrow> (vector \<times> (pool option \<times> memory) handle_store) run" where
  "cpu_resize pick flag elem n v st \<equiv>
     resize (new_CpuMemoryHandle flag (pool_alloc (cpu_alloc pick) cpu_free)) (destroy_CpuMemoryHandle (pool_free cpu_free))
       elem n v st"

text \<open>The store before any handle is made.\<close>

definition no_store :: "(pool option \<times> memory) handle_store" where
  "no_store = \<lparr>control = [], provider = (None, no_memory)\<rparr>"

lemma no_store_ok: "cpu_handles.store_ok flag no_store"
  using no_handles_ok [of flag] by (simp add: cpu_handles.store_ok_def no_store_def live_handles_def)

lemma cpu_resize_ok:
  "cpu_handles.store_ok flag st \<Longrightarrow> snd (cpu_resize pick flag elem n v st) = Inr (v', st') \<Longrightarrow>
   cpu_handles.store_ok flag st'"
  by (drule (1) cpu_handles.resize_store_ok) simp

text \<open>C16. Resizing gives a vector room: when the number of bytes does not wrap and the vector does not
  point into another one's memory, then after \<open>resize\<close> it has the size asked for and all its
  elements lie in the buffer of its own handle, which is alive, whether the old buffer was kept or
  exchanged and whatever memory the allocator below hands out.\<close>

theorem vector_resize_has_room:
  assumes "snd (resize (new_CpuMemoryHandle flag palloc) destroy elem n v st) = Inr (v', st')"
    "unat n * unat elem < 2 ^ 64" "points_to_own v st"
  shows "has_room elem v' st' \<and> vector_get_size v' = n"
  using cpu_vector.resize_has_room [OF assms(1,2)] assms(3)
  by (auto simp: points_to_own_def vector_get_size_def)

text \<open>An empty vector resized to 600 floats.\<close>

definition sample_vector :: vector where
  "sample_vector = BaseVector 0 0 \<lparr>width := 600, data := 65536, memory_handle_of := Some 0\<rparr>"

definition sample_store :: "(pool option \<times> memory) handle_store" where
  "sample_store = \<lparr>control = [(\<lparr>handle_size = 2400, handle_alloc_size = 3072, handle_buf = 65536\<rparr>, 1)],
     provider = (Some \<lparr>free_lists = [], size_limit = 1024, pool_memory_size = 0, pool_name = ''cpu_pool''\<rparr>,
       \<lparr>blocks = [(65536, 3072)]\<rparr>)\<rparr>"

lemmas sample_defs = sample_vector_def sample_store_def

lemma resize_run: "cpu_resize bump_choice 1024 4 600 (BaseVector 0 0) no_store = return (sample_vector, sample_store)"
  by (simp add: resize_def make_shared_def BaseVector_def new_BaseMatrix_def matrix.defs no_store_def sample_defs
      get_buf_def get_alloc_size_def handle_run_defs)

lemma resize_value:
  "snd (cpu_resize bump_choice 1024 4 600 (BaseVector 0 0) no_store) = Inr (sample_vector, sample_store)"
  by (simp only: resize_run snd_return)

lemma no_handle: "memory_handle_of (BaseVector n d) = None"
  by (simp add: BaseVector_def matrix.defs)

theorem vector_resize_has_room_witness: "has_room 4 sample_vector sample_store \<and> vector_get_size sample_vector = 600"
  by (rule vector_resize_has_room [OF resize_value]) (simp_all add: points_to_own_def no_handle)

text \<open>The byte count of \<open>resize\<close> is not checked: when \<open>new_size * sizeof(T)\<close> wraps around to at most
  the allocated size, the call succeeds, allocates nothing and logs nothing, and the vector claims
  elements whose bytes exceed its buffer.\<close>

theorem resize_ignores_overflow:
  assumes "memory_handle_of v = Some i" "alive i st" "2 ^ 64 \<le> unat n * unat elem"
    "n * elem \<le> get_alloc_size (handle_at st i)"
  shows "resize new_memory destroy elem n v st = return (v\<lparr>width := n\<rparr>, st) \<and>
    unat (get_alloc_size (handle_at st i)) < unat (vector_get_size (v\<lparr>width := n\<rparr>)) * unat elem"
proof -
  have "unat (get_alloc_size (handle_at st i)) < 2 ^ 64" by (rule unat_u64_less)
  moreover have "\<not> get_alloc_size (handle_at st i) < n * elem" using assms(4) by simp
  ultimately show ?thesis using assms(1-3) by (simp add: resize_def vector_get_size_def)
qed

lemma sample_handle: "memory_handle_of sample_vector = Some 0" "alive 0 sample_store"
  "handle_at sample_store 0 = \<lparr>handle_size = 2400, handle_alloc_size = 3072, handle_buf = 65536\<rparr>"
  "snd (control sample_store ! 0) = 1" "data sample_vector = 65536" "width sample_vector = 600"
  by (simp_all add: sample_defs alive_def handle_at_def BaseVector_def matrix.defs)

theorem resize_ignores_overflow_witness:
  "cpu_resize bump_choice 1024 4 (2 ^ 62 + 1) sample_vector sample_store =
     return (sample_vector\<lparr>width := 2 ^ 62 + 1\<rparr>, sample_store)"
  using resize_ignores_overflow [of sample_vector 0 sample_store "2 ^ 62 + 1" 4
      "new_CpuMemoryHandle 1024 (pool_alloc (cpu_alloc bump_choice) cpu_free)" "destroy_CpuMemoryHandle (pool_free cpu_free)"]
  by (simp add: sample_handle get_alloc_size_def)

text \<open>The interval form of \<open>sub_vec_from\<close> accepts a reversed interval: it logs nothing exactly when
  the interval begins inside the source and does not end past it, and the vector it makes has the
  length of the interval when that is not reversed, but \<open>2^64\<close> less the difference when it is.\<close>

theorem sub_vec_interval_check:
  "(run_log (sub_vec_from_interval elem src (a, b) v) = [] \<longleftrightarrow> a < width src \<and> b \<le> width src) \<and>
   (\<exists>v'. run_value (sub_vec_from_interval elem src (a, b) v) = Inr v' \<and> data v' = data src + a * elem \<and>
     unat (vector_get_size v') = (if a \<le> b then unat b - unat a else 2 ^ 64 - (unat a - unat b)))"
proof (intro conjI)
  have "a + (b - a) = b" by simp
  then show "run_log (sub_vec_from_interval elem src (a, b) v) = [] \<longleftrightarrow> a < width src \<and> b \<le> width src"
    by (simp add: sub_vec_from_interval_def sub_vec_from_def run_log_def fst_bind cc_check_def)
  have "unat (b - a) = (if a \<le> b then unat b - unat a else 2 ^ 64 - (unat a - unat b))"
    using unat_u64_less [of a] unat_u64_less [of b] by (auto simp: unat_sub_if' word_le_nat_alt)
  then show "\<exists>v'. run_value (sub_vec_from_interval elem src (a, b) v) = Inr v' \<and> data v' = data src + a * elem \<and>
     unat (vector_get_size v') = (if a \<le> b then unat b - unat a else 2 ^ 64 - (unat a - unat b))"
    by (simp add: sub_vec_from_interval_def sub_vec_from_def run_value_def vector_get_size_def)
qed

text \<open>Where the buffer of a handle goes when its last reference is given up: back into the pool, from where the
  next request for a buffer of its size gets it, or, with a pool limit of zero, to the heap.\<close>

lemma freed_buffer_is_next:
  assumes "pool_free cpu_free q n (p, m) = return (p', m')" "0 < size_limit p"
  shows "size_limit p' = size_limit p" "pool_alloc alloc free n (p', m') = return (q, p'\<lparr>free_lists := AList.update n
      (butlast (the (map_of (free_lists p') n))) (free_lists p'), pool_memory_size := n\<rparr>, m')"
  using assms by (auto simp: pool_free_def pool_alloc_def return_def Let_def update_conv split: option.splits)

lemma pool_free_limit: "snd (pool_free cpu_free q n (p, m)) = Inr (p', m') \<Longrightarrow> size_limit p' = size_limit p"
  by (auto simp: pool_free_def Let_def split: if_splits elim!: snd_bind_InrE)

lemma new_handle_gets:
  assumes "snd (palloc (alloc_size_for n) (p, m)) = Inr (q, p', m')"
  shows "\<exists>h s. snd (new_CpuMemoryHandle flag palloc n (Some p, m)) = Inr (h, s) \<and> get_buf h = q"
  using assms by (simp add: new_CpuMemoryHandle_def new_MemoryHandle_def Let_def get_cpu_allocator_def get_buf_def
      snd_bind_Inr)

lemma resize_new_vector:
  assumes "memory_handle_of v = None" "snd (new_memory (n * elem) (provider st)) = Inr (h, s)"
  shows "\<exists>w st'. snd (resize new_memory destroy elem n v st) = Inr (w, st') \<and> data w = get_buf h"
  using assms by (simp add: resize_def make_shared_def snd_bind_Inr)

text \<open>The provider after \<open>resize\<close> has given up the last reference to the old handle.\<close>

lemma resize_frees_old:
  assumes "snd (resize new_memory (destroy_CpuMemoryHandle pfree) elem n v st) = Inr (v', st')" "memory_handle_of v = Some i"
    "snd (control st ! i) = 1" "get_alloc_size (handle_at st i) < n * elem"
  obtains p m p' m' where "snd (pfree (get_buf (handle_at st i)) (get_alloc_size (handle_at st i)) (p, m)) = Inr (p', m')"
    "provider st' = (Some p', m')"
  using assms(1)
proof (cases rule: resizeE)
  case (keep j)
  with assms(2,4) show thesis by simp
next
  case (realloc h s)
  obtain k st1 where k: "make_shared h (st\<lparr>provider := s\<rparr>) = (k, st1)" by (cases "make_shared h (st\<lparr>provider := s\<rparr>)")
  have i: "i < length (control st)" using realloc(2) [OF assms(2)] by (simp add: alive_def)
  with k have old: "control st1 ! i = control st ! i" "handle_at st1 i = handle_at st i" "alive i st1" "provider st1 = s"
    using make_shared_simps [OF k] assms(3) by (simp_all add: nth_append handle_at_def alive_def)
  have "snd (release (destroy_CpuMemoryHandle pfree) i st1) = Inr st'" using realloc(4) k assms(2) by simp
  with old assms(3) obtain t where t: "snd (destroy_CpuMemoryHandle pfree (handle_at st i) s) = Inr t" "provider st' = t"
    by (auto simp: release_def Let_def elim!: snd_bind_InrE)
  obtain a m where s: "s = (a, m)" by (cases s)
  with t(1) obtain p where p: "a = Some p" by (cases a) (simp_all add: destroy_CpuMemoryHandle_def)
  from t s p obtain p' m' where "snd (pfree (handle_buf (handle_at st i)) (handle_alloc_size (handle_at st i)) (p, m)) = Inr (p', m')"
    "t = (Some p', m')" by (auto simp: destroy_CpuMemoryHandle_def elim!: snd_bind_InrE)
  with t(2) that show thesis by (simp add: get_buf_def get_alloc_size_def)
qed

text \<open>C18. A sub-vector does not share its source's memory handle: after the source has grown beyond its
  buffer, which nobody else refers to, the sub-vector still points into the old buffer, and that
  buffer belongs to no live handle. With a pool limit of zero it is no longer a block of the heap at all; with
  any other limit it is in the pool, and the next vector without a handle that is resized to the same
  allocation size gets it.\<close>

theorem sub_vector_dangles:
  assumes "cpu_handles.store_ok flag st" "memory_handle_of src = Some i" "data src = get_buf (handle_at st i)"
    "snd (control st ! i) = 1" "sub_vec_from elem src start k dst = return sub"
    "get_alloc_size (handle_at st i) < n * elem"
    "snd (cpu_resize pick flag elem n src st) = Inr (src', st')"
  shows "data sub = data src + start * elem \<and> held (live_handles st') (data src) = None \<and> data src' \<noteq> data src \<and>
    (\<exists>p m. provider st' = (Some p, m) \<and>
      (if size_limit p = 0 then live m (data src) = None
       else \<forall>v k. memory_handle_of v = None \<longrightarrow> alloc_size_for (k * elem) = get_alloc_size (handle_at st i) \<longrightarrow>
         (\<exists>w st''. snd (cpu_resize pick flag elem k v st') = Inr (w, st'') \<and> data w = data src)))"
proof (intro conjI)
  show "data sub = data src + start * elem"
    using assms(5) by (auto simp: sub_vec_from_def return_def cc_check_def bind_def split: if_splits)
  have after: "cpu_handles.store_ok flag st'" "held (live_handles st') (data src) = None" "data src' \<noteq> data src"
    using cpu_handles.resize_store_ok [OF assms(1,7)] assms(2,3,4,6) by simp_all
  then show "held (live_handles st') (data src) = None" "data src' \<noteq> data src" by simp_all
  obtain p m p' m' where free: "snd (pool_free cpu_free (get_buf (handle_at st i)) (get_alloc_size (handle_at st i)) (p, m)) = Inr (p', m')"
    "provider st' = (Some p', m')" using assms(7,2,4,6) by (rule resize_frees_old)
  have limit: "size_limit p' = size_limit p" by (rule pool_free_limit [OF free(1)])
  have "live m' (data src) = None" if "size_limit p' = 0"
  proof -
    have "pool_inv live memory_ok (held (live_handles st')) (p', m')"
      using after(1) free(2) by (simp add: cpu_handles.store_ok_def cpu_handles.st_ok_def get_cpu_allocator_def)
    note inv = pool_invD [OF this]
    from inv(3) [OF that] inv(6) after(2) show ?thesis by simp
  qed
  moreover have "\<exists>w st''. snd (cpu_resize pick flag elem k v st') = Inr (w, st'') \<and> data w = data src"
    if "size_limit p' \<noteq> 0" "memory_handle_of v = None" "alloc_size_for (k * elem) = get_alloc_size (handle_at st i)" for v k
  proof -
    have pos: "0 < size_limit p" using that(1) limit by (simp add: word_neq_0_conv)
    then have "pool_free cpu_free (get_buf (handle_at st i)) (get_alloc_size (handle_at st i)) (p, m) = return (p', m')"
      using free(1) by (simp add: pool_free_def Let_def return_def)
    from freed_buffer_is_next(2) [OF this pos] that(3) assms(3) obtain q where
      "snd (pool_alloc (cpu_alloc pick) cpu_free (alloc_size_for (k * elem)) (p', m')) = Inr (data src, q)" by simp
    then obtain p'' m'' where
      "snd (pool_alloc (cpu_alloc pick) cpu_free (alloc_size_for (k * elem)) (p', m')) = Inr (data src, p'', m'')" by (cases q) simp
    from new_handle_gets [where flag = flag and n = "k * elem" and palloc = "pool_alloc (cpu_alloc pick) cpu_free", OF this] obtain h s where
      "snd (new_CpuMemoryHandle flag (pool_alloc (cpu_alloc pick) cpu_free) (k * elem) (provider st')) = Inr (h, s)"
      "get_buf h = data src" unfolding free(2) by blast
    with resize_new_vector [OF that(2)] show ?thesis by metis
  qed
  ultimately show "\<exists>p m. provider st' = (Some p, m) \<and>
      (if size_limit p = 0 then live m (data src) = None
       else \<forall>v k. memory_handle_of v = None \<longrightarrow> alloc_size_for (k * elem) = get_alloc_size (handle_at st i) \<longrightarrow>
         (\<exists>w st''. snd (cpu_resize pick flag elem k v st') = Inr (w, st'') \<and> data w = data src))"
    using free(2) by (intro exI [of _ p'] exI [of _ m']) simp
qed

lemma grow_run:
  "\<exists>v st. cpu_resize bump_choice 1024 4 5000 sample_vector sample_store = return (v, st) \<and> data v = 131072 \<and>
    (\<exists>w st'. cpu_resize bump_choice 1024 4 700 (BaseVector 0 0) st = return (w, st') \<and> data w = 65536)"
  by (simp add: resize_def sample_handle release_def make_shared_def alive_def handle_at_def BaseVector_def new_BaseMatrix_def
      matrix.defs sample_store_def get_buf_def get_alloc_size_def handle_run_defs)

theorem sub_vector_dangles_witness:
  "\<exists>src' st'. snd (cpu_resize bump_choice 1024 4 5000 sample_vector sample_store) = Inr (src', st') \<and>
    data (sample_vector\<lparr>width := 20, data := 65536 + 10 * 4\<rparr>) = 65576 \<and> held (live_handles st') 65536 = None"
proof -
  obtain v st where run: "snd (cpu_resize bump_choice 1024 4 5000 sample_vector sample_store) = Inr (v, st)"
    using grow_run by (metis snd_return)
  have ok: "cpu_handles.store_ok 1024 sample_store"
    by (rule cpu_resize_ok [OF no_store_ok resize_value])
  have sub: "sub_vec_from 4 sample_vector 10 20 sample_vector = return (sample_vector\<lparr>width := 20, data := 65536 + 10 * 4\<rparr>)"
    by (simp add: sub_vec_from_def sample_handle)
  from sub_vector_dangles [OF ok _ _ _ sub _ run, of 0] run show ?thesis
    by (simp add: sample_handle get_buf_def get_alloc_size_def)
qed

text \<open>After that call, a new vector of 700 floats gets the memory the sub-vector still points into.\<close>

lemma sub_vector_shares_memory:
  "\<exists>v st w st'. cpu_resize bump_choice 1024 4 5000 sample_vector sample_store = return (v, st) \<and>
    cpu_resize bump_choice 1024 4 700 (BaseVector 0 0) st = return (w, st') \<and>
    unat (data w) \<le> 65576 \<and> 65576 + 20 * 4 \<le> unat (data w) + unat (width w) * 4"
proof -
  obtain v st w st' where "cpu_resize bump_choice 1024 4 5000 sample_vector sample_store = return (v, st)"
    "cpu_resize bump_choice 1024 4 700 (BaseVector 0 0) st = return (w, st')" "data w = 65536"
    using grow_run by metis
  moreover from this(2) have "width w = 700"
    using vector_resize_width by (metis snd_return)
  ultimately show ?thesis by (intro exI [of _ v] exI [of _ st] exI [of _ w] exI [of _ st']) simp
qed

text \<open>A sub-vector keeps the handle its vector had before: a later \<open>resize\<close> that fits that handle leaves
  the pointer in the source's memory and makes the vector run past the part it was made for.\<close>

lemma resize_after_sub_vec:
  assumes "sub_vec_from elem src start k v = return w" "memory_handle_of v = Some i" "alive i st"
    "n * elem \<le> get_alloc_size (handle_at st i)"
  shows "resize new_memory destroy elem n w st = return (w\<lparr>width := n\<rparr>, st) \<and> data w = data src + start * elem"
proof -
  have w: "w = v\<lparr>width := k, data := data src + start * elem\<rparr>"
    using assms(1) by (auto simp: sub_vec_from_def return_def cc_check_def bind_def split: if_splits)
  moreover have "\<not> get_alloc_size (handle_at st i) < n * elem" using assms(4) by simp
  ultimately show ?thesis using assms(2,3) by (simp add: resize_def)
qed

text \<open>Making a vector on a handle and destroying it gives the reference back.\<close>

lemma share_release:
  assumes "alive i st"
  shows "bind (share i st) (release destroy i) = return st"
proof -
  let ?st = "st\<lparr>control := (control st)[i := (handle_at st i, snd (control st ! i) + 1)]\<rparr>"
  have "alive i ?st" "handle_at ?st i = handle_at st i" "snd (control ?st ! i) = snd (control st ! i) + 1"
    using assms by (simp_all add: alive_def handle_at_def)
  with assms show ?thesis
    by (simp add: share_def release_def Let_def alive_def handle_at_def)
qed

end
