(* ===== verification/VectorPrograms.thy ===== *)
theory VectorPrograms
  imports Vector
begin

text \<open>
  math/Vector.h, programs of vectors: any sequence of constructions, resizings, sharings of a handle,
  sub-vectors and destructions. The reference counts of the handles are the numbers of vectors that
  refer to them, so no handle is used after it was freed, none is freed twice, and none leaks.
\<close>

section \<open>Programs\<close>

datatype vector_op =
    Create                   \<comment> \<open>a vector of no elements and without a handle\<close>
  | Resize nat u64
  | OnHandle nat u64 u64     \<comment> \<open>a new vector of a size and an offset on the handle of the \<open>i\<close>-th\<close>
  | SubVec nat nat u64 u64   \<comment> \<open>the \<open>i\<close>-th takes a part of the \<open>j\<close>-th\<close>
  | Destroy nat

fun vector_op_run :: "(u64 \<Rightarrow> 's \<Rightarrow> (memory_handle \<times> 's) run) \<Rightarrow> (memory_handle \<Rightarrow> 's \<Rightarrow> 's run) \<Rightarrow> u64
    \<Rightarrow> vector_op \<Rightarrow> vector list \<times> 's handle_store \<Rightarrow> (vector list \<times> 's handle_store) run" where
  "vector_op_run new_memory destroy elem Create (vs, st) = return (vs @ [VectorT_data 0 0], st)"
| "vector_op_run new_memory destroy elem (Resize i n) (vs, st) =
     (if i < length vs
      then bind (resize new_memory destroy elem n (vs ! i) st) (\<lambda>(v, st'). return (vs[i := v], st'))
      else return (vs, st))"
| "vector_op_run new_memory destroy elem (OnHandle i n offset) (vs, st) =
     (if i < length vs
      then (case get_memory_handle (vs ! i) of
              None \<Rightarrow> fail NullDeref
            | Some k \<Rightarrow> bind (VectorT_handle elem n k offset st) (\<lambda>(v, st'). return (vs @ [v], st')))
      else return (vs, st))"
| "vector_op_run new_memory destroy elem (SubVec i j start n) (vs, st) =
     (if i < length vs \<and> j < length vs
      then bind (sub_vec_from elem (vs ! j) start n (vs ! i)) (\<lambda>v. return (vs[i := v], st))
      else return (vs, st))"
| "vector_op_run new_memory destroy elem (Destroy i) (vs, st) =
     (if i < length vs
      then bind (destroy_VectorT destroy (vs ! i) st) (\<lambda>st'. return (take i vs @ drop (Suc i) vs, st'))
      else return (vs, st))"

fun vector_ops_run :: "(u64 \<Rightarrow> 's \<Rightarrow> (memory_handle \<times> 's) run) \<Rightarrow> (memory_handle \<Rightarrow> 's \<Rightarrow> 's run) \<Rightarrow> u64
    \<Rightarrow> vector_op list \<Rightarrow> vector list \<times> 's handle_store \<Rightarrow> (vector list \<times> 's handle_store) run" where
  "vector_ops_run new_memory destroy elem [] x = return x"
| "vector_ops_run new_memory destroy elem (c # cs) x =
     bind (vector_op_run new_memory destroy elem c x) (vector_ops_run new_memory destroy elem cs)"

section \<open>Counting references\<close>

definition refs :: "nat \<Rightarrow> vector list \<Rightarrow> nat" where
  "refs k vs = length (filter (\<lambda>v. memory_handle_of v = Some k) vs)"

abbreviation one_if :: "bool \<Rightarrow> nat" where "one_if b \<equiv> if b then 1 else 0"

lemma refs_simps [simp]:
  "refs k [] = 0" "refs k (v # vs) = one_if (memory_handle_of v = Some k) + refs k vs"
  "refs k (us @ vs) = refs k us + refs k vs"
  by (simp_all add: refs_def)

lemma refs_nth:
  assumes "i < length vs"
  shows "refs k vs = refs k (take i vs) + one_if (memory_handle_of (vs ! i) = Some k) + refs k (drop (Suc i) vs)"
    "refs k (vs[i := v]) = refs k (take i vs) + one_if (memory_handle_of v = Some k) + refs k (drop (Suc i) vs)"
proof -
  have "refs k vs = refs k (take i vs @ vs ! i # drop (Suc i) vs)" using id_take_nth_drop [OF assms] by (rule arg_cong)
  then show "refs k vs = refs k (take i vs) + one_if (memory_handle_of (vs ! i) = Some k) + refs k (drop (Suc i) vs)"
    by simp
  show "refs k (vs[i := v]) = refs k (take i vs) + one_if (memory_handle_of v = Some k) + refs k (drop (Suc i) vs)"
    unfolding upd_conv_take_nth_drop [OF assms] by simp
qed

lemma refs_pos: "0 < refs k vs \<longleftrightarrow> (\<exists>v \<in> set vs. memory_handle_of v = Some k)"
  by (induction vs) auto

text \<open>Every control block counts the vectors that refer to it, and no vector refers to anything else.\<close>

definition counted :: "vector list \<Rightarrow> 's handle_store \<Rightarrow> bool" where
  "counted vs st \<longleftrightarrow> (\<forall>k. if k < length (control st) then snd (control st ! k) = refs k vs else refs k vs = 0)"

lemma counted_empty [simp]: "control st = [] \<Longrightarrow> counted [] st"
  by (simp add: counted_def)

lemma countedD:
  assumes "counted vs st"
  shows "k < length (control st) \<Longrightarrow> snd (control st ! k) = refs k vs" "\<not> k < length (control st) \<Longrightarrow> refs k vs = 0"
    "alive k st \<longleftrightarrow> 0 < refs k vs"
proof -
  have k: "if k < length (control st) then snd (control st ! k) = refs k vs else refs k vs = 0"
    using assms unfolding counted_def by blast
  then show "k < length (control st) \<Longrightarrow> snd (control st ! k) = refs k vs" "\<not> k < length (control st) \<Longrightarrow> refs k vs = 0"
    by simp_all
  show "alive k st \<longleftrightarrow> 0 < refs k vs" using k by (auto simp: alive_def split: if_splits)
qed

lemma counted_alive: "counted vs st \<Longrightarrow> v \<in> set vs \<Longrightarrow> memory_handle_of v = Some k \<Longrightarrow> alive k st"
  by (auto simp: countedD(3) refs_pos)

lemma counted_nth_alive: "counted vs st \<Longrightarrow> i < length vs \<Longrightarrow> memory_handle_of (vs ! i) = Some k \<Longrightarrow> alive k st"
  by (auto intro: counted_alive nth_mem)

text \<open>Exchanging vectors that refer to the same handle changes no count.\<close>

lemma counted_update:
  assumes "counted vs st" "i < length vs" "memory_handle_of v = memory_handle_of (vs ! i)"
  shows "counted (vs[i := v]) st"
proof -
  have "refs k (vs[i := v]) = refs k vs" for k using refs_nth [OF assms(2), of k] assms(3) by simp
  with assms(1) show ?thesis by (simp add: counted_def)
qed

lemma counted_without:
  assumes "counted vs st" "memory_handle_of v = None"
  shows "counted (vs @ [v]) st"
  using assms unfolding counted_def by simp

lemma counted_share:
  assumes "counted vs st" "memory_handle_of v = Some k" "share k st = return st'"
  shows "counted (vs @ [v]) st'"
proof -
  have al: "alive k st" using assms(3) by (cases "alive k st") (simp_all add: share_def return_def fail_def)
  with assms(3) have st': "st' = st\<lparr>control := (control st)[k := (handle_at st k, snd (control st ! k) + 1)]\<rparr>"
    by (simp add: share_def return_def)
  show ?thesis
    unfolding counted_def
  proof
    fix j
    show "if j < length (control st') then snd (control st' ! j) = refs j (vs @ [v]) else refs j (vs @ [v]) = 0"
      using countedD(1,2) [OF assms(1), of j] al assms(2) by (cases "j = k") (auto simp: st' alive_def)
  qed
qed

text \<open>Releasing the reference of the \<open>i\<close>-th vector, which then refers to \<open>v\<close>'s handle or to none.\<close>

lemma counted_release:
  assumes "snd (release_opt destroy m st) = Inr st'"
    "\<And>k. (if k < length (control st) then snd (control st ! k) = refs k vs + one_if (m = Some k) else refs k vs = 0)"
  shows "counted vs st'"
proof (cases m)
  case None
  with assms(1) have "st' = st" by simp
  then show ?thesis using assms(2) None unfolding counted_def by simp
next
  case (Some k)
  then have r: "snd (release destroy k st) = Inr st'" using assms(1) by simp
  note c = release_control [OF r]
  show ?thesis
    unfolding counted_def
  proof
    fix j
    show "if j < length (control st') then snd (control st' ! j) = refs j vs else refs j vs = 0"
      using assms(2) [of j] Some c(2) unfolding c(1) by (cases "j = k") (auto simp: alive_def)
  qed
qed

lemma counted_destroy:
  assumes "counted vs st" "i < length vs" "snd (release_opt destroy (memory_handle_of (vs ! i)) st) = Inr st'"
  shows "counted (take i vs @ drop (Suc i) vs) st'"
proof (rule counted_release [OF assms(3)])
  fix k
  show "if k < length (control st) then snd (control st ! k) = refs k (take i vs @ drop (Suc i) vs) + one_if (memory_handle_of (vs ! i) = Some k)
      else refs k (take i vs @ drop (Suc i) vs) = 0"
    using countedD(1,2) [OF assms(1), of k] refs_nth(1) [OF assms(2), of k] by auto
qed

lemma counted_resize:
  assumes "counted vs st" "i < length vs" "snd (resize new_memory destroy elem n (vs ! i) st) = Inr (v, st')"
  shows "counted (vs[i := v]) st'"
  using assms(3)
proof (cases rule: resizeE)
  case (keep k)
  then show ?thesis using counted_update [OF assms(1,2)] by simp
next
  case (realloc h s)
  let ?k = "length (control st)"
  let ?st = "snd (make_shared h (st\<lparr>provider := s\<rparr>))"
  have st: "control ?st = control st @ [(h, 1)]" by (simp add: make_shared_def)
  have v: "memory_handle_of v = Some ?k" using realloc(3) by simp
  show ?thesis
  proof (rule counted_release [OF realloc(4)])
    fix k
    have r: "refs k (vs[i := v]) + one_if (memory_handle_of (vs ! i) = Some k) = refs k vs + one_if (?k = k)"
      using refs_nth [OF assms(2), of k] v by simp
    show "if k < length (control ?st)
        then snd (control ?st ! k) = refs k (vs[i := v]) + one_if (memory_handle_of (vs ! i) = Some k)
        else refs k (vs[i := v]) = 0"
      unfolding r using countedD(1,2) [OF assms(1), of k] refs_nth [OF assms(2), of k] v
      by (auto simp: st nth_append)
  qed
qed

section \<open>The invariant of a program\<close>

lemma share_live:
  assumes "share k st = return st'"
  shows "live_handles st' = live_handles st" "provider st' = provider st" "alive k st"
proof -
  show al: "alive k st" using assms by (cases "alive k st") (simp_all add: share_def return_def fail_def)
  with assms have st': "st' = st\<lparr>control := (control st)[k := (handle_at st k, snd (control st ! k) + 1)]\<rparr>"
    by (simp add: share_def return_def)
  show "live_handles st' = live_handles st" "provider st' = provider st"
    using live_handles_not_last [OF al, of "snd (control st ! k) + 1"] by (simp_all add: st' live_handles_def)
qed

lemma sub_vec_from_value:
  "snd (sub_vec_from elem src start n v) = Inr (v\<lparr>width := n, data := data src + start * elem\<rparr>)"
  by (simp add: sub_vec_from_def)

context handle_pool
begin

definition vectors_ok :: "vector list \<times> (pool option \<times> 'm) handle_store \<Rightarrow> bool" where
  "vectors_ok x \<longleftrightarrow> store_ok (snd x) \<and> counted (fst x) (snd x)"

lemma release_opt_returns:
  assumes "store_ok st" "\<And>k. m = Some k \<Longrightarrow> alive k st"
  shows "\<exists>st'. release_opt (destroy_CpuMemoryHandle pfree) m st = return st' \<and> store_ok st'"
proof (cases m)
  case (Some k)
  with release_ok [OF assms(1) assms(2) [OF Some]] show ?thesis by auto
qed (use assms(1) in simp)

lemma vector_op_ok:
  assumes "vectors_ok x" "snd (vector_op_run (new_CpuMemoryHandle flag palloc) (destroy_CpuMemoryHandle pfree) elem c x) = Inr y"
  shows "vectors_ok y"
proof -
  obtain vs st where x: "x = (vs, st)" by (cases x)
  with assms(1) have ok: "store_ok st" "counted vs st" by (simp_all add: vectors_ok_def)
  show ?thesis
  proof (cases c)
    case Create
    with assms(2) x have "y = (vs @ [VectorT_data 0 0], st)" by simp
    moreover have "counted (vs @ [VectorT_data 0 0]) st"
      by (rule counted_without [OF ok(2)]) (simp add: VectorT_data_def no_handle)
    ultimately show ?thesis using ok(1) by (simp add: vectors_ok_def)
  next
    case (Resize i n)
    show ?thesis
    proof (cases "i < length vs")
      case True
      from assms(2) Resize True x obtain v st' where r: "y = (vs[i := v], st')"
        "snd (resize (new_CpuMemoryHandle flag palloc) (destroy_CpuMemoryHandle pfree) elem n (vs ! i) st) = Inr (v, st')"
        by (auto elim!: snd_bind_InrE)
      with resize_store_ok [OF ok(1) r(2)] counted_resize [OF ok(2) True r(2)] show ?thesis by (simp add: vectors_ok_def)
    qed (use assms Resize x in auto)
  next
    case (OnHandle i n offset)
    show ?thesis
    proof (cases "i < length vs")
      case True
      from assms(2) OnHandle True x obtain k where k: "memory_handle_of (vs ! i) = Some k"
        by (cases "memory_handle_of (vs ! i)") (simp_all add: get_memory_handle_def)
      obtain st' where sh: "share k st = return st'"
        using counted_nth_alive [OF ok(2) True k] by (simp add: share_def)
      let ?v = "BaseVector n (get_buf (handle_at st k) + offset * elem) \<lparr>memory_handle_of := Some k\<rparr>"
      from assms(2) OnHandle True x k sh have "y = (vs @ [?v], st')"
        by (simp add: get_memory_handle_def VectorT_handle_def)
      moreover have "counted (vs @ [?v]) st'" by (rule counted_share [OF ok(2) _ sh]) simp
      moreover have "store_ok st'" using ok(1) share_live(1,2) [OF sh] by (simp add: store_ok_def)
      ultimately show ?thesis by (simp add: vectors_ok_def)
    qed (use assms OnHandle x in auto)
  next
    case (SubVec i j start n)
    show ?thesis
    proof (cases "i < length vs \<and> j < length vs")
      case True
      let ?v = "(vs ! i)\<lparr>width := n, data := data (vs ! j) + start * elem\<rparr>"
      from assms(2) SubVec True x have "y = (vs[i := ?v], st)" by (simp add: snd_bind_Inr [OF sub_vec_from_value])
      moreover have "counted (vs[i := ?v]) st" using counted_update [OF ok(2), of i ?v] True by simp
      ultimately show ?thesis using ok(1) by (simp add: vectors_ok_def)
    next
      case False
      with assms SubVec x show ?thesis by (simp split: if_splits)
    qed
  next
    case (Destroy i)
    show ?thesis
    proof (cases "i < length vs")
      case True
      from release_opt_returns [OF ok(1), of "memory_handle_of (vs ! i)"] counted_nth_alive [OF ok(2) True]
      obtain st' where r: "release_opt (destroy_CpuMemoryHandle pfree) (memory_handle_of (vs ! i)) st = return st'"
        "store_ok st'" by blast
      with assms(2) Destroy True x have "y = (take i vs @ drop (Suc i) vs, st')" by (simp add: destroy_VectorT_def)
      moreover have "counted (take i vs @ drop (Suc i) vs) st'"
        by (rule counted_destroy [OF ok(2) True, of "destroy_CpuMemoryHandle pfree"]) (simp add: r(1))
      ultimately show ?thesis using r(2) by (simp add: vectors_ok_def)
    qed (use assms Destroy x in auto)
  qed
qed

lemma resize_fault:
  assumes "store_ok st" "\<And>k. memory_handle_of v = Some k \<Longrightarrow> alive k st"
    "snd (resize (new_CpuMemoryHandle flag palloc) (destroy_CpuMemoryHandle pfree) elem n v st) = Inl f"
  shows "\<exists>out k t. inv out t \<and> snd (palloc k t) = Inl f"
proof (cases "snd (new_CpuMemoryHandle flag palloc (n * elem) (provider st))")
  case (Inl g)
  then have "g = f" using assms(2,3)
    by (cases "memory_handle_of v") (auto simp: resize_def snd_bind_Inl split: if_splits)
  with make_fault [of "live_handles st" "provider st"] assms(1) Inl show ?thesis by (auto simp: store_ok_def)
next
  case (Inr hs)
  obtain h s where hs: "hs = (h, s)" by (cases hs)
  obtain k st1 where k: "make_shared h (st\<lparr>provider := s\<rparr>) = (k, st1)" by (cases "make_shared h (st\<lparr>provider := s\<rparr>)")
  have "store_ok st1" using make_shared_ok [OF assms(1) _ k] Inr hs by blast
  moreover have "alive j st1" if "memory_handle_of v = Some j" for j
    using assms(2) [OF that] make_shared_simps(5) [OF k] by (auto simp: alive_def nth_append)
  ultimately obtain st2 where "release_opt (destroy_CpuMemoryHandle pfree) (memory_handle_of v) st1 = return st2"
    using release_opt_returns by blast
  with assms(2,3) Inr hs k show ?thesis
    by (cases "memory_handle_of v") (auto simp: resize_def snd_bind_Inr split: if_splits)
qed

lemma vector_op_fault:
  assumes "vectors_ok x" "snd (vector_op_run (new_CpuMemoryHandle flag palloc) (destroy_CpuMemoryHandle pfree) elem c x) = Inl f"
  shows "f = NullDeref \<or> (\<exists>out k t. inv out t \<and> snd (palloc k t) = Inl f)"
proof -
  obtain vs st where x: "x = (vs, st)" by (cases x)
  with assms(1) have ok: "store_ok st" "counted vs st" by (simp_all add: vectors_ok_def)
  note al = counted_nth_alive [OF ok(2)]
  show ?thesis
  proof (cases c)
    case (Resize i n)
    then have i: "i < length vs" using assms(2) x by (cases "i < length vs") simp_all
    let ?r = "snd (resize (new_CpuMemoryHandle flag palloc) (destroy_CpuMemoryHandle pfree) elem n (vs ! i) st)"
    from assms(2) Resize x i have "?r = Inl f" by (cases ?r) (auto simp: snd_bind_Inl snd_bind_Inr)
    with resize_fault [OF ok(1)] al [OF i] show ?thesis by blast
  next
    case (OnHandle i n offset)
    with assms(2) x al [of i] show ?thesis
      by (auto simp: get_memory_handle_def VectorT_handle_def share_def split: if_splits option.splits)
  next
    case (SubVec i j start n)
    with assms(2) x show ?thesis by (simp add: snd_bind_Inr [OF sub_vec_from_value] split: if_splits)
  next
    case (Destroy i)
    then have i: "i < length vs" using assms(2) x by (cases "i < length vs") simp_all
    from release_opt_returns [OF ok(1), of "memory_handle_of (vs ! i)"] al [OF i] assms(2) Destroy x i
    show ?thesis by (auto simp: destroy_VectorT_def)
  qed (use assms(2) x in simp)
qed

lemma vector_ops_ok:
  "vectors_ok x \<Longrightarrow>
   case snd (vector_ops_run (new_CpuMemoryHandle flag palloc) (destroy_CpuMemoryHandle pfree) elem cs x) of
     Inl f \<Rightarrow> f = NullDeref \<or> (\<exists>out k t. inv out t \<and> snd (palloc k t) = Inl f)
   | Inr y \<Rightarrow> vectors_ok y"
proof (induction cs arbitrary: x)
  case (Cons c cs)
  show ?case
  proof (cases "snd (vector_op_run (new_CpuMemoryHandle flag palloc) (destroy_CpuMemoryHandle pfree) elem c x)")
    case (Inl f)
    with vector_op_fault [OF Cons.prems Inl] show ?thesis by (simp add: snd_bind_Inl)
  next
    case (Inr y)
    with Cons.IH [OF vector_op_ok [OF Cons.prems Inr]] show ?thesis by (simp add: snd_bind_Inr)
  qed
qed simp

end

section \<open>Properties\<close>

lemma alive_live: "alive k st \<Longrightarrow> handle_at st k \<in> set (live_handles st)"
  unfolding live_handles_def alive_def handle_at_def by (force intro: nth_mem)

lemma alive_bufs_differ:
  assumes "distinct (map handle_buf (live_handles st))" "alive j st" "alive k st" "j < k"
  shows "handle_buf (handle_at st j) \<noteq> handle_buf (handle_at st k)"
proof -
  let ?f = "\<lambda>cs :: (memory_handle \<times> nat) list. map fst (filter (\<lambda>c. 0 < snd c) cs)"
  have "?f (control st) = ?f (take k (control st) @ control st ! k # drop (Suc k) (control st))"
    using control_split(1) [OF assms(3)] by (rule arg_cong)
  then have "live_handles st = ?f (take k (control st)) @ handle_at st k # ?f (drop (Suc k) (control st))"
    using control_split(2) [OF assms(3)] by (simp add: live_handles_def handle_at_def)
  then have "handle_buf (handle_at st k) \<notin> handle_buf ` set (?f (take k (control st)))" using assms(1) by (simp add: image_image)
  moreover have "control st ! j \<in> set (take k (control st))"
    using assms(2,4) by (auto simp: in_set_conv_nth alive_def intro!: exI [of _ j])
  then have "handle_at st j \<in> set (?f (take k (control st)))"
    using assms(2) by (force simp: handle_at_def alive_def)
  ultimately show ?thesis by (metis image_eqI)
qed

abbreviation cpu_vector_ops :: "heap_choice \<Rightarrow> 32 word \<Rightarrow> u64 \<Rightarrow> vector_op list
    \<Rightarrow> (vector list \<times> (pool option \<times> memory) handle_store) run" where
  "cpu_vector_ops pick flag elem ops \<equiv>
     vector_ops_run (new_CpuMemoryHandle flag (pool_alloc (cpu_alloc pick) cpu_free)) (destroy_CpuMemoryHandle (pool_free cpu_free))
       elem ops ([], no_store)"

text \<open>C17. Vectors share memory handles soundly. Whatever a program does with its vectors (create, resize,
  put a new vector on another's handle, take a part of another, destroy) and whatever addresses the C
  library picks: it faults only when a vector without a handle is asked for it or when the library refuses
  a block, so no handle is used after it was freed and no buffer is freed twice. If it completes, the
  count of every handle is the number of vectors that refer to it, the handles of the vectors are alive,
  different handles have buffers that share no byte, and when no vector is left the engine's destructor
  frees every block there is.\<close>

theorem vectors_share_handles:
  "case snd (cpu_vector_ops pick flag elem ops) of
     Inl f \<Rightarrow> f = NullDeref \<or> f = Indeterminate
   | Inr (vs, st) \<Rightarrow>
       (\<forall>k < length (control st). snd (control st ! k) = length (filter (\<lambda>v. get_memory_handle v = Some k) vs)) \<and>
       (\<forall>u \<in> set vs. \<forall>v \<in> set vs. \<forall>j k. get_memory_handle u = Some j \<longrightarrow> get_memory_handle v = Some k \<longrightarrow>
          alive j st \<and> (j \<noteq> k \<longrightarrow> buffers_apart (handle_at st j) (handle_at st k))) \<and>
       (vs = [] \<longrightarrow> (\<exists>m. destroy_engine cpu_free (provider st) = return m \<and> blocks m = []))"
proof (cases "snd (cpu_vector_ops pick flag elem ops)")
  case (Inl f)
  have "cpu_handles.vectors_ok flag ([], no_store)"
    by (simp add: cpu_handles.vectors_ok_def no_store_ok) (simp add: no_store_def)
  from cpu_handles.vector_ops_ok [OF this, of pick elem ops] Inl pool_alloc_fault show ?thesis by auto
next
  case (Inr y)
  obtain vs st where y: "y = (vs, st)" by (cases y)
  have "cpu_handles.vectors_ok flag ([], no_store)"
    by (simp add: cpu_handles.vectors_ok_def no_store_ok) (simp add: no_store_def)
  from cpu_handles.vector_ops_ok [OF this, of pick elem ops] Inr y
  have ok: "cpu_handles.store_ok flag st" "counted vs st" by (simp_all add: cpu_handles.vectors_ok_def)
  obtain a m where p: "provider st = (a, m)" by (cases "provider st")
  from ok(1) p have hs: "handles_ok (live_handles st)"
    "pool_inv live memory_ok (held (live_handles st)) (get_cpu_allocator flag a, m)"
    by (simp_all add: cpu_handles.store_ok_def cpu_handles.st_ok_def)
  have apart: "buffers_apart (handle_at st j) (handle_at st k)" if "alive j st" "alive k st" "j \<noteq> k" for j k
  proof -
    have "handle_buf (handle_at st j) \<noteq> handle_buf (handle_at st k)"
      using alive_bufs_differ [of st j k] alive_bufs_differ [of st k j] that hs(1)
      by (cases "j < k") (auto simp: handles_ok_def)
    from handle_bufs_apart [OF hs alive_live [OF that(1)] alive_live [OF that(2)] this] show ?thesis .
  qed
  have "\<exists>m. destroy_engine cpu_free (provider st) = return m \<and> blocks m = []" if "vs = []"
  proof -
    have "filter (\<lambda>c. 0 < snd c) (control st) = []"
      using countedD(1) [OF ok(2)] that by (fastforce simp: filter_empty_conv in_set_conv_nth)
    then have "live_handles st = []" by (simp add: live_handles_def)
    with engine_frees_all [of flag a m] hs(2) p show ?thesis by simp
  qed
  with Inr y ok(2) apart counted_alive [OF ok(2)] countedD(1) [OF ok(2)] show ?thesis
    by (auto simp: get_memory_handle_def refs_def)
qed

text \<open>Two vectors on one handle: the first grows beyond it, the second keeps it alive.\<close>

lemma shared_run:
  "snd (cpu_vector_ops bump_choice 1024 4 [Create, Resize 0 600, OnHandle 0 100 8, Resize 0 5000]) =
   Inr ([BaseVector 0 0 \<lparr>width := 5000, data := 131072, memory_handle_of := Some 1\<rparr>,
         BaseVector 100 65568 \<lparr>memory_handle_of := Some 0\<rparr>],
     \<lparr>control = [(\<lparr>handle_size = 2400, handle_alloc_size = 3072, handle_buf = 65536\<rparr>, 1),
                 (\<lparr>handle_size = 20000, handle_alloc_size = 20480, handle_buf = 131072\<rparr>, 1)],
       provider = (Some \<lparr>free_lists = [], size_limit = 1024, pool_memory_size = 0, pool_name = ''cpu_pool''\<rparr>,
         \<lparr>blocks = [(131072, 20480), (65536, 3072)]\<rparr>)\<rparr>)"
  by (simp add: VectorT_data_def get_memory_handle_def VectorT_handle_def share_def resize_def make_shared_def release_def
      BaseVector_def new_BaseMatrix_def matrix.defs no_store_def get_buf_def get_alloc_size_def alive_def handle_at_def
      handle_run_defs)

theorem vectors_share_handles_witness:
  "buffers_apart \<lparr>handle_size = 20000, handle_alloc_size = 20480, handle_buf = 131072\<rparr>
     \<lparr>handle_size = 2400, handle_alloc_size = 3072, handle_buf = 65536\<rparr>"
  using vectors_share_handles [of 1024 bump_choice 4 "[Create, Resize 0 600, OnHandle 0 100 8, Resize 0 5000]",
      unfolded shared_run]
  by (simp add: get_memory_handle_def handle_at_def)

end
