(* ===== verification/ConcurrentHandles.thy ===== *)
theory ConcurrentHandles
  imports MemoryHandle
begin

text \<open>
  math/MemoryHandle.cpp on math/Storage.cpp and math/PoolAllocator.cpp, with several threads: each thread
  makes and destroys handles of its own, all from the one pool of the storage engine. A constructor is
  the moves of \<open>get_cpu_allocator\<close> (theory Storage), which interleave with the other threads, and then
  the allocation, which the pool does under its mutex (without a limit it is a call of the C library's,
  which is thread-safe). A destructor is one call of the pool.
\<close>

section \<open>Threads that make and destroy handles\<close>

record 'm system =
  sys_engine :: engine
  sys_memory :: "pool option \<times> 'm"         \<comment> \<open>the engine's pool, once there is one, and the heap\<close>
  sys_program :: "nat \<Rightarrow> handle_op list"     \<comment> \<open>what each thread has still to do\<close>
  sys_handles :: "nat \<Rightarrow> memory_handle list"  \<comment> \<open>the handles each thread has\<close>

definition start_system :: "(nat \<Rightarrow> handle_op list) \<Rightarrow> 'm \<Rightarrow> 'm system" where
  "start_system programs m = \<lparr>sys_engine = new_engine, sys_memory = (None, m), sys_program = programs,
     sys_handles = (\<lambda>_. [])\<rparr>"

text \<open>A move of the engine makes the pool when it stores the pointer to it.\<close>

definition engine_turn :: "32 word \<Rightarrow> engine \<Rightarrow> 'm system \<Rightarrow> 'm system" where
  "engine_turn flag e s = s\<lparr>sys_engine := e, sys_memory :=
     (if cpu_allocator (sys_engine s) = None \<and> cpu_allocator e \<noteq> None then Some (pool_of_flag flag)
      else fst (sys_memory s), snd (sys_memory s))\<rparr>"

definition call_done :: "nat \<Rightarrow> engine \<Rightarrow> engine" where
  "call_done t e = e\<lparr>point := (point e)(t := Start)\<rparr>"

text \<open>The next move of a thread: \<open>None\<close> when it has to wait or has nothing left to do.\<close>

definition thread_move :: "32 word \<Rightarrow> (u64 \<Rightarrow> pool \<times> 'm \<Rightarrow> (ptr \<times> pool \<times> 'm) run)
    \<Rightarrow> (ptr \<Rightarrow> u64 \<Rightarrow> pool \<times> 'm \<Rightarrow> (pool \<times> 'm) run) \<Rightarrow> nat \<Rightarrow> 'm system \<Rightarrow> 'm system run option" where
  "thread_move flag palloc pfree t s = (case sys_program s t of
      [] \<Rightarrow> None
    | Make n # ops \<Rightarrow>
        (case point (sys_engine s) t of
           Got p \<Rightarrow> Some (bind (new_CpuMemoryHandle flag palloc n (sys_memory s)) (\<lambda>(h, mem). return
             (s\<lparr>sys_engine := call_done t (sys_engine s), sys_memory := mem, sys_program := (sys_program s)(t := ops),
                sys_handles := (sys_handles s)(t := sys_handles s t @ [h])\<rparr>)))
         | _ \<Rightarrow> (case engine_move flag t (sys_engine s) of
             None \<Rightarrow> None
           | Some e \<Rightarrow> Some (return (engine_turn flag e s))))
    | Drop i # ops \<Rightarrow>
        Some (if i < length (sys_handles s t)
          then bind (destroy_CpuMemoryHandle pfree (sys_handles s t ! i) (sys_memory s)) (\<lambda>mem. return
            (s\<lparr>sys_memory := mem, sys_program := (sys_program s)(t := ops),
               sys_handles := (sys_handles s)(t := take i (sys_handles s t) @ drop (Suc i) (sys_handles s t))\<rparr>))
          else return (s\<lparr>sys_program := (sys_program s)(t := ops)\<rparr>)))"

text \<open>The threads \<open>0, \<dots>, n - 1\<close> take turns as the schedule says; a turn of a thread that waits is lost.\<close>

fun run_threads :: "32 word \<Rightarrow> (u64 \<Rightarrow> pool \<times> 'm \<Rightarrow> (ptr \<times> pool \<times> 'm) run)
    \<Rightarrow> (ptr \<Rightarrow> u64 \<Rightarrow> pool \<times> 'm \<Rightarrow> (pool \<times> 'm) run) \<Rightarrow> nat \<Rightarrow> nat list \<Rightarrow> 'm system \<Rightarrow> 'm system run" where
  "run_threads flag palloc pfree n [] s = return s"
| "run_threads flag palloc pfree n (t # ts) s =
     (case (if t < n then thread_move flag palloc pfree t s else None) of
        None \<Rightarrow> run_threads flag palloc pfree n ts s
      | Some r \<Rightarrow> bind r (run_threads flag palloc pfree n ts))"

section \<open>The engine keeps its invariant\<close>

lemma call_done_inv:
  assumes "engine_inv flag e" "point e t = Got p"
  shows "engine_inv flag (call_done t e)"
  unfolding call_done_def by (rule engine_inv_point [OF assms(1)]) (simp_all add: assms(2))

lemma engine_move_allocator:
  assumes "engine_move flag t e = Some e'"
  shows "cpu_allocator e \<noteq> None \<Longrightarrow> cpu_allocator e' \<noteq> None" "point e' u \<noteq> Start \<Longrightarrow> u = t \<or> point e u \<noteq> Start"
  using assms by (auto simp: engine_move_def split: call_point.splits option.splits if_splits)

section \<open>All the handles there are\<close>

definition all_handles :: "nat \<Rightarrow> (nat \<Rightarrow> memory_handle list) \<Rightarrow> memory_handle list" where
  "all_handles n H = concat (map H [0..<n])"

lemma all_handles_split:
  "t < n \<Longrightarrow> all_handles n H = concat (map H [0..<t]) @ H t @ concat (map H [Suc t..<n])"
  using upt_add_eq_append [of 0 t "n - t"] upt_conv_Cons [of t n] by (simp add: all_handles_def)

lemma all_handles_update:
  assumes "t < n"
  shows "all_handles n (H(t := hs)) = concat (map H [0..<t]) @ hs @ concat (map H [Suc t..<n])"
proof -
  have "map (H(t := hs)) [0..<t] = map H [0..<t]" "map (H(t := hs)) [Suc t..<n] = map H [Suc t..<n]" by simp_all
  then show ?thesis by (simp only: all_handles_split [OF assms, of "H(t := hs)"] fun_upd_same)
qed

lemma mset_all_handles_update:
  "t < n \<Longrightarrow> mset (all_handles n (H(t := hs))) + mset (H t) = mset (all_handles n H) + mset hs"
  by (simp add: all_handles_update all_handles_split)

lemma in_all_handles: "t < n \<Longrightarrow> h \<in> set (H t) \<Longrightarrow> h \<in> set (all_handles n H)"
  by (auto simp: all_handles_def)

text \<open>Two handles in different places have different buffers.\<close>

lemma all_handles_distinct:
  assumes "distinct (map handle_buf (all_handles n H))" "t < n" "u < n" "i < length (H t)" "j < length (H u)" "(t, i) \<noteq> (u, j)"
  shows "handle_buf (H t ! i) \<noteq> handle_buf (H u ! j)"
proof -
  have part: "handle_buf (H a ! k) \<noteq> handle_buf (H b ! l)"
    if "a < b" "b < n" "k < length (H a)" "l < length (H b)" for a b k l
  proof -
    have "handle_buf (H a ! k) \<in> set (map handle_buf (concat (map H [0..<b])))" using that by force
    moreover have "handle_buf (H b ! l) \<in> set (map handle_buf (H b))" using that(4) by simp
    moreover have "set (map handle_buf (concat (map H [0..<b]))) \<inter> set (map handle_buf (H b)) = {}"
      using assms(1) unfolding all_handles_split [OF that(2)] map_append distinct_append set_append Int_Un_distrib Un_empty by blast
    ultimately show ?thesis by (metis disjoint_iff)
  qed
  show ?thesis
  proof (cases "t = u")
    case True
    then have "distinct (map handle_buf (H t))"
      using assms(1) unfolding all_handles_split [OF assms(2)] by simp
    with True assms(4-6) show ?thesis by (auto simp: distinct_conv_nth)
  next
    case False
    with part [of t u i j] part [of u t j i] assms(2-5) show ?thesis by (metis nat_neq_iff)
  qed
qed

section \<open>The invariant\<close>

text \<open>Which threads can be inside \<open>get_cpu_allocator\<close>, and when there is a pool.\<close>

definition calls_ok :: "nat \<Rightarrow> 'm system \<Rightarrow> bool" where
  "calls_ok n s \<longleftrightarrow> (\<forall>t. point (sys_engine s) t \<noteq> Start \<longrightarrow> t < n \<and> (\<exists>k ops. sys_program s t = Make k # ops)) \<and>
     (fst (sys_memory s) = None \<longleftrightarrow> cpu_allocator (sys_engine s) = None)"

lemma calls_okD:
  assumes "calls_ok n s" "point (sys_engine s) t \<noteq> Start"
  shows "t < n" "\<exists>k ops. sys_program s t = Make k # ops"
  using assms unfolding calls_ok_def by blast+

context handle_pool
begin

definition system_ok :: "nat \<Rightarrow> 'm system \<Rightarrow> bool" where
  "system_ok n s \<longleftrightarrow> engine_inv flag (sys_engine s) \<and> calls_ok n s \<and>
     (\<exists>hs. mset hs = mset (all_handles n (sys_handles s)) \<and> st_ok (hs, sys_memory s))"

lemma st_ok_pool_made: "st_ok (hs, None, m) \<Longrightarrow> st_ok (hs, Some (pool_of_flag flag), m)"
  by (auto simp: st_ok_def get_cpu_allocator_def)

lemma engine_turn_ok:
  assumes "system_ok n s" "engine_move flag t (sys_engine s) = Some e" "t < n" "sys_program s t = Make k # ops"
  shows "system_ok n (engine_turn flag e s)"
proof -
  note ok = assms(1) [unfolded system_ok_def]
  note c = ok [THEN conjunct2, THEN conjunct1]
  from ok obtain hs where hs: "mset hs = mset (all_handles n (sys_handles s))" "st_ok (hs, sys_memory s)" by blast
  have "st_ok (hs, sys_memory (engine_turn flag e s))"
    using hs(2) c st_ok_pool_made [of hs "snd (sys_memory s)"]
    by (cases "sys_memory s") (auto simp: engine_turn_def calls_ok_def)
  moreover have "calls_ok n (engine_turn flag e s)"
    unfolding calls_ok_def
  proof (intro conjI allI impI)
    fix u assume "point (sys_engine (engine_turn flag e s)) u \<noteq> Start"
    then have "u = t \<or> point (sys_engine s) u \<noteq> Start"
      using engine_move_allocator(2) [OF assms(2)] by (simp add: engine_turn_def)
    with calls_okD [OF c, of u] assms(3,4) show "u < n" "\<exists>k ops. sys_program (engine_turn flag e s) u = Make k # ops"
      by (auto simp: engine_turn_def)
  next
    show "(fst (sys_memory (engine_turn flag e s)) = None) = (cpu_allocator (sys_engine (engine_turn flag e s)) = None)"
      using c engine_move_allocator(1) [OF assms(2)] by (auto simp: engine_turn_def calls_ok_def)
  qed
  moreover have "engine_inv flag e" using ok engine_move_inv [OF _ assms(2)] by blast
  ultimately show ?thesis using hs(1) unfolding system_ok_def by (auto simp: engine_turn_def)
qed

lemma make_turn_ok:
  assumes "system_ok n s" "t < n" "sys_program s t = Make k # ops" "point (sys_engine s) t = Got p"
    "snd (new_CpuMemoryHandle flag palloc k (sys_memory s)) = Inr (h, mem)"
  shows "system_ok n (s\<lparr>sys_engine := call_done t (sys_engine s), sys_memory := mem, sys_program := (sys_program s)(t := ops),
                sys_handles := (sys_handles s)(t := sys_handles s t @ [h])\<rparr>)" (is "system_ok n ?s")
proof -
  note ok = assms(1) [unfolded system_ok_def]
  from ok obtain hs where hs: "mset hs = mset (all_handles n (sys_handles s))" "st_ok (hs, sys_memory s)" by blast
  have "st_ok (hs @ [h], mem)" using make_ok [OF hs(2) assms(5)] by simp
  moreover have "mset (hs @ [h]) = mset (all_handles n (sys_handles ?s))"
    using hs(1) mset_all_handles_update [OF assms(2), of "sys_handles s" "sys_handles s t @ [h]"] by simp
  moreover have "engine_inv flag (sys_engine ?s)" using ok call_done_inv [OF _ assms(4)] by simp
  moreover have "fst mem \<noteq> None" using assms(5) by (cases "sys_memory s")
      (auto simp: new_CpuMemoryHandle_def Let_def elim!: snd_bind_InrE)
  then have "calls_ok n ?s"
    using ok engine_invD(5) [of flag "sys_engine s" t] assms(4)
    by (auto simp: calls_ok_def call_done_def)
  ultimately show ?thesis unfolding system_ok_def by (intro conjI exI [of _ "hs @ [h]"]) simp_all
qed

lemma drop_turn_ok:
  assumes "system_ok n s" "t < n" "sys_program s t = Drop i # ops" "i < length (sys_handles s t)"
  shows "\<exists>mem. destroy_CpuMemoryHandle pfree (sys_handles s t ! i) (sys_memory s) = return mem \<and>
    system_ok n (s\<lparr>sys_memory := mem, sys_program := (sys_program s)(t := ops),
       sys_handles := (sys_handles s)(t := take i (sys_handles s t) @ drop (Suc i) (sys_handles s t))\<rparr>)"
proof -
  note ok = assms(1) [unfolded system_ok_def]
  from ok obtain hs where hs: "mset hs = mset (all_handles n (sys_handles s))" "st_ok (hs, sys_memory s)" by blast
  let ?h = "sys_handles s t ! i" let ?own = "take i (sys_handles s t) @ drop (Suc i) (sys_handles s t)"
  have "?h \<in> set hs"
    using in_all_handles [OF assms(2), of ?h "sys_handles s"] assms(4) mset_eq_setD [OF hs(1)] by simp
  then obtain j where j: "j < length hs" "hs ! j = ?h" by (auto simp: in_set_conv_nth)
  from drop_ok [OF hs(2) j(1)] j(2) obtain mem where mem: "destroy_CpuMemoryHandle pfree ?h (sys_memory s) = return mem"
    "st_ok (take j hs @ drop (Suc j) hs, mem)" by auto
  have remove: "mset (take k xs @ drop (Suc k) xs) + {#xs ! k#} = mset xs" if "k < length xs" for k and xs :: "memory_handle list"
  proof -
    have "mset xs = mset (take k xs @ xs ! k # drop (Suc k) xs)" using id_take_nth_drop [OF that] by (rule arg_cong)
    then show ?thesis by simp
  qed
  have r1: "mset (take j hs @ drop (Suc j) hs) + {#?h#} = mset (all_handles n (sys_handles s))"
    using remove [OF j(1)] j(2) hs(1) by simp
  have r2: "mset ?own + {#?h#} = mset (sys_handles s t)" by (rule remove [OF assms(4)])
  have r3: "mset (all_handles n ((sys_handles s)(t := ?own))) + mset (sys_handles s t) = mset (all_handles n (sys_handles s)) + mset ?own"
    by (rule mset_all_handles_update [OF assms(2)])
  have "mset (all_handles n ((sys_handles s)(t := ?own))) + (mset ?own + {#?h#}) =
      mset (take j hs @ drop (Suc j) hs) + (mset ?own + {#?h#})"
    using r3 unfolding r1 [symmetric] r2 [symmetric] by (simp only: ac_simps)
  then have hs': "mset (take j hs @ drop (Suc j) hs) = mset (all_handles n ((sys_handles s)(t := ?own)))"
    unfolding add_right_cancel by (rule sym)
  have "snd (destroy_CpuMemoryHandle pfree ?h (sys_memory s)) = Inr mem" using mem(1) by simp
  then have "fst mem \<noteq> None" "fst (sys_memory s) \<noteq> None"
    by (cases "sys_memory s"; auto simp: destroy_CpuMemoryHandle_def elim!: snd_bind_InrE split: option.splits)+
  then have "calls_ok n (s\<lparr>sys_memory := mem, sys_program := (sys_program s)(t := ops), sys_handles := (sys_handles s)(t := ?own)\<rparr>)"
    using ok assms(3) unfolding calls_ok_def by auto
  with ok mem hs' show ?thesis unfolding system_ok_def
    by (intro exI [of _ mem] conjI exI [of _ "take j hs @ drop (Suc j) hs"]) simp_all
qed

lemma skip_turn_ok:
  "system_ok n s \<Longrightarrow> sys_program s t = Drop i # ops \<Longrightarrow> system_ok n (s\<lparr>sys_program := (sys_program s)(t := ops)\<rparr>)"
  by (auto simp: system_ok_def calls_ok_def)

lemma thread_move_ok:
  assumes "system_ok n s" "t < n" "thread_move flag palloc pfree t s = Some r"
  shows "case snd r of Inl f \<Rightarrow> \<exists>out k m. inv out m \<and> snd (palloc k m) = Inl f | Inr s' \<Rightarrow> system_ok n s'"
proof (cases "sys_program s t")
  case Nil
  with assms(3) show ?thesis by (simp add: thread_move_def)
next
  case (Cons c ops)
  show ?thesis
  proof (cases c)
    case (Make k)
    show ?thesis
    proof (cases "\<exists>p. point (sys_engine s) t = Got p")
      case True
      then obtain p where p: "point (sys_engine s) t = Got p" by blast
      show ?thesis
      proof (cases "snd (new_CpuMemoryHandle flag palloc k (sys_memory s))")
        case (Inl f)
        from assms(1) obtain hs where "st_ok (hs, sys_memory s)" unfolding system_ok_def by blast
        moreover have "snd r = Inl f" using Inl assms(3) Cons Make p by (auto simp: thread_move_def snd_bind_Inl)
        ultimately show ?thesis using make_fault [OF _ Inl] by simp
      next
        case (Inr x)
        obtain h mem where x: "x = (h, mem)" by (cases x)
        with make_turn_ok [OF assms(1,2) Cons [unfolded Make] p] Inr assms(3) Cons Make p show ?thesis
          by (auto simp: thread_move_def snd_bind_Inr)
      qed
    next
      case False
      then have "\<exists>e. engine_move flag t (sys_engine s) = Some e \<and> r = return (engine_turn flag e s)"
        using assms(3) Cons Make by (auto simp: thread_move_def split: call_point.splits option.splits)
      then obtain e where e: "engine_move flag t (sys_engine s) = Some e" "r = return (engine_turn flag e s)" by blast
      with engine_turn_ok [OF assms(1) e(1) assms(2) Cons [unfolded Make]] show ?thesis by simp
    qed
  next
    case (Drop i)
    show ?thesis
    proof (cases "i < length (sys_handles s t)")
      case True
      from drop_turn_ok [OF assms(1,2) Cons [unfolded Drop] True] assms(3) Cons Drop True show ?thesis
        by (auto simp: thread_move_def)
    next
      case False
      with assms(3) Cons Drop skip_turn_ok [OF assms(1) Cons [unfolded Drop]] show ?thesis
        by (auto simp: thread_move_def)
    qed
  qed
qed

lemma run_threads_ok:
  "system_ok n s \<Longrightarrow>
   case snd (run_threads flag palloc pfree n ts s) of
     Inl f \<Rightarrow> \<exists>out k m. inv out m \<and> snd (palloc k m) = Inl f | Inr s' \<Rightarrow> system_ok n s'"
proof (induction ts arbitrary: s)
  case (Cons t ts)
  show ?case
  proof (cases "if t < n then thread_move flag palloc pfree t s else None")
    case None
    with Cons show ?thesis by simp
  next
    case (Some r)
    then have t: "t < n" "thread_move flag palloc pfree t s = Some r" by (simp_all split: if_splits)
    from thread_move_ok [OF Cons.prems t] Cons.IH t show ?thesis
      by (cases "snd r") (simp_all add: snd_bind_Inl snd_bind_Inr)
  qed
qed simp

text \<open>No deadlock: while a thread has something to do, some thread can move.\<close>

lemma system_progress:
  assumes "system_ok n s" "t < n" "sys_program s t \<noteq> []"
  shows "\<exists>u < n. thread_move flag palloc pfree u s \<noteq> None"
proof -
  have c: "calls_ok n s" and e: "engine_inv flag (sys_engine s)" using assms(1) by (simp_all add: system_ok_def)
  obtain c ops where prog: "sys_program s t = c # ops" using assms(3) by (cases "sys_program s t") auto
  show ?thesis
  proof (cases "c = Make (case c of Make k \<Rightarrow> k) \<and> point (sys_engine s) t \<noteq> Got 0")
    case False
    then have "thread_move flag palloc pfree t s \<noteq> None"
      using prog by (cases c) (auto simp: thread_move_def)
    with assms(2) show ?thesis by blast
  next
    case True
    from engine_progress [OF e] True obtain u e' where u: "engine_move flag u (sys_engine s) = Some e'"
      "u = t \<or> reads (point (sys_engine s) u) \<or> writes (point (sys_engine s) u)" by blast
    have "u < n \<and> (\<exists>k ops. sys_program s u = Make k # ops)"
    proof (cases "u = t")
      case True
      with \<open>c = Make _ \<and> _\<close> prog assms(2) show ?thesis by auto
    next
      case False
      with u(2) have "point (sys_engine s) u \<noteq> Start" by auto
      with calls_okD [OF c] show ?thesis by blast
    qed
    moreover from this have "thread_move flag palloc pfree u s \<noteq> None"
      using u(1) by (auto simp: thread_move_def split: call_point.splits)
    ultimately show ?thesis by blast
  qed
qed

end

section \<open>Properties\<close>

lemma start_system_ok: "cpu_handles.system_ok flag n (start_system programs no_memory)"
  using no_handles_ok [of flag] engine_inv_new [of flag]
  by (auto simp: cpu_handles.system_ok_def start_system_def calls_ok_def new_engine_def all_handles_def concat_eq_Nil_conv
      intro!: exI [of _ "[]"])

abbreviation cpu_threads :: "heap_choice \<Rightarrow> 32 word \<Rightarrow> nat \<Rightarrow> (nat \<Rightarrow> handle_op list) \<Rightarrow> nat list \<Rightarrow> memory system run" where
  "cpu_threads pick flag n programs sched \<equiv>
     run_threads flag (pool_alloc (cpu_alloc pick) cpu_free) (pool_free cpu_free) n sched (start_system programs no_memory)"

text \<open>C14. Threads that make and destroy handles at the same time do not disturb each other. Whatever the
  number of threads and what they do, in every schedule and for all choices of the C library, the only
  fault is the library's refusal of a block. Where the schedule ends, any two handles, of one thread or of
  two, have buffers that share no byte; if all handles have been destroyed, the engine's destructor frees
  every block there is; and unless every thread is done, one of them can move.\<close>

theorem concurrent_handles:
  "case snd (cpu_threads pick flag n programs sched) of
     Inl f \<Rightarrow> f = Indeterminate
   | Inr s \<Rightarrow>
       (\<forall>t < n. \<forall>u < n. \<forall>i < length (sys_handles s t). \<forall>j < length (sys_handles s u).
          (t, i) \<noteq> (u, j) \<longrightarrow> buffers_apart (sys_handles s t ! i) (sys_handles s u ! j)) \<and>
       ((\<forall>t < n. sys_handles s t = []) \<longrightarrow> (\<exists>m. destroy_engine cpu_free (sys_memory s) = return m \<and> blocks m = [])) \<and>
       ((\<forall>t < n. sys_program s t = []) \<or>
        (\<exists>t < n. thread_move flag (pool_alloc (cpu_alloc pick) cpu_free) (pool_free cpu_free) t s \<noteq> None))"
proof (cases "snd (cpu_threads pick flag n programs sched)")
  case (Inl f)
  with cpu_handles.run_threads_ok [OF start_system_ok [of flag n programs], where pick = pick and ts = sched] pool_alloc_fault show ?thesis by auto
next
  case (Inr s)
  with cpu_handles.run_threads_ok [OF start_system_ok [of flag n programs], where pick = pick and ts = sched]
  have ok: "cpu_handles.system_ok flag n s" by simp
  obtain a m where am: "sys_memory s = (a, m)" by (cases "sys_memory s")
  from ok am obtain hs where perm: "mset hs = mset (all_handles n (sys_handles s))" and hs: "handles_ok hs"
    "pool_inv live memory_ok (held hs) (get_cpu_allocator flag a, m)"
    by (auto simp: cpu_handles.system_ok_def cpu_handles.st_ok_def)
  have bufs: "mset (map handle_buf hs) = mset (map handle_buf (all_handles n (sys_handles s)))" using perm by simp
  then have d: "distinct (map handle_buf (all_handles n (sys_handles s)))"
    using hs(1) mset_eq_imp_distinct_iff [OF bufs] by (simp add: handles_ok_def)
  have "buffers_apart (sys_handles s t ! i) (sys_handles s u ! j)"
    if "t < n" "u < n" "i < length (sys_handles s t)" "j < length (sys_handles s u)" "(t, i) \<noteq> (u, j)" for t u i j
  proof (rule handle_bufs_apart [OF hs])
    show "handle_buf (sys_handles s t ! i) \<noteq> handle_buf (sys_handles s u ! j)"
      by (rule all_handles_distinct [OF d that])
  qed (use in_all_handles [of _ n _ "sys_handles s"] that mset_eq_setD [OF perm] in auto)
  moreover have "\<exists>m. destroy_engine cpu_free (sys_memory s) = return m \<and> blocks m = []" if "\<forall>t < n. sys_handles s t = []"
  proof -
    have "all_handles n (sys_handles s) = []" using that by (simp add: all_handles_def concat_eq_Nil_conv)
    with perm hs(2) engine_frees_all [of flag a m] am show ?thesis by simp
  qed
  moreover have "(\<forall>t < n. sys_program s t = []) \<or>
      (\<exists>t < n. thread_move flag (pool_alloc (cpu_alloc pick) cpu_free) (pool_free cpu_free) t s \<noteq> None)"
    using cpu_handles.system_progress [OF ok] by blast
  ultimately show ?thesis using Inr by simp
qed

text \<open>Two threads that both miss the pool, and then allocate from the same one.\<close>

lemma two_threads_run:
  "\<exists>s. snd (cpu_threads bump_choice 1024 2 (\<lambda>t. if t = 0 then [Make 100] else [Make 600])
      [0, 1, 0, 1, 1, 0, 0, 0, 0, 0, 1, 1, 1, 0, 1]) = Inr s \<and>
    sys_handles s 0 = [\<lparr>handle_size = 100, handle_alloc_size = 256, handle_buf = 65536\<rparr>] \<and>
    sys_handles s 1 = [\<lparr>handle_size = 600, handle_alloc_size = 1024, handle_buf = 131072\<rparr>]"
  by (simp add: thread_move_def start_system_def engine_turn_def call_done_def engine_move_def new_engine_def rw_init_def
      ReadLockGuard_def destroy_ReadLockGuard_def lock_shared_def lock_def unlock_def handle_run_defs)

theorem concurrent_handles_witness:
  "buffers_apart \<lparr>handle_size = 100, handle_alloc_size = 256, handle_buf = 65536\<rparr>
     \<lparr>handle_size = 600, handle_alloc_size = 1024, handle_buf = 131072\<rparr>"
proof -
  obtain s where s: "snd (cpu_threads bump_choice 1024 2 (\<lambda>t. if t = 0 then [Make 100] else [Make 600])
      [0, 1, 0, 1, 1, 0, 0, 0, 0, 0, 1, 1, 1, 0, 1]) = Inr s"
    "sys_handles s 0 = [\<lparr>handle_size = 100, handle_alloc_size = 256, handle_buf = 65536\<rparr>]"
    "sys_handles s 1 = [\<lparr>handle_size = 600, handle_alloc_size = 1024, handle_buf = 131072\<rparr>]"
    using two_threads_run by blast
  have "\<forall>t < 2. \<forall>u < 2. \<forall>i < length (sys_handles s t). \<forall>j < length (sys_handles s u).
      (t, i) \<noteq> (u, j) \<longrightarrow> buffers_apart (sys_handles s t ! i) (sys_handles s u ! j)"
    using concurrent_handles [where pick = bump_choice and flag = 1024 and n = 2 and
        programs = "\<lambda>t. if t = 0 then [Make 100] else [Make 600]" and
        sched = "[0, 1, 0, 1, 1, 0, 0, 0, 0, 0, 1, 1, 1, 0, 1]", unfolded s(1)] by simp
  from this [rule_format, of 0 1 0 0] s(2,3) show ?thesis by simp
qed

end
