(* ===== verification/ReadWriteBuffer.thy ===== *)
theory ReadWriteBuffer
  imports Prelude
begin

text \<open>
  core/ParameterServer.h, class \<open>ReadWriteBuffer\<close>: a vector of elements of a POD type, in which
  \<open>next_block\<close> hands out consecutive blocks that start at aligned elements. \<open>elem\<close> is \<open>sizeof(T)\<close> and
  \<open>align\<close> the template parameter \<open>AlignBytes\<close>; the state is the length of the vector and
  \<open>_current_offset\<close>, which has no value until \<open>reset_align_alloc\<close>. \<open>max_size\<close> is the length beyond which
  \<open>std::vector::resize\<close> throws.
\<close>

unbundle bit_operations_syntax

record rw_buffer =
  buffer_length :: u64
  current_offset :: "u64 option"

definition IsTLargerThanAlign :: "u64 \<Rightarrow> u64 \<Rightarrow> bool" where
  "IsTLargerThanAlign elem align \<longleftrightarrow> elem \<ge> align"

definition AlignElementCount :: "u64 \<Rightarrow> u64 \<Rightarrow> u64" where
  "AlignElementCount elem align = align div elem"

text \<open>The three \<open>static_assert\<close>s, without which the class does not compile.\<close>

definition static_asserts :: "bool \<Rightarrow> u64 \<Rightarrow> u64 \<Rightarrow> bool" where
  "static_asserts is_pod elem align \<longleftrightarrow>
     (elem mod align = 0 \<or> align mod elem = 0) \<and> is_pod \<and>
     (AlignElementCount elem align = (AlignElementCount elem align AND - AlignElementCount elem align) \<or> align > elem)"

definition new_rw_buffer :: rw_buffer where
  "new_rw_buffer = \<lparr>buffer_length = 0, current_offset = None\<rparr>"

text \<open>\<open>vector::resize\<close> throws above the library's limit \<open>max_size\<close>. That the allocation itself fails, for want
  of memory, is not modelled; it throws as well.\<close>

definition vector_resize_to :: "u64 \<Rightarrow> u64 \<Rightarrow> rw_buffer \<Rightarrow> rw_buffer run" where
  "vector_resize_to max_size n b = (if n \<le> max_size then return (b\<lparr>buffer_length := n\<rparr>) else fail Exception)"

definition resize_with_align_hints :: "u64 \<Rightarrow> u64 \<Rightarrow> u64 \<Rightarrow> u64 \<Rightarrow> u64 \<Rightarrow> rw_buffer \<Rightarrow> rw_buffer run" where
  "resize_with_align_hints max_size elem align n align_block_count b =
     (if IsTLargerThanAlign elem align then vector_resize_to max_size n b
      else vector_resize_to max_size (n + align_block_count * (AlignElementCount elem align - 1)) b)"

definition reset_align_alloc :: "rw_buffer \<Rightarrow> rw_buffer" where
  "reset_align_alloc b = b\<lparr>current_offset := Some 0\<rparr>"

text \<open>The block is returned as the index of its first element; \<open>operator[]\<close> is only defined below the
  length.\<close>

definition next_block :: "u64 \<Rightarrow> u64 \<Rightarrow> u64 \<Rightarrow> rw_buffer \<Rightarrow> (u64 \<times> rw_buffer) run" where
  "next_block elem align block_size b =
     (case current_offset b of
        None \<Rightarrow> fail Indeterminate
      | Some r \<Rightarrow>
          if r < buffer_length b
          then (let offset = r + block_size;
                    offset' = (if \<not> IsTLargerThanAlign elem align
                      then (offset + AlignElementCount elem align - 1) AND NOT (AlignElementCount elem align - 1)
                      else offset)
                in return (r, b\<lparr>current_offset := Some offset'\<rparr>))
          else fail OutOfBounds)"

text \<open>A caller that takes blocks of the sizes \<open>ns\<close>, one after the other.\<close>

fun take_blocks :: "u64 \<Rightarrow> u64 \<Rightarrow> u64 list \<Rightarrow> rw_buffer \<Rightarrow> (u64 list \<times> rw_buffer) run" where
  "take_blocks elem align [] b = return ([], b)"
| "take_blocks elem align (n # ns) b =
     bind (next_block elem align n b) (\<lambda>(r, b').
     bind (take_blocks elem align ns b') (\<lambda>(rs, b''). return (r # rs, b'')))"

section \<open>Blocks are aligned and do not overlap\<close>

text \<open>The blocks of sizes \<open>ns\<close> at \<open>rs\<close> lie one after the other between \<open>lo\<close> and \<open>hi\<close>, each at a multiple
  of \<open>unit\<close>.\<close>

fun laid_out :: "nat \<Rightarrow> nat \<Rightarrow> nat \<Rightarrow> u64 list \<Rightarrow> u64 list \<Rightarrow> bool" where
  "laid_out unit lo hi [] [] \<longleftrightarrow> True"
| "laid_out unit lo hi (r # rs) (n # ns) \<longleftrightarrow>
     unit dvd unat r \<and> lo \<le> unat r \<and> unat r + unat n \<le> hi \<and> laid_out unit (unat r + unat n) hi rs ns"
| "laid_out unit lo hi _ _ \<longleftrightarrow> False"

lemma laid_out_mono: "laid_out unit lo hi rs ns \<Longrightarrow> lo' \<le> lo \<Longrightarrow> laid_out unit lo' hi rs ns"
  by (cases "(unit, lo, hi, rs, ns)" rule: laid_out.cases) auto

lemma laid_out_apart:
  "laid_out unit lo hi rs ns \<Longrightarrow> i < length rs \<Longrightarrow>
   unit dvd unat (rs ! i) \<and> lo \<le> unat (rs ! i) \<and> unat (rs ! i) + unat (ns ! i) \<le> hi \<and>
   (\<forall>j. i < j \<longrightarrow> j < length rs \<longrightarrow> unat (rs ! i) + unat (ns ! i) \<le> unat (rs ! j))"
proof (induction unit lo hi rs ns arbitrary: i rule: laid_out.induct)
  case (2 unit lo hi r rs n ns)
  show ?case
  proof (cases i)
    case 0
    have "unat r + unat n \<le> unat (rs ! j)" if "j < length rs" for j
      using 2 that by auto
    with 0 2(2) show ?thesis by (auto simp: nth_Cons split: nat.split)
  next
    case (Suc k)
    with 2 have "unit dvd unat (rs ! k) \<and> unat r + unat n \<le> unat (rs ! k) \<and> unat (rs ! k) + unat (ns ! k) \<le> hi \<and>
      (\<forall>j. k < j \<longrightarrow> j < length rs \<longrightarrow> unat (rs ! k) + unat (ns ! k) \<le> unat (rs ! j))" by simp
    with Suc 2(2) show ?thesis by (auto simp: nth_Cons split: nat.split)
  qed
qed simp_all

lemma laid_out_length: "laid_out unit lo hi rs ns \<Longrightarrow> length rs = length ns"
  by (induction unit lo hi rs ns rule: laid_out.induct) simp_all

lemma next_block_aligned:
  assumes "elem < align" "AlignElementCount elem align = 2 ^ k" "k < 64" "current_offset b = Some r"
    "r < buffer_length b" "unat r + unat n + (2 ^ k - 1) < 2 ^ 64"
  obtains r' where "next_block elem align n b = return (r, b\<lparr>current_offset := Some r'\<rparr>)" "2 ^ k dvd unat r'"
    "unat r + unat n \<le> unat r'" "unat r' \<le> unat r + unat n + (2 ^ k - 1)"
proof -
  let ?r' = "(r + n + mask k) AND NOT (mask k)"
  have add: "unat (r + n) = unat r + unat n" by (rule unat_add_u64) (use assms(6) in linarith)
  have u: "unat ?r' = (unat r + unat n + (2 ^ k - 1)) div 2 ^ k * 2 ^ k"
    using unat_round_up [OF assms(3), of "r + n"] assms(6) unfolding add by simp
  have "next_block elem align n b = return (r, b\<lparr>current_offset := Some ?r'\<rparr>)"
    using assms(1,2,4,5)
    by (simp add: next_block_def IsTLargerThanAlign_def Let_def not_le mask_eq_exp_minus_1 add_diff_eq)
  moreover have "2 ^ k dvd unat ?r'" unfolding u by simp
  ultimately show ?thesis
    using round_up_bounds [of "unat r + unat n" k] unfolding u [symmetric] by (intro that) simp_all
qed

lemma take_blocks_laid_out:
  assumes "elem < align" "AlignElementCount elem align = 2 ^ k" "k < 64"
  shows "current_offset b = Some r \<Longrightarrow> 2 ^ k dvd unat r \<Longrightarrow> \<forall>n \<in> set ns. 0 < n \<Longrightarrow>
    unat r + (\<Sum>n \<leftarrow> ns. unat n) + length ns * (2 ^ k - 1) \<le> unat (buffer_length b) \<Longrightarrow>
    \<exists>rs b'. take_blocks elem align ns b = return (rs, b') \<and>
      laid_out (2 ^ k) (unat r) (unat (buffer_length b)) rs ns"
proof (induction ns arbitrary: r b)
  case Nil
  then show ?case by simp
next
  case (Cons n ns)
  have "0 < unat n" using Cons.prems(3) by (simp add: word_less_nat_alt)
  moreover have "unat (buffer_length b) < 2 ^ 64" by (rule unat_u64_less)
  ultimately have "r < buffer_length b" "unat r + unat n + (2 ^ k - 1) < 2 ^ 64"
    using Cons.prems(4) by (auto simp: word_less_nat_alt)
  from next_block_aligned [OF assms Cons.prems(1) this] obtain r' where
    r': "next_block elem align n b = return (r, b\<lparr>current_offset := Some r'\<rparr>)" "2 ^ k dvd unat r'"
    "unat r + unat n \<le> unat r'" "unat r' \<le> unat r + unat n + (2 ^ k - 1)" .
  from r'(4) Cons.prems(4) have
    "unat r' + (\<Sum>n \<leftarrow> ns. unat n) + length ns * (2 ^ k - 1) \<le> unat (buffer_length b)" by simp
  with Cons.IH [of "b\<lparr>current_offset := Some r'\<rparr>" r'] r'(2) Cons.prems(3) obtain rs b' where
    "take_blocks elem align ns (b\<lparr>current_offset := Some r'\<rparr>) = return (rs, b')"
    "laid_out (2 ^ k) (unat r') (unat (buffer_length b)) rs ns" by auto
  moreover from this(2) have "laid_out (2 ^ k) (unat r + unat n) (unat (buffer_length b)) rs ns"
    using r'(3) by (rule laid_out_mono)
  ultimately show ?case using r'(1) Cons.prems(2,4) by simp
qed

text \<open>C38. A buffer resized with \<open>resize_with_align_hints\<close> for a total size and a number of blocks holds
  these blocks, whatever their sizes: \<open>next_block\<close> never runs past the buffer, every block starts at a
  multiple of the alignment and ends inside the buffer, and no two blocks overlap. The number of
  elements per alignment unit is a power of two, blocks are not empty, and the padded size is within the
  limit of a vector.\<close>

theorem blocks_aligned_and_disjoint:
  assumes "elem < align" "AlignElementCount elem align = 2 ^ k" "k < 64"
    "\<forall>n \<in> set ns. 0 < n" "(\<Sum>n \<leftarrow> ns. unat n) + length ns * (2 ^ k - 1) \<le> unat max_size"
  shows "\<exists>b rs b'. resize_with_align_hints max_size elem align (\<Sum>n \<leftarrow> ns. n) (of_nat (length ns)) new_rw_buffer = return b \<and>
    take_blocks elem align ns (reset_align_alloc b) = return (rs, b') \<and> length rs = length ns \<and>
    (\<forall>i < length rs. 2 ^ k dvd unat (rs ! i) \<and> unat (rs ! i) + unat (ns ! i) \<le> unat (buffer_length b) \<and>
      (\<forall>j < length rs. i < j \<longrightarrow> unat (rs ! i) + unat (ns ! i) \<le> unat (rs ! j)))"
proof -
  have bound: "(\<Sum>n \<leftarrow> ns. unat n) + length ns * (2 ^ k - 1) < 2 ^ 64"
    using assms(5) unat_u64_less [of max_size] by linarith
  have sum: "(\<Sum>n \<leftarrow> ns. unat n) < 2 ^ 64 \<Longrightarrow> unat (\<Sum>n \<leftarrow> ns. n) = (\<Sum>n \<leftarrow> ns. unat n)"
    by (induction ns) (simp_all add: unat_add_u64)
  have pad: "unat (of_nat (length ns) * (2 ^ k - 1) :: u64) = length ns * (2 ^ k - 1)"
  proof (cases "k = 0")
    case False
    then have "1 \<le> (2 :: nat) ^ k - 1" using one_less_power [of "2 :: nat" k] by simp
    then have "length ns * 1 \<le> length ns * (2 ^ k - 1)" by (rule mult_le_mono2)
    then have l: "unat (of_nat (length ns) :: u64) = length ns" using bound by (intro unat_of_nat_u64) linarith
    have m: "unat (2 ^ k - 1 :: u64) = 2 ^ k - 1" using unat_mask_u64 [OF assms(3)] by (simp add: mask_eq_exp_minus_1)
    have "unat (of_nat (length ns) :: u64) * unat (2 ^ k - 1 :: u64) < 2 ^ 64" unfolding l m using bound by linarith
    then show ?thesis by (simp only: unat_mult_u64 l m)
  qed simp
  let ?L = "(\<Sum>n \<leftarrow> ns. n) + of_nat (length ns) * (2 ^ k - 1)"
  have L: "unat ?L = (\<Sum>n \<leftarrow> ns. unat n) + length ns * (2 ^ k - 1)"
    using bound sum pad by (subst unat_add_u64) linarith+
  have r: "resize_with_align_hints max_size elem align (\<Sum>n \<leftarrow> ns. n) (of_nat (length ns)) new_rw_buffer =
      return \<lparr>buffer_length = ?L, current_offset = None\<rparr>"
  proof -
    have "?L \<le> max_size" unfolding word_le_nat_alt L by (rule assms(5))
    moreover have "\<not> align \<le> elem" using assms(1) by simp
    ultimately show ?thesis using assms(2)
      by (simp add: resize_with_align_hints_def IsTLargerThanAlign_def vector_resize_to_def new_rw_buffer_def)
  qed
  obtain rs b' where t: "take_blocks elem align ns (reset_align_alloc \<lparr>buffer_length = ?L, current_offset = None\<rparr>) = return (rs, b')"
    "laid_out (2 ^ k) 0 (unat ?L) rs ns"
    using take_blocks_laid_out [OF assms(1-3), of "reset_align_alloc \<lparr>buffer_length = ?L, current_offset = None\<rparr>" 0 ns]
      assms(4) L by (auto simp: reset_align_alloc_def)
  have "\<forall>i < length rs. 2 ^ k dvd unat (rs ! i) \<and> unat (rs ! i) + unat (ns ! i) \<le> unat ?L \<and>
      (\<forall>j < length rs. i < j \<longrightarrow> unat (rs ! i) + unat (ns ! i) \<le> unat (rs ! j))"
    using laid_out_apart [OF t(2)] by blast
  with r t(1) laid_out_length [OF t(2)] show ?thesis
    by (intro exI [of _ "\<lparr>buffer_length = ?L, current_offset = None\<rparr>"] exI [of _ rs] exI [of _ b']) simp
qed

theorem blocks_aligned_and_disjoint_witness:
  "\<exists>b rs b'. resize_with_align_hints 1000 4 32 8 2 new_rw_buffer = return b \<and>
    take_blocks 4 32 [3, 5] (reset_align_alloc b) = return (rs, b') \<and> length rs = 2"
  using blocks_aligned_and_disjoint [of 4 32 3 "[3, 5]" 1000]
  by (auto simp: AlignElementCount_def)

text \<open>The third \<open>static_assert\<close> asks for a power of two or for \<open>AlignBytes > sizeof(T)\<close>, where it
  should ask for both: with 48 and 16 bytes there are three elements per unit, the class compiles, and
  the second block is not aligned.\<close>

lemma static_assert_too_weak:
  "static_asserts True 16 48 \<and> AlignElementCount 16 48 = 3 \<and>
   next_block 16 48 1 \<lparr>buffer_length = 9, current_offset = Some 0\<rparr> =
     return (0, \<lparr>buffer_length = 9, current_offset = Some 1\<rparr>)"
  by (simp add: static_asserts_def AlignElementCount_def next_block_def IsTLargerThanAlign_def)

text \<open>A buffer that was only resized has no offset yet.\<close>

lemma next_block_before_reset:
  assumes "resize_with_align_hints max_size elem align n k new_rw_buffer = return b"
  shows "next_block elem align m b = fail Indeterminate"
proof -
  have "current_offset b = None"
    using assms by (auto simp: resize_with_align_hints_def vector_resize_to_def new_rw_buffer_def split: if_splits)
  then show ?thesis by (simp add: next_block_def)
qed

end
