(* ===== verification/ParameterServer.thy ===== *)
theory ParameterServer
  imports LightServer StringUtils UtilInit ReadWriteBuffer
begin

text \<open>
  core/ParameterServer.h and ParameterServerMain.cpp: the look-ups of the parameter server that have a
  body, and the program that starts one server per port and network device. Most of the class is
  declared without a body, over types the repository does not declare; these parts are not modelled.
  An \<open>int64_t\<close> is a 64-bit word read with \<open>sint\<close>. A \<open>ParameterConfig\<close> is an abstract value. The
  member functions \<open>is_valid_*_handle\<close> read \<open>_vectors\<close> and \<open>_matrices\<close>, which the class does not
  declare; only their sizes matter.
\<close>

section \<open>Look-ups\<close>

type_synonym block_key = "u64 \<times> u64"

definition BlockKeyHash :: "(u64 \<Rightarrow> u64) \<Rightarrow> block_key \<Rightarrow> u64" where
  "BlockKeyHash std_hash key = std_hash (fst key) + snd key"

record 'config parameter_server =
  block_id_map :: "block_key \<rightharpoonup> u64"
  config_map :: "u64 \<rightharpoonup> 'config"
  block_infos :: "'config option list"   \<comment> \<open>the member \<open>config\<close> of each \<open>BlockInfo\<close>: a pointer\<close>
  vectors_size :: u64
  matrices_size :: u64

record parameter_block =
  para_id :: u64
  block_id :: u64

text \<open>The failed check on the iterator does not stop the function, which then dereferences \<open>end()\<close>.\<close>

definition get_parameter_config :: "'config parameter_server \<Rightarrow> parameter_block \<Rightarrow> 'config run" where
  "get_parameter_config ps block =
     bind (cc_check (''Check failed:(block.para_id()) < (-1UL) invalid parameter id:'' @ show_nat (unat (para_id block)))
       (para_id block < - 1)) (\<lambda>_.
     bind (cc_check (''Check failed:it != _config_map.end() cannot find parameter id:'' @ show_nat (unat (para_id block)))
       (config_map ps (para_id block) \<noteq> None)) (\<lambda>_.
     case config_map ps (para_id block) of
       None \<Rightarrow> fail OutOfBounds
     | Some c \<Rightarrow> return c))"

definition get_parameter_config_at :: "'config parameter_server \<Rightarrow> u64 \<Rightarrow> 'config run" where
  "get_parameter_config_at ps bid =
     bind (cc_check (''Check failed:block_id >= 0 && block_id < (int64_t)_block_infos.size() block idx out of range, id:'' @
         show_int (sint bid) @ '' info size:'' @ show_nat (length (block_infos ps)))
       (0 \<le> sint bid \<and> sint bid < int (length (block_infos ps)))) (\<lambda>_.
     if unat bid < length (block_infos ps)
     then (case block_infos ps ! unat bid of None \<Rightarrow> fail NullDeref | Some c \<Rightarrow> return c)
     else fail OutOfBounds)"

text \<open>The result and the return message the response is given, if any.\<close>

definition is_valid_vector_handle :: "string \<Rightarrow> 'config parameter_server \<Rightarrow> u64 \<Rightarrow> (bool \<times> string option) run" where
  "is_valid_vector_handle k_retmsg_invalid_vector_handle ps handle =
     (if sint handle < 0 \<or> handle \<ge> vectors_size ps
      then bind (log_msg ERROR (''Invalid vector handle '' @ show_int (sint handle))) (\<lambda>_.
             return (False, Some k_retmsg_invalid_vector_handle))
      else return (True, None))"

definition is_valid_matrix_handle :: "string \<Rightarrow> 'config parameter_server \<Rightarrow> u64 \<Rightarrow> (bool \<times> string option) run" where
  "is_valid_matrix_handle k_retmsg_invalid_matrix_handle ps handle =
     (if sint handle < 0 \<or> handle \<ge> matrices_size ps
      then bind (log_msg ERROR (''Invalid matrix handle '' @ show_int (sint handle))) (\<lambda>_.
             return (False, Some k_retmsg_invalid_matrix_handle))
      else return (True, None))"

definition get_block_id :: "'config parameter_server \<Rightarrow> parameter_block \<Rightarrow> u64" where
  "get_block_id ps block =
     (case block_id_map ps (para_id block, block_id block) of
        None \<Rightarrow> - 1
      | Some i \<Rightarrow> i)"

section \<open>The program\<close>

text \<open>
  A started server is its address and port. \<open>init\<close> is \<open>ParameterServer::init\<close>, which has no body in the
  repository. Signed overflow of an \<open>int\<close> is a fault.
\<close>

type_synonym started = "(string \<times> int) option list"

definition int_add :: "int \<Rightarrow> int \<Rightarrow> int run" where
  "int_add x y = (if - (2 ^ 31) \<le> x + y \<and> x + y < 2 ^ 31 then return (x + y) else fail Indeterminate)"

text \<open>\<open>pservers.resize(n)\<close> with an \<open>int\<close> converted to \<open>size_t\<close>; \<open>max_size\<close> is the library's limit.\<close>

definition resize_pservers :: "nat \<Rightarrow> int \<Rightarrow> started run" where
  "resize_pservers max_size n =
     (if nat (n mod 2 ^ 64) \<le> max_size then return (replicate (nat (n mod 2 ^ 64)) None) else fail Exception)"

text \<open>\<open>reset(new ParameterServer(addr, port))\<close>, the check of \<open>init\<close>, and \<open>start\<close>; \<open>what\<close> is how the messages name it.\<close>

definition start_server :: "(string \<Rightarrow> int \<Rightarrow> bool) \<Rightarrow> string \<Rightarrow> string \<Rightarrow> string \<Rightarrow> nat \<Rightarrow> string \<Rightarrow> int \<Rightarrow> started \<Rightarrow> started run" where
  "start_server init checked failing what slot addr port pservers =
     (if slot < length pservers
      then bind (cc_check (''Check failed:'' @ checked @ '' Fail to initialize parameter server '' @ failing) (init addr port)) (\<lambda>_.
           bind (log_msg INFO what) (\<lambda>_. return (pservers[slot := Some (addr, port)])))
      else fail OutOfBounds)"

fun start_ports :: "(string \<Rightarrow> int \<Rightarrow> bool) \<Rightarrow> int \<Rightarrow> nat list \<Rightarrow> started \<Rightarrow> started run" where
  "start_ports init FLAGS_port [] pservers = return pservers"
| "start_ports init FLAGS_port (i # is) pservers =
     bind (int_add FLAGS_port (int i)) (\<lambda>port.
     bind (start_server init ''pservers[i]->init()'' (show_int port) (''pserver started: '' @ show_int port)
       i [] port pservers) (\<lambda>pservers'.
     start_ports init FLAGS_port is pservers'))"

text \<open>The inner loop over the devices: the address is that of \<open>devices[i]\<close>, not of \<open>devices[j]\<close>.\<close>

fun start_devices :: "(string \<Rightarrow> int \<Rightarrow> bool) \<Rightarrow> (string \<Rightarrow> string run) \<Rightarrow> int \<Rightarrow> string list \<Rightarrow> nat \<Rightarrow> nat list \<Rightarrow> started
    \<Rightarrow> started run" where
  "start_devices init get_ip FLAGS_port devices i [] pservers = return pservers"
| "start_devices init get_ip FLAGS_port devices i (j # js) pservers =
     bind (if i < length devices then get_ip (devices ! i) else fail OutOfBounds) (\<lambda>addr.
     bind (int_add FLAGS_port (int i)) (\<lambda>port.
     bind (start_server init ''pservers[i * devices.size() + j]->init()'' (devices ! j @ show_int port)
       (''pserver started:'' @ devices ! j @ '':'' @ show_int port)
       (i * length devices + j) addr port pservers) (\<lambda>pservers'.
     start_devices init get_ip FLAGS_port devices i js pservers')))"

fun start_nics :: "(string \<Rightarrow> int \<Rightarrow> bool) \<Rightarrow> (string \<Rightarrow> string run) \<Rightarrow> int \<Rightarrow> string list \<Rightarrow> nat list \<Rightarrow> started \<Rightarrow> started run" where
  "start_nics init get_ip FLAGS_port devices [] pservers = return pservers"
| "start_nics init get_ip FLAGS_port devices (i # is) pservers =
     bind (start_devices init get_ip FLAGS_port devices i [0..<length devices] pservers) (\<lambda>pservers'.
     start_nics init get_ip FLAGS_port devices is pservers')"

definition join_all :: "started \<Rightarrow> (string \<times> int) list run" where
  "join_all pservers = (if None \<in> set pservers then fail NullDeref else return (map the pservers))"

text \<open>\<open>main\<close>, with \<open>init_main\<close> already applied to its arguments. \<open>get_ip\<close> stands for \<open>get_ip_addr sockfd ioctl\<close>
  of LightServer with what the system calls answer, which may change between calls. It returns \<open>0\<close> once every server's
  thread has ended; the model gives the servers it waits for.\<close>

definition pserver_main :: "'x run \<Rightarrow> (string \<Rightarrow> int \<Rightarrow> bool) \<Rightarrow> (string \<Rightarrow> string run) \<Rightarrow> nat \<Rightarrow> int \<Rightarrow> int \<Rightarrow> int \<Rightarrow> string
    \<Rightarrow> (string \<times> int) list run" where
  "pserver_main initialised init get_ip max_size FLAGS_num_ports FLAGS_num_ports_for_sparse FLAGS_port FLAGS_nics =
     bind initialised (\<lambda>_.
     bind (int_add FLAGS_num_ports FLAGS_num_ports_for_sparse) (\<lambda>num_ports.
     bind (if FLAGS_nics = []
           then bind (resize_pservers max_size num_ports) (start_ports init FLAGS_port [0..<nat num_ports])
           else (let devices = split FLAGS_nics (CHR '','') [] in
                 bind (resize_pservers max_size (int (length devices) * num_ports))
                   (start_nics init get_ip FLAGS_port devices [0..<nat num_ports]))) (\<lambda>pservers.
     join_all pservers)))"

section \<open>What the look-ups promise\<close>

text \<open>The guards of the parameter server. A handle is accepted exactly when it is an index of the
  vector (of the matrices), and otherwise logged and answered with the return message; no check is
  needed after it. The configuration look-ups have no such guard: an unknown parameter, or a block
  index out of range, is logged and then used all the same, which is undefined behaviour.\<close>

theorem handle_checks_and_config_faults:
  assumes "vectors_size ps < 2 ^ 63" "matrices_size ps < 2 ^ 63" "length (block_infos ps) < 2 ^ 63"
  shows "run_value (is_valid_vector_handle msg ps h) =
      (if 0 \<le> sint h \<and> nat (sint h) < unat (vectors_size ps) then Inr (True, None) else Inr (False, Some msg)) \<and>
    run_value (is_valid_matrix_handle msg ps h) =
      (if 0 \<le> sint h \<and> nat (sint h) < unat (matrices_size ps) then Inr (True, None) else Inr (False, Some msg)) \<and>
    (config_map ps (para_id block) = None \<longrightarrow>
      run_log (get_parameter_config ps block) \<noteq> [] \<and> run_value (get_parameter_config ps block) = Inl OutOfBounds) \<and>
    (\<not> (0 \<le> sint b \<and> sint b < int (length (block_infos ps))) \<longrightarrow>
      run_log (get_parameter_config_at ps b) \<noteq> [] \<and> run_value (get_parameter_config_at ps b) = Inl OutOfBounds)"
proof (intro conjI)
  have small: "unat (vectors_size ps) < 2 ^ 63" "unat (matrices_size ps) < 2 ^ 63"
    using assms(1,2) by (simp_all add: word_less_nat_alt)
  have guard: "(sint h < 0 \<or> n \<le> h) = (\<not> (0 \<le> sint h \<and> nat (sint h) < unat n))" if "unat n < 2 ^ 63" for n :: u64
    using sint_index_u64 [OF that, of h] sint_index_u64(1) [of "unat h + 1" h] that unat_u64_less [of h]
    by (auto simp: word_le_nat_alt not_less)
  show "run_value (is_valid_vector_handle msg ps h) =
      (if 0 \<le> sint h \<and> nat (sint h) < unat (vectors_size ps) then Inr (True, None) else Inr (False, Some msg))"
    unfolding is_valid_vector_handle_def guard [OF small(1)] by (simp add: run_value_def)
  show "run_value (is_valid_matrix_handle msg ps h) =
      (if 0 \<le> sint h \<and> nat (sint h) < unat (matrices_size ps) then Inr (True, None) else Inr (False, Some msg))"
    unfolding is_valid_matrix_handle_def guard [OF small(2)] by (simp add: run_value_def)
  show "config_map ps (para_id block) = None \<longrightarrow>
      run_log (get_parameter_config ps block) \<noteq> [] \<and> run_value (get_parameter_config ps block) = Inl OutOfBounds"
    by (simp add: get_parameter_config_def run_log_def run_value_def)
  show "\<not> (0 \<le> sint b \<and> sint b < int (length (block_infos ps))) \<longrightarrow>
      run_log (get_parameter_config_at ps b) \<noteq> [] \<and> run_value (get_parameter_config_at ps b) = Inl OutOfBounds"
    unfolding get_parameter_config_at_def sint_index_u64 [OF assms(3)]
    by (simp add: run_log_def run_value_def)
qed

theorem handle_checks_and_config_faults_witness:
  "run_value (is_valid_vector_handle ''invalid''
      \<lparr>block_id_map = Map.empty, config_map = Map.empty, block_infos = [Some (7 :: nat)], vectors_size = 3, matrices_size = 0\<rparr> 2) =
      Inr (True, None) \<and>
   run_value (get_parameter_config_at
      \<lparr>block_id_map = Map.empty, config_map = Map.empty, block_infos = [Some (7 :: nat)], vectors_size = 3, matrices_size = 0\<rparr> 1) =
      Inl OutOfBounds"
  using handle_checks_and_config_faults [of "\<lparr>block_id_map = Map.empty, config_map = Map.empty,
      block_infos = [Some (7 :: nat)], vectors_size = 3, matrices_size = 0\<rparr>" "''invalid''" 2 "\<lparr>para_id = 0, block_id = 0\<rparr>" 1]
  by simp

text \<open>Both look-ups return the entry for what the maps hold.\<close>

lemma get_parameter_config_found:
  "config_map ps (para_id block) = Some c \<Longrightarrow> para_id block < - 1 \<Longrightarrow> get_parameter_config ps block = return c"
  by (simp add: get_parameter_config_def)

lemma get_block_id_found:
  "block_id_map ps (para_id block, block_id block) = Some i \<Longrightarrow> get_block_id ps block = i"
  "block_id_map ps (para_id block, block_id block) = None \<Longrightarrow> sint (get_block_id ps block) = - 1"
  by (simp_all add: get_block_id_def)

section \<open>The servers the program starts\<close>

text \<open>The first \<open>k\<close> of \<open>n\<close> slots filled with \<open>g\<close>.\<close>

definition filled :: "(nat \<Rightarrow> string \<times> int) \<Rightarrow> nat \<Rightarrow> nat \<Rightarrow> started" where
  "filled g k n = map (\<lambda>i. Some (g i)) [0..<k] @ replicate (n - k) None"

lemma filled_0: "filled g 0 n = replicate n None"
  by (simp add: filled_def)

lemma filled_length: "k \<le> n \<Longrightarrow> length (filled g k n) = n"
  by (simp add: filled_def)

lemma filled_update: "k < n \<Longrightarrow> (filled g k n)[k := Some (g k)] = filled g (Suc k) n"
  by (simp add: filled_def list_update_append Suc_diff_Suc [symmetric] del: replicate_Suc) simp

lemma join_filled: "join_all (filled g n n) = return (map g [0..<n])"
  by (auto simp: join_all_def filled_def comp_def)

lemma start_server_value:
  "k < n \<Longrightarrow> snd (start_server init checked failing what k addr port (filled g k n)) =
    Inr ((filled g k n)[k := Some (addr, port)])"
  by (simp add: start_server_def filled_length)

lemma int_add_value: "- (2 ^ 31) \<le> x + y \<Longrightarrow> x + y < 2 ^ 31 \<Longrightarrow> int_add x y = return (x + y)"
  by (simp add: int_add_def)

lemma start_ports_value:
  assumes "0 \<le> P" "P + int n \<le> 2 ^ 31" "k \<le> n"
  shows "snd (start_ports init P [k..<n] (filled (\<lambda>i. ([], P + int i)) k n)) = Inr (filled (\<lambda>i. ([], P + int i)) n n)"
  using assms(3)
proof (induction "n - k" arbitrary: k)
  case 0
  then show ?case by simp
next
  case (Suc m)
  then have k: "k < n" "[k..<n] = k # [Suc k..<n]" by (simp_all add: upt_conv_Cons)
  have "int_add P (int k) = return (P + int k)" using assms(1,2) k(1) by (intro int_add_value) simp_all
  with k filled_update [OF k(1), of "\<lambda>i. ([], P + int i)"] Suc.hyps(1) [of "Suc k"] Suc.hyps(2) show ?case
    by (simp add: snd_bind_Inr start_server_value)
qed

text \<open>What the loop logs for server number \<open>i\<close>.\<close>

definition start_messages :: "(string \<Rightarrow> int \<Rightarrow> bool) \<Rightarrow> int \<Rightarrow> nat \<Rightarrow> log_record list" where
  "start_messages init P i =
     (if init [] (P + int i) then []
      else [LogRecord FATAL (''Check failed:pservers[i]->init() Fail to initialize parameter server '' @ show_int (P + int i))]) @
     [LogRecord INFO (''pserver started: '' @ show_int (P + int i))]"

lemma start_ports_log:
  assumes "0 \<le> P" "P + int n \<le> 2 ^ 31" "k \<le> n"
  shows "fst (start_ports init P [k..<n] (filled (\<lambda>i. ([], P + int i)) k n)) = concat (map (start_messages init P) [k..<n])"
  using assms(3)
proof (induction "n - k" arbitrary: k)
  case 0
  then show ?case by (simp add: return_def)
next
  case (Suc m)
  then have k: "k < n" "[k..<n] = k # [Suc k..<n]" by (simp_all add: upt_conv_Cons)
  have "int_add P (int k) = return (P + int k)" using assms(1,2) k(1) by (intro int_add_value) simp_all
  moreover have "start_server init ''pservers[i]->init()'' (show_int (P + int k)) (''pserver started: '' @ show_int (P + int k))
      k [] (P + int k) (filled (\<lambda>i. ([], P + int i)) k n) =
    (start_messages init P k, Inr (filled (\<lambda>i. ([], P + int i)) (Suc k) n))"
    using k(1) filled_update [OF k(1), of "\<lambda>i. ([], P + int i)"]
    by (simp add: start_server_def filled_length start_messages_def cc_check_def log_msg_def bind_Inr return_def)
  moreover have "fst (start_ports init P [Suc k..<n] (filled (\<lambda>i. ([], P + int i)) (Suc k) n)) =
      concat (map (start_messages init P) [Suc k..<n])"
    using Suc.hyps k(1) by simp
  ultimately show ?case using k(2)
    by (cases "start_ports init P [Suc k..<n] (filled (\<lambda>i. ([], P + int i)) (Suc k) n)") (simp add: bind_Inr)
qed

text \<open>With devices, server number \<open>m\<close> is at the address of device \<open>m div d\<close>, for \<open>d\<close> devices.\<close>

definition device_server :: "(nat \<Rightarrow> string) \<Rightarrow> int \<Rightarrow> nat \<Rightarrow> nat \<Rightarrow> string \<times> int" where
  "device_server addr P d m = (addr (m div d), P + int (m div d))"

lemma device_server_slot: "j < d \<Longrightarrow> device_server addr P d (i * d + j) = (addr i, P + int i)"
  by (simp add: device_server_def)

lemma slot_less: "i < p \<Longrightarrow> j < d \<Longrightarrow> i * d + j < p * (d :: nat)"
  by (metis add.commute add_less_cancel_left less_le_trans mult.commute mult_Suc_right mult_le_mono2 Suc_leI)

lemma start_devices_value:
  assumes get_ip: "snd (get_ip (devices ! i)) = Inr (addr i)" and i: "i < length devices" "i < p"
    and port: "0 \<le> P" "P + int i < 2 ^ 31" and j: "j \<le> length devices"
  shows "snd (start_devices init get_ip P devices i [j..<length devices]
      (filled (device_server addr P (length devices)) (i * length devices + j) (p * length devices))) =
    Inr (filled (device_server addr P (length devices)) (Suc i * length devices) (p * length devices))"
  using j
proof (induction "length devices - j" arbitrary: j)
  case 0
  then show ?case by (simp add: add.commute)
next
  case (Suc m)
  then have j: "j < length devices" "[j..<length devices] = j # [Suc j..<length devices]" by (simp_all add: upt_conv_Cons)
  have "int_add P (int i) = return (P + int i)" using port by (intro int_add_value) simp_all
  moreover have "(filled (device_server addr P (length devices)) (i * length devices + j) (p * length devices))
      [i * length devices + j := Some (addr i, P + int i)] =
    filled (device_server addr P (length devices)) (Suc (i * length devices + j)) (p * length devices)"
    using filled_update [OF slot_less [OF i(2) j(1)], of "device_server addr P (length devices)"]
    by (simp add: device_server_slot [OF j(1)])
  ultimately show ?case using Suc.hyps(1) [of "Suc j"] Suc.hyps(2) j get_ip i(1)
    by (simp add: snd_bind_Inr start_server_value slot_less [OF i(2) j(1)])
qed

lemma start_devices_outside:
  "length devices \<le> i \<Longrightarrow> devices \<noteq> [] \<Longrightarrow>
    snd (start_devices init get_ip P devices i [0..<length devices] pservers) = Inl OutOfBounds"
  by (simp add: upt_conv_Cons snd_bind_Inl)

lemma start_nics_value:
  assumes "\<And>i. i < length devices \<Longrightarrow> snd (get_ip (devices ! i)) = Inr (addr i)" "0 \<le> P" "P + int p \<le> 2 ^ 31"
    and "devices \<noteq> []" "i \<le> p" "i \<le> length devices"
  shows "snd (start_nics init get_ip P devices [i..<p]
      (filled (device_server addr P (length devices)) (i * length devices) (p * length devices))) =
    (if p \<le> length devices then Inr (filled (device_server addr P (length devices)) (p * length devices) (p * length devices))
     else Inl OutOfBounds)"
  using assms(5,6)
proof (induction "p - i" arbitrary: i)
  case 0
  then show ?case by simp
next
  case (Suc m)
  then have i: "i < p" "[i..<p] = i # [Suc i..<p]" by (simp_all add: upt_conv_Cons)
  show ?case
  proof (cases "i < length devices")
    case True
    have "snd (start_devices init get_ip P devices i [0..<length devices]
        (filled (device_server addr P (length devices)) (i * length devices + 0) (p * length devices))) =
      Inr (filled (device_server addr P (length devices)) (Suc i * length devices) (p * length devices))"
      by (rule start_devices_value) (use i(1) True assms in auto)
    with i True Suc.hyps(1) [of "Suc i"] Suc.hyps(2) show ?thesis by (simp add: snd_bind_Inr)
  next
    case False
    then have "length devices \<le> i" by simp
    with i False show ?thesis by (simp add: snd_bind_Inl start_devices_outside [OF _ assms(4)])
  qed
qed

lemma nat_mod_u64: "0 \<le> n \<Longrightarrow> nat n \<le> m \<Longrightarrow> m < 2 ^ 64 \<Longrightarrow> nat (n mod 2 ^ 64) = nat n"
proof -
  assume "0 \<le> n" "nat n \<le> m" "m < 2 ^ 64"
  then have "nat n < nat (2 ^ 64)" by (simp add: nat_power_eq)
  then have "n < 2 ^ 64" by simp
  with \<open>0 \<le> n\<close> show ?thesis by (simp add: mod_pos_pos_trivial)
qed

lemma resize_pservers_value:
  "0 \<le> n \<Longrightarrow> nat n \<le> max_size \<Longrightarrow> max_size < 2 ^ 64 \<Longrightarrow>
    resize_pservers max_size n = return (replicate (nat n) None)"
  using nat_mod_u64 [of n max_size] by (simp add: resize_pservers_def)

text \<open>Without network devices the program starts one server for each of the
  \<open>num_ports + num_ports_for_sparse\<close> ports, the consecutive ones from \<open>port\<close>, without an address, and
  waits for all of them; whatever \<open>init\<close> answers, because a failed check does not stop the program. No
  slot is left null for the joins.\<close>

theorem main_starts_every_port:
  assumes "snd initialised = Inr x" and "0 \<le> p" "p = num_ports + num_ports_sparse" "p < 2 ^ 31"
    and "0 \<le> P" "P + p \<le> 2 ^ 31" and "nat p \<le> max_size" "max_size < 2 ^ 64"
  shows "run_value (pserver_main initialised init get_ip max_size num_ports num_ports_sparse P []) =
    Inr (map (\<lambda>i. ([], P + int i)) [0..<nat p])"
proof -
  have "int_add num_ports num_ports_sparse = return p"
    using assms(2-4) int_add_value [of num_ports num_ports_sparse] by simp
  moreover have "resize_pservers max_size p = return (replicate (nat p) None)"
    using assms by (intro resize_pservers_value)
  moreover have "snd (start_ports init P [0..<nat p] (replicate (nat p) None)) =
      Inr (filled (\<lambda>i. ([], P + int i)) (nat p) (nat p))"
    using start_ports_value [of P "nat p" 0 init] assms by (simp add: filled_0)
  ultimately show ?thesis
    using assms(1) by (simp add: pserver_main_def run_value_def snd_bind_Inr join_filled)
qed

text \<open>It logs what it does after what \<open>init_main\<close> has logged.\<close>

lemma main_log:
  assumes "snd initialised = Inr x" and "0 \<le> p" "p = num_ports + num_ports_sparse" "p < 2 ^ 31"
    and "0 \<le> P" "P + p \<le> 2 ^ 31" and "nat p \<le> max_size" "max_size < 2 ^ 64"
  shows "run_log (pserver_main initialised init get_ip max_size num_ports num_ports_sparse P []) =
    run_log initialised @ concat (map (start_messages init P) [0..<nat p])"
proof -
  have "int_add num_ports num_ports_sparse = return p"
    using assms(2-4) int_add_value [of num_ports num_ports_sparse] by simp
  moreover have "resize_pservers max_size p = return (replicate (nat p) None)"
    using assms by (intro resize_pservers_value)
  moreover have "start_ports init P [0..<nat p] (replicate (nat p) None) =
      (concat (map (start_messages init P) [0..<nat p]), Inr (filled (\<lambda>i. ([], P + int i)) (nat p) (nat p)))"
    using start_ports_value [of P "nat p" 0 init] start_ports_log [of P "nat p" 0 init] assms
    by (simp add: filled_0 prod_eq_iff)
  moreover obtain l where "initialised = (l, Inr x)" using assms(1) by (cases initialised) simp
  ultimately show ?thesis by (simp add: pserver_main_def run_log_def bind_Inr join_filled return_def)
qed

theorem main_starts_every_port_witness:
  "run_value (pserver_main (return ()) (\<lambda>a p. False) (\<lambda>d. fail Exception) 100 1 1 20134 []) =
    Inr [([], 20134), ([], 20135)]"
proof -
  have "run_value (pserver_main (return ()) (\<lambda>a p. False) (\<lambda>d. fail Exception) 100 1 1 20134 []) =
      Inr (map (\<lambda>i. ([], 20134 + int i)) [0..<nat 2])"
    by (rule main_starts_every_port) simp_all
  then show ?thesis by (simp add: upt_conv_Cons)
qed

text \<open>\<open>get_ip_addr\<close> returns the address of a device for which \<open>ioctl\<close> succeeds.\<close>

lemma get_ip_addr_value: "ioctl (ifr_name device) = Some a \<Longrightarrow> snd (get_ip_addr sockfd ioctl device) = Inr (inet_ntoa a)"
  by (simp add: get_ip_addr_def)

text \<open>C39. With network devices, the address of the server for port \<open>i\<close> on device \<open>j\<close> is looked up
  with \<open>i\<close>: when there are no more ports than devices, the servers for one port all get the address of
  one device, so each device serves at most one port and the device \<open>j\<close> of a server is never used; with
  more ports than devices the program indexes the devices out of range. The look-ups of the addresses
  return, which \<open>get_ip_addr\<close> does when its \<open>ioctl\<close> succeeds; sums and ports fit 31 bits and the number of
  servers is within the limit of a vector.\<close>

theorem main_reuses_one_device:
  assumes "snd initialised = Inr x" and "0 < p" "int p = num_ports + num_ports_sparse" "int p < 2 ^ 31"
    and "0 \<le> P" "P + int p \<le> 2 ^ 31" and "nics \<noteq> []" "devices = split nics (CHR '','') []" "d = length devices" "0 < d"
    and "p * d \<le> max_size" "max_size < 2 ^ 64"
    and "\<And>i. i < d \<Longrightarrow> snd (get_ip (devices ! i)) = Inr (addr i)"
  shows "run_value (pserver_main initialised init get_ip max_size num_ports num_ports_sparse P nics) =
    (if p \<le> d then Inr (map (\<lambda>m. (addr (m div d), P + int (m div d))) [0..<p * d]) else Inl OutOfBounds)"
proof -
  have d: "split nics (CHR '','') [] = devices" "length devices = d" "devices \<noteq> []" using assms(8-10) by auto
  have "int_add num_ports num_ports_sparse = return (int p)"
    using assms(2-4) int_add_value [of num_ports num_ports_sparse] by simp
  moreover have "nat (int d * int p) = p * d" by (simp add: nat_mult_distrib)
  then have "resize_pservers max_size (int d * int p) = return (replicate (p * d) None)"
    using resize_pservers_value [of "int d * int p" max_size] assms(11,12) by simp
  moreover have "snd (start_nics init get_ip P devices [0..<p] (replicate (p * d) None)) =
      (if p \<le> d then Inr (filled (device_server addr P d) (p * d) (p * d)) else Inl OutOfBounds)"
    using start_nics_value [of devices get_ip addr P p 0 init] assms(5,6,13) d by (simp add: filled_0)
  ultimately show ?thesis
    using assms(1,7) d by (simp add: pserver_main_def run_value_def snd_bind_Inr snd_bind_Inl join_filled Let_def
        device_server_def)
qed

theorem main_reuses_one_device_witness:
  "run_value (pserver_main (return ()) (\<lambda>a p. True) (\<lambda>d. return (d @ ''-ip'')) 100 2 0 20134 ''a,b'') =
    Inr [(''a-ip'', 20134), (''a-ip'', 20134), (''b-ip'', 20135), (''b-ip'', 20135)] \<and>
   run_value (pserver_main (return ()) (\<lambda>a p. True) (\<lambda>d. return (d @ ''-ip'')) 100 1 1 20134 ''a'') = Inl OutOfBounds \<and>
   run_value (pserver_main (return ()) (\<lambda>a p. True) (get_ip_addr 3 (\<lambda>device. Some (10, 0, 0, of_nat (length device)))) 100 1 0 20134 ''a'') =
    Inr [(''10.0.0.1'', 20134)]"
proof -
  have devices: "split ''a,b'' (CHR '','') [] = [''a'', ''b'']" "split ''a'' (CHR '','') [] = [''a'']" by code_simp+
  have slots: "[0..<4] = [0, 1, 2, 3 :: nat]" by code_simp
  have "run_value (pserver_main (return ()) (\<lambda>a p. True) (\<lambda>d. return (d @ ''-ip'')) 100 2 0 20134 ''a,b'') =
    (if (2 :: nat) \<le> 2 then Inr (map (\<lambda>m. ([''a'', ''b''] ! (m div 2) @ ''-ip'', 20134 + int (m div 2))) [0..<2 * 2])
     else Inl OutOfBounds)"
    by (rule main_reuses_one_device [where devices = "[''a'', ''b'']"]) (simp_all add: devices)
  moreover have "run_value (pserver_main (return ()) (\<lambda>a p. True) (\<lambda>d. return (d @ ''-ip'')) 100 1 1 20134 ''a'') =
    (if (2 :: nat) \<le> 1 then Inr (map (\<lambda>m. ([''a''] ! (m div 1) @ ''-ip'', 20134 + int (m div 1))) [0..<2 * 1])
     else Inl OutOfBounds)"
    by (rule main_reuses_one_device [where devices = "[''a'']"]) (simp_all add: devices)
  moreover have "run_value (pserver_main (return ()) (\<lambda>a p. True) (get_ip_addr 3 (\<lambda>device. Some (10, 0, 0, of_nat (length device)))) 100 1 0 20134 ''a'') =
    (if (1 :: nat) \<le> 1 then Inr (map (\<lambda>m. (inet_ntoa (10, 0, 0, of_nat (length (ifr_name ([''a''] ! (m div 1))))), 20134 + int (m div 1))) [0..<1 * 1])
     else Inl OutOfBounds)"
    by (rule main_reuses_one_device [where devices = "[''a'']"]) (simp_all add: devices get_ip_addr_value)
  moreover have "inet_ntoa (10, 0, 0, of_nat (length (ifr_name ''a''))) = ''10.0.0.1''" by code_simp
  ultimately show ?thesis by (simp add: slots)
qed

end
