(* ===== verification/Rpc.thy ===== *)
theory Rpc
  imports LightServer
begin

text \<open>
  A remote call from end to end: the client of core/ProtoServer.cpp, the framing of
  core/SocketChannel.cpp and the worker of core/LightServer.cpp composed. The two ends are two
  \<open>os\<close> states; what one has sent is what the other receives.
\<close>

section \<open>What the client sends\<close>

text \<open>The client's strings and the channel's frame do not overlap.\<close>

definition call_apart :: "channel \<Rightarrow> ptr \<Rightarrow> nat \<Rightarrow> nat \<Rightarrow> bool" where
  "call_apart c name_at n m \<longleftrightarrow>
     set (region name_at n) \<inter> set (region (proto_at c) m) = {} \<and>
     frame_apart (header_at c) (lengths_at c) 2 (set (region name_at n) \<union> set (region (proto_at c) m))"

text \<open>The same for a message of a serialized string of \<open>m\<close> bytes and any buffers \<open>vs\<close>.\<close>

definition message_apart :: "channel \<Rightarrow> nat \<Rightarrow> iovec list \<Rightarrow> bool" where
  "message_apart c m vs \<longleftrightarrow> set (region (proto_at c) m) \<inter> set (addrs vs) = {} \<and>
     frame_apart (header_at c) (lengths_at c) (Suc (length vs)) (set (region (proto_at c) m) \<union> set (addrs vs))"

lemma call_apart_message:
  "n < 2 ^ 64 \<Longrightarrow> call_apart c name_at n m \<Longrightarrow> message_apart c m [(name_at, of_nat n)]"
  by (auto simp: call_apart_def message_apart_def unat_of_nat_u64 numeral_2_eq_2 Un_commute)

lemma frame_apart_mono: "frame_apart h l n X \<Longrightarrow> frame_apart h l n {}"
  by (simp add: frame_apart_def)

lemma buffer_bytes_append: "buffer_bytes m (us @ vs) = buffer_bytes m us @ buffer_bytes m vs"
  by (simp add: buffer_bytes_def)

lemma buffer_bytes_other:
  "set as \<inter> set (addrs vs) = {} \<Longrightarrow> buffer_bytes (stores m as bs) vs = buffer_bytes m vs"
proof (induction vs)
  case (Cons v vs)
  obtain p l where v: "v = (p, l)" by (cases v)
  from Cons.prems v have "set as \<inter> set (region p (unat l)) = {}" "set as \<inter> set (addrs vs) = {}"
    by (auto simp: addrs_def)
  with Cons.IH v show ?case by (simp add: buffer_bytes_def map_stores_other)
qed (simp add: buffer_bytes_def)

text \<open>A message with one freshly serialized string, at \<open>proto_at\<close>, anywhere between other buffers.\<close>

lemma serialized_message_ok:
  fixes us vs :: "iovec list" and c :: channel and out :: "byte list" and w :: os
  defines "m \<equiv> stores (mem w) (region (proto_at c) (length out)) out"
  assumes "never_fails w" "length out + length (addrs (us @ vs)) < 2 ^ 60" "length (us @ vs) < 2 ^ 29"
    "message_apart c (length out) (us @ vs)"
  shows "\<exists>w'. channel_write c (us @ (proto_at c, of_nat (length out)) # vs) (w\<lparr>mem := m\<rparr>) = Some (return w') \<and>
    outgoing w' = outgoing w @ encode_message (buffer_bytes (mem w) us @ out # buffer_bytes (mem w) vs) \<and>
    never_fails w' \<and> incoming w' = incoming w"
proof -
  let ?vs = "us @ (proto_at c, of_nat (length out)) # vs"
  have u: "unat (of_nat (length out) :: u64) = length out" using assms(3) by (simp add: unat_of_nat_u64)
  have ad: "set (addrs ?vs) = set (region (proto_at c) (length out)) \<union> set (addrs (us @ vs))"
    "length (addrs ?vs) = length out + length (addrs (us @ vs))" by (auto simp: u)
  have "map m (region (proto_at c) (length out)) = out"
    unfolding m_def using assms(3) by (intro stores_same) (simp_all add: distinct_region)
  moreover have "buffer_bytes m us = buffer_bytes (mem w) us" "buffer_bytes m vs = buffer_bytes (mem w) vs"
    unfolding m_def using assms(5) by (auto simp: message_apart_def intro!: buffer_bytes_other)
  ultimately have bytes: "buffer_bytes m ?vs = buffer_bytes (mem w) us @ out # buffer_bytes (mem w) vs"
    by (simp add: buffer_bytes_append) (simp add: buffer_bytes_def u)
  have "frame_apart (header_at c) (lengths_at c) (length ?vs) (set (addrs ?vs))"
    using assms(5) unfolding ad by (simp add: message_apart_def)
  moreover have "never_fails (w\<lparr>mem := m\<rparr>)" using assms(2) by (simp add: never_fails_def)
  moreover have "16 + 8 * length ?vs + length (addrs ?vs) < 2 ^ 63" using assms(3,4) unfolding ad by simp
  ultimately show ?thesis
    using write_message_ok [of "w\<lparr>mem := m\<rparr>" ?vs "header_at c" "lengths_at c" "show_address c" "channel_peer c"]
      assms(4) bytes by (simp add: channel_write_def)
qed

lemma client_send_encodes:
  assumes "never_fails w" "serialize request = (True, proto)" "map (mem w) (region name_at (length name)) = name"
    "length name + length proto + length (addrs vs) < 2 ^ 59" "length vs < 2 ^ 28"
    "message_apart c (length proto) ((name_at, of_nat (length name)) # vs)"
  shows "\<exists>w1. client_send c serialize (name_at, of_nat (length name)) request vs w = Some (return w1) \<and>
    outgoing w1 = outgoing w @ encode_message ([name, proto] @ buffer_bytes (mem w) vs) \<and> never_fails w1"
proof -
  have u: "unat (of_nat (length name) :: u64) = length name" using assms(4) by (simp add: unat_of_nat_u64)
  then have "length proto + length (addrs ([(name_at, of_nat (length name))] @ vs)) < 2 ^ 60"
    "buffer_bytes (mem w) [(name_at, of_nat (length name))] = [name]"
    using assms(3,4) by (simp_all add: buffer_bytes_def)
  with serialized_message_ok [OF assms(1) this(1), of c] assms(2,5,6) show ?thesis
    by (auto simp: client_send_def)
qed

section \<open>What comes back\<close>

text \<open>The bytes the server has sent when it has handled the first message, or died.\<close>

definition answer_of :: "channel \<Rightarrow> (byte list \<Rightarrow> service option) \<Rightarrow> os \<Rightarrow> byte list" where
  "answer_of c fmap w =
     (case channel_read c w of
        Some (_, Inr (Some r, w1)) \<Rightarrow>
          (case handle_request c fmap r (channel_write c) w1 of
             Some (_, Inr w2) \<Rightarrow> drop (length (outgoing w)) (outgoing w2)
           | _ \<Rightarrow> [])
      | _ \<Rightarrow> [])"

lemma answer_of_two_blocks:
  assumes "never_fails w" "incoming w = encode_message [name, proto]"
    "length name + length proto < 2 ^ 59" "frame_apart (header_at c) (lengths_at c) 2 {}"
    "\<And>n f. fmap n = Some f \<Longrightarrow> reads_request f"
  shows "answer_of c fmap w = (if fmap (take (length proto) (name @ proto)) = None then encode_message [] else [])"
proof -
  obtain r w1 where "channel_read c w = Some (return (Some r, w1))"
    "case fmap (take (length proto) (name @ proto)) of
       Some f \<Rightarrow> handle_request c fmap r (channel_write c) w1 = Some (fail OutOfBounds)
     | None \<Rightarrow> \<exists>msg w2. outgoing w2 = outgoing w @ encode_message [] \<and>
         handle_request c fmap r (channel_write c) w1 =
           Some ([LogRecord ERROR (''Unknown function_name: '' @
                   bytes_to_string (take (length proto) (name @ proto))), LogRecord FATAL msg], Inr w2)"
    using two_block_request_not_served [OF assms(1) _ assms(3,4), of "[]" fmap] assms(2,5) unfolding append_Nil2 by blast
  then show ?thesis by (auto simp: answer_of_def return_def fail_def split: option.splits)
qed

text \<open>The client's own state once the answer has arrived, on a connection the server leaves open or
  closes.\<close>

definition answered :: "channel \<Rightarrow> (byte list \<Rightarrow> service option) \<Rightarrow> os \<Rightarrow> os \<Rightarrow> os \<Rightarrow> os" where
  "answered c fmap server before client =
     client\<lparr>incoming := answer_of c fmap (server\<lparr>incoming := drop (length (outgoing before)) (outgoing client)\<rparr>)\<rparr>"



section \<open>The calls that do complete\<close>

text \<open>
  Block \<open>i\<close> is read with the length of block \<open>i + 1\<close>, so a call goes through when the caller adds a
  buffer of the user's as long as the function name and the serialized request, and the service
  function one as long as the serialized response: the padding is never read, but its length is.
\<close>

text \<open>A function registered with \<open>register_service_function_ex\<close>: it answers with \<open>f request\<close> and the
  buffers \<open>extra request\<close>, and its reader is destroyed when it returns.\<close>

definition replying :: "('req \<Rightarrow> 'resp) \<Rightarrow> ('req \<Rightarrow> iovec list) \<Rightarrow> 'req \<Rightarrow> message_reader
    \<Rightarrow> ('resp \<Rightarrow> iovec list \<Rightarrow> os \<Rightarrow> os run option) \<Rightarrow> os \<Rightarrow> os run option" where
  "replying f extra request r reply w =
     obind (reply (f request) (extra request) w) (\<lambda>w'.
     obind (Some (destroy_MessageReader r)) (\<lambda>_. Some (return w')))"

lemma read_string_equal_blocks:
  assumes "never_fails w" "num_blocks r = map (\<lambda>b. of_nat (length b)) bs" "current_block_index r = k"
    "k + 1 < length bs" "incoming w = a @ rest" "length (bs ! (k + 1)) = length a" "length a < 2 ^ 60"
  obtains w' where "read_string c r w = Some (return (a, r\<lparr>current_block_index := k + 1\<rparr>, w'))"
    "incoming w' = rest" "outgoing w' = outgoing w" "never_fails w'"
proof -
  have l: "of_nat (length a) = num_blocks r ! (k + 1)" using assms(2,4,6) by simp
  have u: "unat (of_nat (length a) :: u64) = length a" using assms(7) by (simp add: unat_of_nat_u64)
  show thesis
    by (rule read_string_ok [OF assms(1) assms(3) [symmetric] _ l, of c])
      (use assms(2,4,5,7) u that in simp_all)
qed

lemma channel_read_ok:
  assumes "never_fails w" "incoming w = encode_message bs @ rest" "length (concat bs) < 2 ^ 59" "length bs < 2 ^ 28"
    "frame_apart (header_at c) (lengths_at c) (length bs) {}"
  obtains w' where "channel_read c w = Some (return (Some \<lparr>num_blocks = map (\<lambda>b. of_nat (length b)) bs, current_block_index = 0\<rparr>, w'))"
    "incoming w' = concat bs @ rest" "outgoing w' = outgoing w" "never_fails w'"
proof -
  have "length (encode_message bs) < 2 ^ 60" using assms(3,4) unfolding length_encode by simp
  from read_message_ok [OF assms(1,2) this assms(5), of "channel_peer c"] that show thesis
    by (auto simp: channel_read_def)
qed

lemma padded_request_served:
  assumes "never_fails w" "incoming w = encode_message (name # proto # pad # bs) @ rest"
    "length proto = length name" "length pad = length name"
    "length (concat (name # proto # pad # bs)) < 2 ^ 59" "length bs < 2 ^ 27"
    "frame_apart (header_at c) (lengths_at c) (length (name # proto # pad # bs)) {}"
    "fmap name = Some (service_ex c parse serialize (replying f extra))"
    "parse proto = (True, request)" "serialize (f request) = (True, out)"
    "length out + length (addrs (extra request)) < 2 ^ 59" "length (extra request) < 2 ^ 28"
    "message_apart c (length out) (extra request)"
  shows "\<exists>r w1 log w2 cs. channel_read c w = Some (return (Some r, w1)) \<and>
    handle_request c fmap r (channel_write c) w1 = Some (log, Inr w2) \<and>
    outgoing w2 = outgoing w @ encode_message (out # cs) \<and> map length cs = map (\<lambda>v. unat (snd v)) (extra request) \<and>
    incoming w2 = pad @ concat bs @ rest \<and> never_fails w2"
proof -
  let ?bs = "name # proto # pad # bs"
  let ?r = "\<lparr>num_blocks = map (\<lambda>b. of_nat (length b)) ?bs, current_block_index = 0\<rparr>"
  have small: "length name < 2 ^ 59" "length bs + 3 < 2 ^ 28" using assms(5,6) by simp_all
  obtain w1 where w1: "channel_read c w = Some (return (Some ?r, w1))" "incoming w1 = name @ proto @ pad @ concat bs @ rest"
    "outgoing w1 = outgoing w" "never_fails w1"
    by (rule channel_read_ok [OF assms(1,2,5) _ assms(7)]) (use small in simp_all)
  obtain w2 where w2: "read_string c ?r w1 = Some (return (name, ?r\<lparr>current_block_index := 0 + 1\<rparr>, w2))"
    "incoming w2 = proto @ pad @ concat bs @ rest" "outgoing w2 = outgoing w1" "never_fails w2"
    by (rule read_string_equal_blocks [OF w1(4), of ?r ?bs 0 name "proto @ pad @ concat bs @ rest" c])
      (use assms(3) small w1(2) in simp_all)
  obtain w3 where w3: "read_string c (?r\<lparr>current_block_index := 1\<rparr>) w2 = Some (return (proto, ?r\<lparr>current_block_index := 1 + 1\<rparr>, w3))"
    "incoming w3 = pad @ concat bs @ rest" "outgoing w3 = outgoing w2" "never_fails w3"
    by (rule read_string_equal_blocks [OF w2(4), of "?r\<lparr>current_block_index := 1\<rparr>" ?bs 1 proto "pad @ concat bs @ rest" c])
      (use assms(3,4) small w2(2) in simp_all)
  from serialized_message_ok [OF w3(4), of out "[]" "extra request" c] assms(11-13) obtain w4 where
    w4: "respond c serialize (channel_write c) (f request) (extra request) w3 = Some (return w4)"
    "outgoing w4 = outgoing w3 @ encode_message (out # buffer_bytes (mem w3) (extra request))" "incoming w4 = incoming w3" "never_fails w4"
    by (auto simp: respond_def assms(10) buffer_bytes_def)
  have two: "2 \<le> get_num_blocks ?r"
  proof -
    have "unat (of_nat (length bs + 3) :: u64) = length bs + 3" using small(2) by (intro unat_of_nat_u64) simp
    then have "2 \<le> (of_nat (length bs + 3) :: u64)" unfolding word_le_nat_alt by simp
    then show ?thesis by (simp add: get_num_blocks_def add.commute)
  qed
  obtain l where l: "destroy_MessageReader (?r\<lparr>current_block_index := 2\<rparr>) = (l, Inr ())"
    by (simp add: destroy_MessageReader_def cc_check_def)
  have "handle_request c fmap ?r (channel_write c) w1 = Some (l, Inr w4)"
    using w2(1) w3(1) w4(1) two l assms(8,9)
    by (simp add: handle_request_def service_ex_def replying_def obind_Inr return_def numeral_2_eq_2)
  moreover have "map length (buffer_bytes (mem w3) (extra request)) = map (\<lambda>v. unat (snd v)) (extra request)"
    by (auto simp: buffer_bytes_def)
  ultimately show ?thesis using w1 w2(3) w3(2,3) w4(2-4) by auto
qed

text \<open>The first of the buffers is \<open>n\<close> bytes long.\<close>

definition padded :: "nat \<Rightarrow> iovec list \<Rightarrow> bool" where
  "padded n vs \<longleftrightarrow> vs \<noteq> [] \<and> unat (snd (hd vs)) = n"

lemma length_concat_lengths: "map length bs = map (\<lambda>v. unat (snd v)) vs \<Longrightarrow> length (concat bs) = length (addrs vs)"
proof (induction bs arbitrary: vs)
  case (Cons b bs)
  then show ?case by (cases vs) (auto simp: addrs_def)
qed (simp add: addrs_def)

lemma padded_blocks:
  assumes "padded n vs" "map length bs = map (\<lambda>v. unat (snd v)) vs"
  obtains pad bs' where "bs = pad # bs'" "length pad = n" "length vs = Suc (length bs')"
proof -
  from assms(1) obtain v vs' where "vs = v # vs'" "unat (snd v) = n" by (cases vs) (auto simp: padded_def)
  with assms(2) that show thesis by (cases bs) (auto dest: map_eq_imp_length_eq)
qed

lemma padded_reply_received:
  assumes "never_fails w" "incoming w = encode_message (out # cs)" "map length cs = map (\<lambda>v. unat (snd v)) vs"
    "padded (length out) vs" "length out + length (addrs vs) < 2 ^ 59" "length vs < 2 ^ 27"
    "frame_apart (header_at c) (lengths_at c) (Suc (length vs)) {}" "parse out = (True, response)"
  shows "\<exists>r w'. client_recv c parse w = Some (return (response, r, w')) \<and> length (incoming w') = length (addrs vs)"
proof -
  obtain pad cs' where cs: "cs = pad # cs'" "length pad = length out" "length vs = Suc (length cs')"
    by (rule padded_blocks [OF assms(4,3)])
  let ?r = "\<lparr>num_blocks = map (\<lambda>b. of_nat (length b)) (out # cs), current_block_index = 0\<rparr>"
  have len: "length (concat cs) = length (addrs vs)" by (rule length_concat_lengths [OF assms(3)])
  obtain w1 where w1: "channel_read c w = Some (return (Some ?r, w1))" "incoming w1 = out @ concat cs" "never_fails w1"
    by (rule channel_read_ok [OF assms(1), of "out # cs" "[]" c]) (use assms(2,5-7) len cs(1,3) in simp_all)
  obtain w2 where w2: "read_string c ?r w1 = Some (return (out, ?r\<lparr>current_block_index := 0 + 1\<rparr>, w2))"
    "incoming w2 = concat cs"
    by (rule read_string_equal_blocks [OF w1(3), of ?r "out # cs" 0 out "concat cs" c])
      (use assms(5) w1(2) cs in simp_all)
  have one: "1 \<le> get_num_blocks ?r"
  proof -
    have "unat (of_nat (length cs + 1) :: u64) = length cs + 1" using assms(6) cs by (intro unat_of_nat_u64) simp
    then have "1 \<le> (of_nat (length cs + 1) :: u64)" unfolding word_le_nat_alt by simp
    then show ?thesis by (simp add: get_num_blocks_def add.commute)
  qed
  with w1 w2 assms(8) len show ?thesis by (simp add: client_recv_def)
qed


text \<open>The same call as above with two padding bytes at 200, and a service that doubles its request's
  bytes and pads with two bytes at 300.\<close>

definition doubled :: "byte list \<Rightarrow> byte list" where
  "doubled = map (\<lambda>b. 2 * b)"


section \<open>What becomes of the padding\<close>

text \<open>\<open>fmap\<close> has a function under \<open>name\<close> that answers the request \<open>proto\<close> with \<open>out\<close>.\<close>

definition answers :: "channel \<Rightarrow> (byte list \<Rightarrow> service option) \<Rightarrow> (byte list \<Rightarrow> bool \<times> 'req)
    \<Rightarrow> ('resp \<Rightarrow> bool \<times> byte list) \<Rightarrow> ('req \<Rightarrow> 'resp) \<Rightarrow> ('req \<Rightarrow> iovec list) \<Rightarrow> byte list \<Rightarrow> byte list \<Rightarrow> byte list \<Rightarrow> bool" where
  "answers c fmap parse serialize f extra name proto out \<longleftrightarrow>
     fmap name = Some (service_ex c parse serialize (replying f extra)) \<and>
     (case parse proto of (ok, request) \<Rightarrow>
        ok \<and> serialize (f request) = (True, out) \<and> length out + length (addrs (extra request)) < 2 ^ 59 \<and>
        length (extra request) < 2 ^ 28 \<and> message_apart c (length out) (extra request))"

text \<open>One round of the worker on a padded request.\<close>

lemma worker_round:
  assumes "never_fails w" "incoming w = encode_message [name, proto, pad] @ rest"
    "length proto = length name" "length pad = length name" "length name < 2 ^ 57"
    "frame_apart (header_at c) (lengths_at c) 3 {}" "answers c fmap parse serialize f extra name proto out"
  shows "\<exists>log w2 cs. worker_loop c (handle_request c fmap) w =
      obind (Some (log, Inr w2)) (worker_loop c (handle_request c fmap)) \<and>
    outgoing w2 = outgoing w @ encode_message (out # cs) \<and> incoming w2 = pad @ rest \<and> never_fails w2"
proof -
  obtain request where req: "parse proto = (True, request)" using assms(7) by (auto simp: answers_def)
  have "length (concat [name, proto, pad]) < 2 ^ 59" using assms(3-5) by simp
  moreover have "frame_apart (header_at c) (lengths_at c) (length [name, proto, pad]) {}"
    using assms(6) by (simp add: numeral_3_eq_3)
  ultimately obtain r w1 log w2 cs where
    s: "channel_read c w = Some (return (Some r, w1))" "handle_request c fmap r (channel_write c) w1 = Some (log, Inr w2)"
      "outgoing w2 = outgoing w @ encode_message (out # cs)" "incoming w2 = pad @ rest" "never_fails w2"
    using padded_request_served [of w name proto pad "[]" rest c fmap parse serialize f extra request out]
      assms(1-4,7) req by (auto simp: answers_def)
  then have "worker_loop c (handle_request c fmap) w = obind (Some (log, Inr w2)) (worker_loop c (handle_request c fmap))"
    by (subst worker_loop.simps) simp
  with s(3-5) show ?thesis by blast
qed

lemma obind_twice:
  "obind (Some (l, Inr x)) (\<lambda>_. obind (Some (l', Inr y)) k) = obind (Some (l @ l', Inr y)) k"
  by (simp add: obind_Inr split: option.split prod.split)

text \<open>C7. The padding of a request is not skipped. When a padded request has been answered, the worker of
  the connection takes the padding for the next message: a padding that is itself an encoded request, of
  which the caller says nothing to the server but its length, is dispatched and answered like one that was
  sent.\<close>

theorem padding_served_as_request:
  assumes "never_fails w" "incoming w = encode_message [name, proto, encode_message [name', proto', pad]] @ rest"
    "length proto = length name" "length (encode_message [name', proto', pad]) = length name"
    "length proto' = length name'" "length pad = length name'" "length name < 2 ^ 57"
    "frame_apart (header_at c) (lengths_at c) 3 {}"
    "answers c fmap parse serialize f extra name proto out" "answers c fmap parse' serialize' f' extra' name' proto' out'"
  shows "\<exists>log w' cs cs'. worker_loop c (handle_request c fmap) w =
      obind (Some (log, Inr w')) (worker_loop c (handle_request c fmap)) \<and>
    outgoing w' = outgoing w @ encode_message (out # cs) @ encode_message (out' # cs') \<and> incoming w' = pad @ rest"
proof -
  from worker_round [OF assms(1,2,3,4,7,8,9)] obtain log w1 cs where
    w1: "worker_loop c (handle_request c fmap) w = obind (Some (log, Inr w1)) (worker_loop c (handle_request c fmap))"
      "outgoing w1 = outgoing w @ encode_message (out # cs)" "incoming w1 = encode_message [name', proto', pad] @ rest"
      "never_fails w1" by blast
  have "length name' < 2 ^ 57" using assms(4,7) unfolding length_encode by simp
  from worker_round [OF w1(4,3) assms(5,6) this assms(8,10)] obtain log' w2 cs' where
    w2: "worker_loop c (handle_request c fmap) w1 = obind (Some (log', Inr w2)) (worker_loop c (handle_request c fmap))"
      "outgoing w2 = outgoing w1 @ encode_message (out' # cs')" "incoming w2 = pad @ rest" by blast
  have "worker_loop c (handle_request c fmap) w =
      obind (Some (log, Inr w1)) (\<lambda>_. obind (Some (log', Inr w2)) (worker_loop c (handle_request c fmap)))"
    unfolding w1(1) by (simp add: obind_Inr w2(1))
  with w1(2) w2(2,3) show ?thesis unfolding obind_twice by auto
qed

theorem padding_served_as_request_witness:
  "\<exists>log w' cs cs'. worker_loop sample_channel (handle_request sample_channel (\<lambda>_. Some (service_ex sample_channel
        (\<lambda>bs. (True, bs)) (\<lambda>bs. (True, bs)) (replying doubled (\<lambda>_. [(300, 2)])))))
      \<lparr>mem = (\<lambda>_. 0), outgoing = [],
        incoming = encode_message [replicate 43 1, replicate 43 2, encode_message [[97], [5], [0]]], script = []\<rparr> =
      obind (Some (log, Inr w')) (worker_loop sample_channel (handle_request sample_channel (\<lambda>_. Some (service_ex sample_channel
        (\<lambda>bs. (True, bs)) (\<lambda>bs. (True, bs)) (replying doubled (\<lambda>_. [(300, 2)])))))) \<and>
    outgoing w' = encode_message (replicate 43 4 # cs) @ encode_message ([10] # cs') \<and> incoming w' = [0]"
proof -
  let ?fmap = "\<lambda>_. Some (service_ex sample_channel (\<lambda>bs. (True, bs)) (\<lambda>bs. (True, bs)) (replying doubled (\<lambda>_. [(300, 2)])))"
  let ?w = "\<lparr>mem = (\<lambda>_. 0), outgoing = [], incoming = encode_message [replicate 43 1, replicate 43 2, encode_message [[97], [5], [0]]], script = []\<rparr>"
  have apart: "message_apart sample_channel 43 [(300, 2)]" "message_apart sample_channel 1 [(300, 2)]"
    "frame_apart (header_at sample_channel) (lengths_at sample_channel) 3 {}"
    by (simp_all add: message_apart_def sample_channel_def frame_apart_def region_def upt_rec)
  have "answers sample_channel ?fmap (\<lambda>bs. (True, bs)) (\<lambda>bs. (True, bs)) doubled (\<lambda>_. [(300, 2)])
      (replicate 43 1) (replicate 43 2) (replicate 43 4)"
    "answers sample_channel ?fmap (\<lambda>bs. (True, bs)) (\<lambda>bs. (True, bs)) doubled (\<lambda>_. [(300, 2)]) [97] [5] [10]"
    using apart(1,2) by (simp_all add: answers_def doubled_def map_replicate)
  from padding_served_as_request [OF _ _ _ _ _ _ _ apart(3) this, of ?w "[0]" "[]"]
  show ?thesis by (simp add: never_fails_def length_encode)
qed

end
