(* ===== verification/ServerProcess.thy ===== *)
theory ServerProcess
  imports Rpc
begin

text \<open>
  The process of a server with several clients: the workers its accept loop has started
  (core/LightServer.h and .cpp) and the connections they serve. A worker is a thread; here it takes one
  pass of its loop (one message) at a time, in any order. What workers share is the server's
  function map, which no pass changes, and the process itself: a fault in one pass ends it for all of
  them. Each connection has an \<open>os\<close> state of its own, with the memory of its worker. What the
  workers log is left out.
\<close>

section \<open>Channels and workers\<close>

text \<open>The two members of a \<open>SocketChannel\<close>.\<close>

record socket_channel =
  tcp_socket :: int
  peer_name :: string

definition new_SocketChannel :: "int \<Rightarrow> string \<Rightarrow> socket_channel" where
  "new_SocketChannel socket peer = \<lparr>tcp_socket = socket, peer_name = peer\<rparr>"

definition get_peer_name :: "socket_channel \<Rightarrow> string" where
  "get_peer_name c = peer_name c"

definition create_channel :: "int \<Rightarrow> string \<Rightarrow> socket_channel" where
  "create_channel sock peer = new_SocketChannel sock peer"

text \<open>A \<open>ProtoServer\<close> starts with no registered function; it and the \<open>ProtoClient\<close> are otherwise the
  socket server and client.\<close>

definition new_ProtoServer :: "string \<Rightarrow> int \<Rightarrow> socket_server \<times> (byte list \<Rightarrow> service option)" where
  "new_ProtoServer addr port = (new_SocketServer addr port, Map.empty)"

definition new_ProtoClient :: "network \<Rightarrow> string \<Rightarrow> (socket_channel \<times> string) run" where
  "new_ProtoClient net addr = bind (new_SocketClient net addr) (\<lambda>((socket, peer), addr').
     return (new_SocketChannel socket peer, addr'))"

text \<open>A worker owns its channel; its server is the one of the process.\<close>

record socket_worker =
  worker_channel :: socket_channel

definition new_SocketWorker :: "socket_channel \<Rightarrow> socket_worker" where
  "new_SocketWorker c = \<lparr>worker_channel = c\<rparr>"

text \<open>\<open>frame\<close> has the addresses of the locals of a worker's calls.\<close>

definition channel_in :: "channel \<Rightarrow> socket_channel \<Rightarrow> channel" where
  "channel_in frame c = frame\<lparr>channel_peer := get_peer_name c\<rparr>"

text \<open>The accept loop makes a worker of each connection it reports, and starts and detaches it: it is a
  thread of the process from then on.\<close>

definition start_workers :: "(int \<times> string) list \<Rightarrow> socket_worker list" where
  "start_workers accepted = map (\<lambda>(sock, peer). new_SocketWorker (create_channel sock peer)) accepted"

section \<open>Passes of the loop\<close>

text \<open>One pass of \<open>SocketWorker::run\<close>: whether the loop goes on, and the connection.\<close>

definition worker_pass :: "channel \<Rightarrow> (message_reader \<Rightarrow> response_callback \<Rightarrow> os \<Rightarrow> os run option)
    \<Rightarrow> os \<Rightarrow> (bool \<times> os) run option" where
  "worker_pass c handle w =
     obind (channel_read c w) (\<lambda>(reader, w1).
     case reader of
       None \<Rightarrow> Some (return (False, w1))
     | Some r \<Rightarrow> obind (handle r (channel_write c) w1) (\<lambda>w2. Some (return (True, w2))))"

lemma obind_assoc: "obind (obind m f) g = obind m (\<lambda>x. obind (f x) g)"
  by (auto simp: obind_def split: option.splits prod.splits sum.splits)

lemma worker_loop_passes:
  "worker_loop c handle w =
     obind (worker_pass c handle w) (\<lambda>(go_on, w'). if go_on then worker_loop c handle w' else Some (return w'))"
  by (subst worker_loop.simps)
    (auto simp: worker_pass_def obind_assoc split_def intro!: arg_cong [where f = "obind (channel_read c w)"]
      split: option.split)

record server_process =
  threads :: "socket_worker list"
  streams :: "nat \<Rightarrow> os"           \<comment> \<open>the connection of each thread\<close>
  returned :: "nat set"            \<comment> \<open>threads whose loop has ended\<close>
  crashed :: "fault option"

definition new_process_of :: "(int \<times> string) list \<Rightarrow> (nat \<Rightarrow> os) \<Rightarrow> server_process" where
  "new_process_of accepted conns = \<lparr>threads = start_workers accepted, streams = conns, returned = {}, crashed = None\<rparr>"

definition thread_channel :: "(nat \<Rightarrow> channel) \<Rightarrow> server_process \<Rightarrow> nat \<Rightarrow> channel" where
  "thread_channel frame p i = channel_in (frame i) (worker_channel (threads p ! i))"

text \<open>Thread \<open>i\<close> takes one pass, if there is such a thread and the process still runs; \<open>None\<close> when
  the pass does not end. \<open>fmap\<close> gives the registered functions with the locals they use in a thread.\<close>

definition take_pass :: "(nat \<Rightarrow> channel) \<Rightarrow> (nat \<Rightarrow> byte list \<Rightarrow> service option) \<Rightarrow> nat \<Rightarrow> server_process
    \<Rightarrow> server_process option" where
  "take_pass frame fmap i p =
     (if crashed p \<noteq> None \<or> length (threads p) \<le> i \<or> i \<in> returned p then Some p
      else let c = thread_channel frame p i
           in (case worker_pass c (handle_request c (fmap i)) (streams p i) of
                 None \<Rightarrow> None
               | Some (l, Inl f) \<Rightarrow> Some (p\<lparr>crashed := Some f\<rparr>)
               | Some (l, Inr (go_on, w)) \<Rightarrow>
                   Some (p\<lparr>streams := (streams p)(i := w), returned := (if go_on then returned p else insert i (returned p))\<rparr>)))"

fun take_passes :: "(nat \<Rightarrow> channel) \<Rightarrow> (nat \<Rightarrow> byte list \<Rightarrow> service option) \<Rightarrow> nat list \<Rightarrow> server_process
    \<Rightarrow> server_process option" where
  "take_passes frame fmap [] p = Some p"
| "take_passes frame fmap (i # is) p = Option.bind (take_pass frame fmap i p) (take_passes frame fmap is)"

section \<open>One pass\<close>

lemma take_passes_crashed: "crashed p \<noteq> None \<Longrightarrow> take_passes frame fmap is p = Some p"
  by (induction "is") (simp_all add: take_pass_def)

lemma pass_answers_padded:
  assumes "never_fails w" "incoming w = encode_message [name, proto, pad]"
    "length proto = length name" "length pad = length name" "length name < 2 ^ 57"
    "frame_apart (header_at c) (lengths_at c) 3 {}" "answers c fmap parse serialize f extra name proto out"
  shows "\<exists>l w' cs. worker_pass c (handle_request c fmap) w = Some (l, Inr (True, w')) \<and>
    outgoing w' = outgoing w @ encode_message (out # cs)"
proof -
  obtain request where req: "parse proto = (True, request)" using assms(7) by (auto simp: answers_def)
  have "length (concat [name, proto, pad]) < 2 ^ 59" using assms(3-5) by simp
  moreover have "frame_apart (header_at c) (lengths_at c) (length [name, proto, pad]) {}"
    using assms(6) by (simp add: numeral_3_eq_3)
  ultimately obtain r w1 log w2 cs where
    "channel_read c w = Some (return (Some r, w1))" "handle_request c fmap r (channel_write c) w1 = Some (log, Inr w2)"
    "outgoing w2 = outgoing w @ encode_message (out # cs)"
    using padded_request_served [of w name proto pad "[]" "[]" c fmap parse serialize f extra request out]
      assms(1-4,7) req by (auto simp: answers_def)
  then show ?thesis by (auto simp: worker_pass_def obind_Inr return_def)
qed

text \<open>A call without buffers. The server takes as many bytes for the name as the request has: a function
  under those bytes faults, and otherwise the client is answered with a message of no blocks.\<close>

definition seen_name :: "byte list \<Rightarrow> byte list \<Rightarrow> byte list" where
  "seen_name name proto = take (length proto) (name @ proto)"

lemma pass_on_plain_call:
  assumes "never_fails w" "incoming w = encode_message [name, proto]" "length name + length proto < 2 ^ 59"
    "frame_apart (header_at c) (lengths_at c) 2 {}" "\<And>n f. fmap n = Some f \<Longrightarrow> reads_request f"
  shows "if fmap (seen_name name proto) \<noteq> None
    then worker_pass c (handle_request c fmap) w = Some (fail OutOfBounds)
    else \<exists>l w'. worker_pass c (handle_request c fmap) w = Some (l, Inr (True, w')) \<and>
      outgoing w' = outgoing w @ encode_message []"
proof -
  have inc: "incoming w = encode_message [name, proto] @ []" using assms(2) by simp
  have "\<exists>r w1. channel_read c w = Some (return (Some r, w1)) \<and>
    (case fmap (take (length proto) (name @ proto @ [])) of
       Some f \<Rightarrow> handle_request c fmap r (channel_write c) w1 = Some (fail OutOfBounds)
     | None \<Rightarrow> \<exists>msg w2. outgoing w2 = outgoing w @ encode_message [] \<and>
         handle_request c fmap r (channel_write c) w1 =
           Some ([LogRecord ERROR (''Unknown function_name: '' @
                   bytes_to_string (take (length proto) (name @ proto @ []))), LogRecord FATAL msg], Inr w2))"
    by (rule two_block_request_not_served [OF assms(1) inc assms(3,4)]) (rule assms(5))
  then obtain r w1 where r: "channel_read c w = Some (return (Some r, w1))"
    "case fmap (take (length proto) (name @ proto @ [])) of
       Some f \<Rightarrow> handle_request c fmap r (channel_write c) w1 = Some (fail OutOfBounds)
     | None \<Rightarrow> \<exists>msg w2. outgoing w2 = outgoing w @ encode_message [] \<and>
         handle_request c fmap r (channel_write c) w1 =
           Some ([LogRecord ERROR (''Unknown function_name: '' @
                   bytes_to_string (take (length proto) (name @ proto @ []))), LogRecord FATAL msg], Inr w2)"
    by blast
  show ?thesis
  proof (cases "fmap (seen_name name proto)")
    case None
    with r show ?thesis by (auto simp: worker_pass_def seen_name_def obind_Inr return_def)
  next
    case (Some f)
    with r show ?thesis by (simp add: worker_pass_def seen_name_def)
  qed
qed

section \<open>One call stops the server\<close>

text \<open>What a connection brings: a request with a buffer that makes the lengths fit, which a registered
  function answers with \<open>out\<close>, or a call of any name and any request without such a buffer.\<close>

datatype call = Padded "byte list" | Plain "byte list" "byte list"

definition padded_call :: "channel \<Rightarrow> (byte list \<Rightarrow> service option) \<Rightarrow> (byte list \<Rightarrow> bool \<times> 'req)
    \<Rightarrow> ('resp \<Rightarrow> bool \<times> byte list) \<Rightarrow> ('req \<Rightarrow> 'resp) \<Rightarrow> ('req \<Rightarrow> iovec list) \<Rightarrow> byte list \<Rightarrow> os \<Rightarrow> bool" where
  "padded_call c fmap parse serialize f extra out w \<longleftrightarrow>
     never_fails w \<and> frame_apart (header_at c) (lengths_at c) 3 {} \<and>
     (\<exists>name proto pad. incoming w = encode_message [name, proto, pad] \<and> length proto = length name \<and>
        length pad = length name \<and> length name < 2 ^ 57 \<and> answers c fmap parse serialize f extra name proto out)"

definition plain_call :: "channel \<Rightarrow> (byte list \<Rightarrow> service option) \<Rightarrow> byte list \<Rightarrow> byte list \<Rightarrow> os \<Rightarrow> bool" where
  "plain_call c fmap name proto w \<longleftrightarrow>
     never_fails w \<and> frame_apart (header_at c) (lengths_at c) 2 {} \<and> (\<forall>n f. fmap n = Some f \<longrightarrow> reads_request f) \<and>
     incoming w = encode_message [name, proto] \<and> length name + length proto < 2 ^ 59"

fun brings :: "channel \<Rightarrow> (byte list \<Rightarrow> service option) \<Rightarrow> (byte list \<Rightarrow> bool \<times> 'req)
    \<Rightarrow> ('resp \<Rightarrow> bool \<times> byte list) \<Rightarrow> ('req \<Rightarrow> 'resp) \<Rightarrow> ('req \<Rightarrow> iovec list) \<Rightarrow> call \<Rightarrow> os \<Rightarrow> bool" where
  "brings c fmap parse serialize f extra (Padded out) w = padded_call c fmap parse serialize f extra out w"
| "brings c fmap parse serialize f extra (Plain name proto) w = plain_call c fmap name proto w"

text \<open>A call that ends the process, and what the others are answered with.\<close>

fun fatal :: "(byte list \<Rightarrow> service option) \<Rightarrow> call \<Rightarrow> bool" where
  "fatal fmap (Padded out) = False"
| "fatal fmap (Plain name proto) = (fmap (seen_name name proto) \<noteq> None)"

fun is_reply :: "call \<Rightarrow> byte list \<Rightarrow> bool" where
  "is_reply (Padded out) bs = (\<exists>cs. bs = encode_message (out # cs))"
| "is_reply (Plain name proto) bs = (bs = encode_message [])"

lemma take_pass_answers:
  assumes "worker_pass (thread_channel frame p i) (handle_request (thread_channel frame p i) (fmap i)) (streams p i) =
      Some (l, Inr (True, w))" "crashed p = None" "i < length (threads p)" "returned p = {}"
  shows "take_pass frame fmap i p = Some (p\<lparr>streams := (streams p)(i := w)\<rparr>)"
  using assms by (simp add: take_pass_def)

lemma take_pass_call:
  assumes "brings (thread_channel frame p i) (fmap i) parse serialize f extra call (streams p i)"
    "crashed p = None" "i < length (threads p)" "returned p = {}"
  shows "if fatal (fmap i) call then take_pass frame fmap i p = Some (p\<lparr>crashed := Some OutOfBounds\<rparr>)
    else \<exists>w bs. take_pass frame fmap i p = Some (p\<lparr>streams := (streams p)(i := w)\<rparr>) \<and>
      outgoing w = outgoing (streams p i) @ bs \<and> is_reply call bs"
proof (cases call)
  case (Padded out)
  with assms(1) have "padded_call (thread_channel frame p i) (fmap i) parse serialize f extra out (streams p i)" by simp
  then obtain name proto pad where "never_fails (streams p i)" "incoming (streams p i) = encode_message [name, proto, pad]"
    "length proto = length name" "length pad = length name" "length name < 2 ^ 57"
    "frame_apart (header_at (thread_channel frame p i)) (lengths_at (thread_channel frame p i)) 3 {}"
    "answers (thread_channel frame p i) (fmap i) parse serialize f extra name proto out"
    unfolding padded_call_def by blast
  from pass_answers_padded [OF this] obtain l w bs where
    "worker_pass (thread_channel frame p i) (handle_request (thread_channel frame p i) (fmap i)) (streams p i) = Some (l, Inr (True, w))"
    "outgoing w = outgoing (streams p i) @ bs" "is_reply call bs" unfolding Padded by auto
  with take_pass_answers [OF _ assms(2-4)] Padded show ?thesis by auto
next
  case (Plain name proto)
  with assms(1) have c: "never_fails (streams p i)" "incoming (streams p i) = encode_message [name, proto]"
    "length name + length proto < 2 ^ 59"
    "frame_apart (header_at (thread_channel frame p i)) (lengths_at (thread_channel frame p i)) 2 {}"
    "\<forall>n f. fmap i n = Some f \<longrightarrow> reads_request f" by (simp_all add: plain_call_def)
  have pass: "if fmap i (seen_name name proto) \<noteq> None
    then worker_pass (thread_channel frame p i) (handle_request (thread_channel frame p i) (fmap i)) (streams p i) = Some (fail OutOfBounds)
    else \<exists>l w. worker_pass (thread_channel frame p i) (handle_request (thread_channel frame p i) (fmap i)) (streams p i) =
        Some (l, Inr (True, w)) \<and> outgoing w = outgoing (streams p i) @ encode_message []"
    by (rule pass_on_plain_call [OF c(1-4)]) (use c(5) in blast)
  show ?thesis
  proof (cases "fmap i (seen_name name proto) = None")
    case True
    with pass obtain l w where
      "worker_pass (thread_channel frame p i) (handle_request (thread_channel frame p i) (fmap i)) (streams p i) = Some (l, Inr (True, w))"
      "outgoing w = outgoing (streams p i) @ encode_message []" by auto
    with take_pass_answers [OF _ assms(2-4)] Plain True show ?thesis by auto
  next
    case False
    with pass assms(2-4) Plain show ?thesis by (simp add: take_pass_def fail_def)
  qed
qed

lemma take_passes_serve:
  assumes "distinct order" "set order \<subseteq> {..<length (threads p)}" "crashed p = None" "returned p = {}"
    "\<And>i. i \<in> set order \<Longrightarrow>
      brings (thread_channel frame p i) (fmap i) (parse i) (serialize i) (f i) (extra i) (call i) (streams p i)"
  shows "\<exists>p'. take_passes frame fmap order p = Some p' \<and>
    crashed p' = (if \<exists>i \<in> set order. fatal (fmap i) (call i) then Some OutOfBounds else None) \<and>
    (\<forall>i. if i \<in> set (takeWhile (\<lambda>i. \<not> fatal (fmap i) (call i)) order)
         then \<exists>bs. outgoing (streams p' i) = outgoing (streams p i) @ bs \<and> is_reply (call i) bs
         else streams p' i = streams p i)"
  using assms
proof (induction order arbitrary: p)
  case (Cons i "is")
  let ?bad = "\<lambda>i. fatal (fmap i) (call i)"
  have pass: "if ?bad i then take_pass frame fmap i p = Some (p\<lparr>crashed := Some OutOfBounds\<rparr>)
    else \<exists>w bs. take_pass frame fmap i p = Some (p\<lparr>streams := (streams p)(i := w)\<rparr>) \<and>
      outgoing w = outgoing (streams p i) @ bs \<and> is_reply (call i) bs"
    by (rule take_pass_call) (use Cons.prems in auto)
  show ?case
  proof (cases "?bad i")
    case True
    with pass show ?thesis by (simp add: take_passes_crashed)
  next
    case False
    with pass obtain w bs where w: "take_pass frame fmap i p = Some (p\<lparr>streams := (streams p)(i := w)\<rparr>)"
      "outgoing w = outgoing (streams p i) @ bs" "is_reply (call i) bs" by auto
    let ?p = "p\<lparr>streams := (streams p)(i := w)\<rparr>"
    have "\<exists>p'. take_passes frame fmap is ?p = Some p' \<and>
      crashed p' = (if \<exists>i \<in> set is. ?bad i then Some OutOfBounds else None) \<and>
      (\<forall>j. if j \<in> set (takeWhile (\<lambda>i. \<not> ?bad i) is)
         then \<exists>bs. outgoing (streams p' j) = outgoing (streams ?p j) @ bs \<and> is_reply (call j) bs
         else streams p' j = streams ?p j)"
      using Cons.prems by (intro Cons.IH) (auto simp: thread_channel_def)
    then obtain p' where p': "take_passes frame fmap is ?p = Some p'"
      "crashed p' = (if \<exists>i \<in> set is. ?bad i then Some OutOfBounds else None)"
      "\<And>j. if j \<in> set (takeWhile (\<lambda>i. \<not> ?bad i) is)
         then \<exists>bs. outgoing (streams p' j) = outgoing (streams ?p j) @ bs \<and> is_reply (call j) bs
         else streams p' j = streams ?p j" by blast
    have "i \<notin> set (takeWhile (\<lambda>i. \<not> ?bad i) is)" using Cons.prems(1) by (auto dest: set_takeWhileD)
    with p'(3) [of i] w(2,3) have "\<exists>bs. outgoing (streams p' i) = outgoing (streams p i) @ bs \<and> is_reply (call i) bs" by auto
    moreover have "if j \<in> set (takeWhile (\<lambda>i. \<not> ?bad i) is)
         then \<exists>bs. outgoing (streams p' j) = outgoing (streams p j) @ bs \<and> is_reply (call j) bs
         else streams p' j = streams p j" if "j \<noteq> i" for j
      using p'(3) [of j] that by (auto split: if_splits)
    ultimately have "if j \<in> set (takeWhile (\<lambda>i. \<not> ?bad i) (i # is))
         then \<exists>bs. outgoing (streams p' j) = outgoing (streams p j) @ bs \<and> is_reply (call j) bs
         else streams p' j = streams p j" for j
      using False by (cases "j = i") simp_all
    then show ?thesis using False w(1) p'(1,2) by simp
  qed
qed simp

text \<open>C8. One client can stop the server for all. The workers the accept loop started take their first
  passes in any order, on connections whose transfers do not fail. Each brings a padded call (a name, a
  request and a buffer of equal lengths, for a registered function that replies) or a plain call (a name
  and a request of any lengths, without a buffer). The server looks up the name of a plain call with the
  length of its request; every registered function must read its request, as those of both registration
  methods do. Every pass ends. If a function is registered under the bytes looked up, for instance because
  the name is registered and as long as the request, the pass ends the process with an access
  outside a vector: that client and all later ones are not answered and their connections stay as they were. All passes
  before the first such call are answered, a padded call with the reply of its function and a plain call
  with a message of no blocks; without such a call every client is answered and the process goes on.\<close>

theorem one_call_stops_the_server:
  assumes "run_value (tcp_server net s) = Inr (accepted, ended, s')" "p = new_process_of accepted conns"
    "distinct order" "set order \<subseteq> {..<length accepted}"
    "\<And>i. i \<in> set order \<Longrightarrow>
      brings (thread_channel frame p i) (fmap i) (parse i) (serialize i) (f i) (extra i) (call i) (conns i)"
  shows "\<exists>p'. take_passes frame fmap order p = Some p' \<and>
    crashed p' = (if \<exists>i \<in> set order. fatal (fmap i) (call i) then Some OutOfBounds else None) \<and>
    (\<forall>i. if i \<in> set (takeWhile (\<lambda>i. \<not> fatal (fmap i) (call i)) order)
         then \<exists>bs. outgoing (streams p' i) = outgoing (conns i) @ bs \<and> is_reply (call i) bs
         else streams p' i = conns i)"
proof -
  have p: "threads p = start_workers accepted" "streams p = conns" "crashed p = None" "returned p = {}"
    using assms(2) by (simp_all add: new_process_of_def)
  have "length (threads p) = length accepted" by (simp add: p(1) start_workers_def)
  with take_passes_serve [OF assms(3), of p frame fmap parse serialize f extra call] assms(4,5) p(2-4)
  show ?thesis by auto
qed

text \<open>Three connections: a padded call, a plain call of the registered function with a request as long as
  its name, and one with a shorter request, which is answered with no blocks. The clients served before the
  second are answered.\<close>

definition sample_network :: network where
  "sample_network = \<lparr>socket_result = 3, host_address = None, lookup_result = 0, setsockopt_result = (\<lambda>_. 0), bind_result = 0,
     connect_result = 0, connections = [\<lparr>new_socket = 5, peer_address = Some ''10.0.0.1'', stopping_seen = False\<rparr>,
       \<lparr>new_socket = 6, peer_address = Some ''10.0.0.2'', stopping_seen = False\<rparr>,
       \<lparr>new_socket = 7, peer_address = Some ''10.0.0.3'', stopping_seen = False\<rparr>]\<rparr>"

definition sample_conns :: "nat \<Rightarrow> os" where
  "sample_conns i = \<lparr>mem = (\<lambda>_. 0), outgoing = [],
     incoming = encode_message (if i = 0 then [[97], [5], [0]] else if i = 1 then [[97], [5]] else [[97], []]), script = []\<rparr>"

definition sample_process :: server_process where
  "sample_process = new_process_of [(5, ''10.0.0.1''), (6, ''10.0.0.2''), (7, ''10.0.0.3'')] sample_conns"

definition sample_functions :: "nat \<Rightarrow> byte list \<Rightarrow> service option" where
  "sample_functions i = [[97] \<mapsto> service_ex (thread_channel (\<lambda>_. sample_channel) sample_process i)
     (\<lambda>bs. (True, bs)) (\<lambda>bs. (True, bs)) (replying doubled (\<lambda>_. [(300, 1)]))]"

definition sample_call :: "nat \<Rightarrow> call" where
  "sample_call i = (if i = 0 then Padded [10] else if i = 1 then Plain [97] [5] else Plain [97] [])"

theorem one_call_stops_the_server_witness:
  "(\<exists>p'. take_passes (\<lambda>_. sample_channel) sample_functions [0, 2, 1] sample_process = Some p' \<and>
      crashed p' = Some OutOfBounds \<and> (\<exists>cs. outgoing (streams p' 0) = encode_message ([10] # cs)) \<and>
      outgoing (streams p' 2) = encode_message []) \<and>
   (\<exists>p'. take_passes (\<lambda>_. sample_channel) sample_functions [1, 0, 2] sample_process = Some p' \<and>
      crashed p' = Some OutOfBounds \<and> outgoing (streams p' 0) = [])"
proof -
  let ?c = "thread_channel (\<lambda>_. sample_channel) sample_process"
  have net: "run_value (tcp_server sample_network (new_SocketServer [] 20134)) =
      Inr ([(5, ''10.0.0.1''), (6, ''10.0.0.2''), (7, ''10.0.0.3'')], False, (new_SocketServer [] 20134)\<lparr>server_socket := 3\<rparr>)"
    by (simp add: tcp_server_def sample_network_def new_SocketServer_def set_option_def run_value_def)
  have c: "header_at (?c i) = 1000" "lengths_at (?c i) = 2000" "proto_at (?c i) = 4000" for i
    by (simp_all add: thread_channel_def channel_in_def sample_channel_def)
  have "message_apart (?c i) 1 [(300, 1)]" "frame_apart (header_at (?c i)) (lengths_at (?c i)) 3 {}"
    "frame_apart (header_at (?c i)) (lengths_at (?c i)) 2 {}" for i
    by (simp_all add: message_apart_def c frame_apart_def region_def upt_rec)
  note apart = this
  have "answers (?c 0) (sample_functions 0) (\<lambda>bs. (True, bs)) (\<lambda>bs. (True, bs)) doubled (\<lambda>_. [(300, 1)]) [97] [5] [10]"
    using apart(1) [of 0] by (simp add: answers_def sample_functions_def doubled_def)
  then have padded: "padded_call (?c 0) (sample_functions 0) (\<lambda>bs. (True, bs)) (\<lambda>bs. (True, bs)) doubled (\<lambda>_. [(300, 1)]) [10] (sample_conns 0)"
    unfolding padded_call_def using apart(2) [of 0]
    by (intro conjI exI [of _ "[97]"] exI [of _ "[5]"] exI [of _ "[0]"]) (simp_all add: sample_conns_def never_fails_def)
  have plain: "plain_call (?c 1) (sample_functions 1) [97] [5] (sample_conns 1)"
    "plain_call (?c 2) (sample_functions 2) [97] [] (sample_conns 2)"
    unfolding plain_call_def using apart(3) [of 1] apart(3) [of 2]
    by (auto simp: sample_conns_def sample_functions_def never_fails_def split: if_splits)
  have brings: "brings (?c i) (sample_functions i) (\<lambda>bs. (True, bs)) (\<lambda>bs. (True, bs)) doubled (\<lambda>_. [(300, 1)])
      (sample_call i) (sample_conns i)" if "i < 3" for i
    using that padded plain by (auto simp: sample_call_def less_Suc_eq numeral_3_eq_3 numeral_2_eq_2)
  have bad: "fatal (sample_functions i) (sample_call i) \<longleftrightarrow> i = 1" for i
    by (simp add: sample_call_def sample_functions_def seen_name_def)
  have "\<exists>p'. take_passes (\<lambda>_. sample_channel) sample_functions order sample_process = Some p' \<and>
      crashed p' = (if \<exists>i \<in> set order. fatal (sample_functions i) (sample_call i) then Some OutOfBounds else None) \<and>
      (\<forall>i. if i \<in> set (takeWhile (\<lambda>i. \<not> fatal (sample_functions i) (sample_call i)) order)
         then \<exists>bs. outgoing (streams p' i) = outgoing (sample_conns i) @ bs \<and> is_reply (sample_call i) bs
         else streams p' i = sample_conns i)" if "distinct order" "set order \<subseteq> {..<3}" for order
    by (rule one_call_stops_the_server [OF net sample_process_def that(1),
      where parse = "\<lambda>_ bs. (True, bs)" and serialize = "\<lambda>_ bs. (True, bs)" and f = "\<lambda>_. doubled"
      and extra = "\<lambda>_ _. [(300, 1)]" and call = sample_call])
      (use that brings in auto)
  note run = this [unfolded bad]
  from run [of "[0, 2, 1]"] obtain p' where
    "take_passes (\<lambda>_. sample_channel) sample_functions [0, 2, 1] sample_process = Some p'" "crashed p' = Some OutOfBounds"
    "\<forall>i. if i \<in> {0, 2} then \<exists>bs. outgoing (streams p' i) = outgoing (sample_conns i) @ bs \<and> is_reply (sample_call i) bs
         else streams p' i = sample_conns i" by auto
  moreover from this(3) have "\<exists>bs. outgoing (streams p' 0) = outgoing (sample_conns 0) @ bs \<and> is_reply (sample_call 0) bs"
    "\<exists>bs. outgoing (streams p' 2) = outgoing (sample_conns 2) @ bs \<and> is_reply (sample_call 2) bs" by auto
  moreover from run [of "[1, 0, 2]"] obtain p'' where
    "take_passes (\<lambda>_. sample_channel) sample_functions [1, 0, 2] sample_process = Some p''" "crashed p'' = Some OutOfBounds"
    "streams p'' 0 = sample_conns 0" by auto
  ultimately show ?thesis by (auto simp: sample_conns_def sample_call_def)
qed

end
