(* ===== verification/ServerShutdown.thy ===== *)
theory ServerShutdown
  imports LightServer "HOL-Library.Sublist"
begin

text \<open>
  The threads of a \<open>SocketServer\<close> (core/LightServer.h and .cpp) as interleaved moves: the accepting
  thread, the workers it starts, the owner that destroys the server, and clients that connect. A move is
  one system call or one access to what the threads share. A connection is the socket number \<open>accept\<close>
  will give it and the printed peer address; it waits in the queue that \<open>listen\<close> sets up. System calls
  succeed, except that \<open>connect\<close> is refused when nobody listens.
\<close>

section \<open>State\<close>

type_synonym connection = "nat \<times> string"

datatype accept_point =
    Setup                   \<comment> \<open>the thread has been started and does not listen yet\<close>
  | Accepting               \<comment> \<open>at \<open>accept\<close>\<close>
  | Testing connection      \<comment> \<open>\<open>accept\<close> has returned; next is the test of \<open>_stopping\<close>\<close>
  | Closed                  \<comment> \<open>the socket is closed and \<open>run\<close> has returned\<close>

datatype owner_point =
    Using                   \<comment> \<open>the server is in use\<close>
  | Triggering              \<comment> \<open>\<open>_stopping\<close> is set; next is the connection to the server itself\<close>
  | Joining                 \<comment> \<open>at \<open>join\<close>\<close>
  | Destroyed

datatype worker_point = Reading_message | Handling | Finished

record server_state =
  acceptor :: accept_point
  owner :: owner_point
  stopping_flag :: bool
  waiting :: "connection list"
  seen :: "accepted list"                            \<comment> \<open>what \<open>accept\<close> has returned, and the flag read then\<close>
  workers :: "(connection \<times> worker_point) list"
  dead_server_called :: bool                         \<comment> \<open>a worker has called a method of the destroyed server\<close>

definition started_server :: server_state where
  "started_server = \<lparr>acceptor = Setup, owner = Using, stopping_flag = False, waiting = [], seen = [], workers = [],
     dead_server_called = False\<rparr>"

text \<open>\<open>_max_pending_connections\<close>.\<close>

definition backlog :: nat where
  "backlog = nat (max_pending_connections (new_SocketServer [] 0))"

definition listening :: "server_state \<Rightarrow> bool" where
  "listening s \<longleftrightarrow> acceptor s \<noteq> Setup \<and> acceptor s \<noteq> Closed"

section \<open>Moves\<close>

text \<open>The accepting thread. The worker it starts runs by itself and is never deleted.\<close>

definition acceptor_move :: "server_state \<Rightarrow> server_state option" where
  "acceptor_move s = (case acceptor s of
      Setup \<Rightarrow> Some (s\<lparr>acceptor := Accepting\<rparr>)
    | Accepting \<Rightarrow> (case waiting s of
          [] \<Rightarrow> None
        | c # cs \<Rightarrow> Some (s\<lparr>acceptor := Testing c, waiting := cs\<rparr>))
    | Testing c \<Rightarrow>
        (let s1 = s\<lparr>seen := seen s @ [\<lparr>new_socket = int (fst c), peer_address = Some (snd c), stopping_seen = stopping_flag s\<rparr>]\<rparr>
         in if stopping_flag s then Some (s1\<lparr>acceptor := Closed, waiting := []\<rparr>)
            else Some (s1\<lparr>acceptor := Accepting, workers := workers s1 @ [(c, Reading_message)]\<rparr>))
    | Closed \<Rightarrow> None)"

text \<open>The destructor. A refused connection is logged, like every failed check, and the destructor goes on;
  when the queue is full, \<open>connect\<close> waits.\<close>

definition owner_move :: "connection \<Rightarrow> server_state \<Rightarrow> server_state option" where
  "owner_move trigger s = (case owner s of
      Using \<Rightarrow> Some (s\<lparr>stopping_flag := True, owner := Triggering\<rparr>)
    | Triggering \<Rightarrow>
        if \<not> listening s then Some (s\<lparr>owner := Joining\<rparr>)
        else if length (waiting s) < backlog then Some (s\<lparr>waiting := waiting s @ [trigger], owner := Joining\<rparr>)
        else None
    | Joining \<Rightarrow> (if acceptor s = Closed then Some (s\<lparr>owner := Destroyed\<rparr>) else None)
    | Destroyed \<Rightarrow> None)"

definition client_move :: "connection \<Rightarrow> server_state \<Rightarrow> server_state option" where
  "client_move c s =
     (if listening s \<and> length (waiting s) < backlog then Some (s\<lparr>waiting := waiting s @ [c]\<rparr>) else None)"

text \<open>Worker number \<open>k\<close>: \<open>message\<close> says whether \<open>read_message\<close> returns one. \<open>_server->handle_request\<close> is
  called whether or not the server still exists.\<close>

definition worker_step_at :: "nat \<Rightarrow> bool \<Rightarrow> server_state \<Rightarrow> server_state option" where
  "worker_step_at k message s =
     (if k < length (workers s)
      then (case workers s ! k of
          (c, Reading_message) \<Rightarrow> Some (s\<lparr>workers := (workers s)[k := (c, if message then Handling else Finished)]\<rparr>)
        | (c, Handling) \<Rightarrow> Some (s\<lparr>workers := (workers s)[k := (c, Reading_message)],
            dead_server_called := (dead_server_called s \<or> owner s = Destroyed)\<rparr>)
        | (c, Finished) \<Rightarrow> None)
      else None)"

datatype actor = Acceptor | Owner | Client connection | Work nat bool

fun actor_move :: "connection \<Rightarrow> actor \<Rightarrow> server_state \<Rightarrow> server_state option" where
  "actor_move trigger Acceptor s = acceptor_move s"
| "actor_move trigger Owner s = owner_move trigger s"
| "actor_move trigger (Client c) s = client_move c s"
| "actor_move trigger (Work k message) s = worker_step_at k message s"

text \<open>A turn of a blocked actor changes nothing; a schedule is a list of turns.\<close>

definition turn :: "connection \<Rightarrow> actor \<Rightarrow> server_state \<Rightarrow> server_state" where
  "turn trigger a s = (case actor_move trigger a s of None \<Rightarrow> s | Some s' \<Rightarrow> s')"

definition turns :: "connection \<Rightarrow> actor list \<Rightarrow> server_state \<Rightarrow> server_state" where
  "turns trigger as s = fold (turn trigger) as s"

lemma turns_Nil [simp]: "turns trigger [] s = s"
  by (simp add: turns_def)

lemma turns_Cons [simp]: "turns trigger (a # as) s = turns trigger as (turn trigger a s)"
  by (simp add: turns_def)

lemma turns_append: "turns trigger (as @ bs) s = turns trigger bs (turns trigger as s)"
  by (simp add: turns_def)

lemma backlog_positive: "0 < backlog"
  by (simp add: backlog_def new_SocketServer_def)

text \<open>An invariant of every turn is one of every schedule.\<close>

lemma turns_induct:
  assumes "P s" "\<And>a s. P s \<Longrightarrow> P (turn trigger a s)"
  shows "P (turns trigger as s)"
  using assms(1) by (induction as arbitrary: s) (simp_all add: assms(2))

text \<open>A turn, actor by actor.\<close>

lemma turn_cases:
  obtains (blocked) "turn trigger a s = s" "actor_move trigger a s = None"
  | (moved) s' where "turn trigger a s = s'" "actor_move trigger a s = Some s'"
  by (cases "actor_move trigger a s") (simp_all add: turn_def)

lemmas move_defs = acceptor_move_def owner_move_def client_move_def worker_step_at_def listening_def Let_def

section \<open>What holds throughout\<close>

definition server_inv :: "server_state \<Rightarrow> bool" where
  "server_inv s \<longleftrightarrow>
     (stopping_flag s \<longleftrightarrow> owner s \<noteq> Using) \<and>
     (acceptor s = Closed \<longrightarrow> stopping_flag s) \<and>
     (owner s = Destroyed \<longrightarrow> acceptor s = Closed) \<and>
     (dead_server_called s \<longrightarrow> owner s = Destroyed) \<and>
     run_value (accept_loop (seen s)) = Inr (map (\<lambda>((n, peer), _). (int n, peer)) (workers s), acceptor s = Closed)"

text \<open>One more return of \<open>accept\<close>.\<close>

lemma accept_loop_snoc:
  assumes "snd (accept_loop as) = Inr (ws, False)" "0 \<le> new_socket a" "peer_address a = Some peer"
  shows "snd (accept_loop (as @ [a])) =
    Inr (if stopping_seen a then ws else ws @ [(new_socket a, peer)], stopping_seen a)"
  using assms(1)
proof (induction as arbitrary: ws)
  case Nil
  with assms(2,3) show ?case by simp
next
  case (Cons x xs)
  show ?case
  proof (cases "stopping_seen x \<or> peer_address x = None")
    case True
    with Cons.prems show ?thesis by (auto split: if_splits)
  next
    case False
    then obtain p where p: "peer_address x = Some p" by auto
    with Cons.prems False obtain us where us: "snd (accept_loop xs) = Inr (us, False)" "ws = (new_socket x, p) # us"
      by (cases "snd (accept_loop xs)") (auto simp: snd_bind_Inr snd_bind_Inl)
    with Cons.IH [OF us(1)] p False show ?thesis by (simp add: snd_bind_Inr)
  qed
qed

lemma server_inv_started: "server_inv started_server"
  by (simp add: server_inv_def started_server_def run_value_def)

lemma worker_step_keeps:
  assumes "worker_step_at k message s = Some s'"
  shows "acceptor s' = acceptor s" "owner s' = owner s" "stopping_flag s' = stopping_flag s" "waiting s' = waiting s"
    "seen s' = seen s" "map fst (workers s') = map fst (workers s)"
    "dead_server_called s' \<longrightarrow> dead_server_called s \<or> owner s = Destroyed"
  using assms by (auto simp: worker_step_at_def map_update list_update_same_conv split: if_splits prod.splits worker_point.splits)

lemma server_inv_workers:
  "server_inv s \<longleftrightarrow>
     (stopping_flag s \<longleftrightarrow> owner s \<noteq> Using) \<and> (acceptor s = Closed \<longrightarrow> stopping_flag s) \<and>
     (owner s = Destroyed \<longrightarrow> acceptor s = Closed) \<and> (dead_server_called s \<longrightarrow> owner s = Destroyed) \<and>
     snd (accept_loop (seen s)) = Inr (map (\<lambda>(n, peer). (int n, peer)) (map fst (workers s)), acceptor s = Closed)"
  by (simp add: server_inv_def run_value_def comp_def split_def)

lemma server_inv_turn: "server_inv s \<Longrightarrow> server_inv (turn trigger a s)"
proof (cases rule: turn_cases [of trigger a s])
  case (moved s')
  assume inv: "server_inv s"
  have "server_inv s'"
  proof (cases a)
    case Acceptor
    with moved(2) inv accept_loop_snoc [of "seen s"] show ?thesis
      by (auto simp: server_inv_workers acceptor_move_def Let_def split: accept_point.splits list.splits if_splits)
  next
    case Owner
    with moved(2) inv show ?thesis
      by (auto simp: server_inv_workers owner_move_def split: owner_point.splits if_splits)
  next
    case (Client c)
    with moved(2) inv show ?thesis by (auto simp: server_inv_workers client_move_def split: if_splits)
  next
    case (Work k message)
    with moved(2) inv worker_step_keeps [of k message s s'] show ?thesis
      unfolding server_inv_workers by auto
  qed
  with moved(1) show ?thesis by simp
qed simp

lemma server_inv_turns: "server_inv (turns trigger as started_server)"
  by (rule turns_induct) (simp_all add: server_inv_started server_inv_turn)

section \<open>Schedules that bring a goal nearer\<close>

text \<open>Phases that no turn leaves and that the turns of a script go through: a schedule that contains the
  script as a subsequence reaches the last one.\<close>

locale phased =
  fixes step :: "'a \<Rightarrow> 's \<Rightarrow> 's" and phase :: "nat \<Rightarrow> 's \<Rightarrow> bool" and script :: "'a list"
  assumes kept: "phase n s \<Longrightarrow> phase n (step a s)"
    and advances: "n < length script \<Longrightarrow> phase n s \<Longrightarrow> phase (Suc n) (step (script ! n) s)"
begin

lemma kept_fold: "phase n s \<Longrightarrow> phase n (fold step as s)"
  by (induction as arbitrary: s) (simp_all add: kept)

lemma reaches: "subseq (drop n script) as \<Longrightarrow> n \<le> length script \<Longrightarrow> phase n s \<Longrightarrow> phase (length script) (fold step as s)"
proof (induction as arbitrary: n s)
  case Nil
  then have "drop n script = []" by (cases "drop n script") simp_all
  then have "n = length script" using Nil.prems(2) by simp
  with Nil.prems(3) show ?case by simp
next
  case (Cons a as)
  show ?case
  proof (cases "n < length script")
    case True
    then have d: "drop n script = script ! n # drop (Suc n) script" by (simp add: Cons_nth_drop_Suc)
    show ?thesis
    proof (cases "a = script ! n")
      case True
      with Cons.prems(1) d have "subseq (drop (Suc n) script) as" by simp
      with True Cons.IH [of "Suc n" "step a s"] advances [OF \<open>n < length script\<close> Cons.prems(3)] \<open>n < length script\<close>
      show ?thesis by simp
    next
      case False
      with Cons.prems(1) d have "subseq (drop n script) as" by simp
      with Cons.IH [of n "step a s"] kept [OF Cons.prems(3)] Cons.prems(2) show ?thesis by simp
    qed
  next
    case False
    with Cons.prems(2,3) kept_fold [of n s "a # as"] show ?thesis by simp
  qed
qed

end

section \<open>The destructor of a listening server returns\<close>

definition shutdown_script :: "actor list" where
  "shutdown_script = [Owner, Acceptor, Acceptor, Owner, Owner]"

definition being_stopped :: "server_state \<Rightarrow> bool" where
  "being_stopped s \<longleftrightarrow> stopping_flag s \<and> owner s \<noteq> Using \<and> acceptor s \<noteq> Setup \<and>
     (owner s = Joining \<longrightarrow> acceptor s = Accepting \<longrightarrow> waiting s \<noteq> []) \<and>
     (owner s = Destroyed \<longrightarrow> acceptor s = Closed)"

definition shutdown_phase :: "nat \<Rightarrow> server_state \<Rightarrow> bool" where
  "shutdown_phase n s \<longleftrightarrow> being_stopped s \<and>
     (if n = 0 then True
      else if n = 1 then acceptor s = Accepting \<longrightarrow> waiting s \<noteq> []
      else if n = 2 then acceptor s \<noteq> Accepting
      else if n = 3 then acceptor s = Closed
      else if n = 4 then acceptor s = Closed \<and> owner s \<noteq> Triggering
      else owner s = Destroyed)"

text \<open>What the turns of the two threads do then.\<close>

lemma acceptor_turn:
  assumes "being_stopped s"
  shows "turn trigger Acceptor s = (case acceptor s of
      Accepting \<Rightarrow> (case waiting s of [] \<Rightarrow> s | c # cs \<Rightarrow> s\<lparr>acceptor := Testing c, waiting := cs\<rparr>)
    | Testing c \<Rightarrow> s\<lparr>acceptor := Closed, waiting := [],
        seen := seen s @ [\<lparr>new_socket = int (fst c), peer_address = Some (snd c), stopping_seen = True\<rparr>]\<rparr>
    | _ \<Rightarrow> s)"
  using assms by (auto simp: being_stopped_def turn_def acceptor_move_def Let_def split: accept_point.split list.split)

lemma owner_turn:
  assumes "being_stopped s"
  shows "turn trigger Owner s = (case owner s of
      Triggering \<Rightarrow> if acceptor s = Closed then s\<lparr>owner := Joining\<rparr>
        else if length (waiting s) < backlog then s\<lparr>waiting := waiting s @ [trigger], owner := Joining\<rparr> else s
    | Joining \<Rightarrow> if acceptor s = Closed then s\<lparr>owner := Destroyed\<rparr> else s
    | _ \<Rightarrow> s)"
  using assms by (auto simp: being_stopped_def turn_def owner_move_def listening_def split: owner_point.split)

lemma other_turn:
  assumes "a \<noteq> Acceptor" "a \<noteq> Owner"
  shows "acceptor (turn trigger a s) = acceptor s" "owner (turn trigger a s) = owner s"
    "stopping_flag (turn trigger a s) = stopping_flag s" "waiting s \<noteq> [] \<Longrightarrow> waiting (turn trigger a s) \<noteq> []"
proof -
  have "acceptor (turn trigger a s) = acceptor s \<and> owner (turn trigger a s) = owner s \<and>
    stopping_flag (turn trigger a s) = stopping_flag s \<and> (waiting s \<noteq> [] \<longrightarrow> waiting (turn trigger a s) \<noteq> [])"
  proof (cases rule: turn_cases [of trigger a s])
    case (moved s')
    show ?thesis
    proof (cases a)
      case (Client c)
      with moved(2) have "s' = s\<lparr>waiting := waiting s @ [c]\<rparr>" by (simp add: client_move_def split: if_splits)
      with moved(1) show ?thesis by simp
    next
      case (Work k message)
      with moved(2) worker_step_keeps [of k message s s'] show ?thesis unfolding moved(1) by simp
    qed (use assms in simp_all)
  qed simp
  then show "acceptor (turn trigger a s) = acceptor s" "owner (turn trigger a s) = owner s"
    "stopping_flag (turn trigger a s) = stopping_flag s" "waiting s \<noteq> [] \<Longrightarrow> waiting (turn trigger a s) \<noteq> []"
    by blast+
qed

lemma shutdown_phase_turn:
  assumes "shutdown_phase n s"
  shows "shutdown_phase n (turn trigger a s)"
proof -
  have st: "being_stopped s" using assms by (simp add: shutdown_phase_def)
  consider "a = Acceptor" | "a = Owner" | "a \<noteq> Acceptor" "a \<noteq> Owner" by blast
  then show ?thesis
  proof cases
    case 1
    with assms show ?thesis
      by (cases "acceptor s"; cases "waiting s")
        (simp_all add: acceptor_turn [OF st] shutdown_phase_def being_stopped_def split: if_splits)
  next
    case 2
    with assms show ?thesis
      by (cases "owner s"; cases "acceptor s")
        (simp_all add: owner_turn [OF st] shutdown_phase_def being_stopped_def split: if_splits)
  next
    case 3
    with assms other_turn [OF 3, where s = s] show ?thesis by (auto simp: shutdown_phase_def being_stopped_def)
  qed
qed

lemma shutdown_phase_advances:
  assumes "n < length shutdown_script" "shutdown_phase n s"
  shows "shutdown_phase (Suc n) (turn trigger (shutdown_script ! n) s)"
proof -
  have st: "being_stopped s" using assms(2) by (simp add: shutdown_phase_def)
  note ph = shutdown_phase_def being_stopped_def
  have full: "waiting s \<noteq> []" if "\<not> length (waiting s) < backlog" using that backlog_positive by auto
  consider "n = 0" | "n = 1" | "n = 2" | "n = 3" | "n = 4" using assms(1) unfolding shutdown_script_def list.size by linarith
  then show ?thesis
  proof cases
    case 1
    with assms(2) full show ?thesis
      by (auto simp: shutdown_script_def owner_turn [OF st] ph split: owner_point.splits)
  next
    case 2
    with assms(2) show ?thesis
      by (auto simp: shutdown_script_def acceptor_turn [OF st] ph split: accept_point.splits list.splits)
  next
    case 3
    with assms(2) show ?thesis
      by (auto simp: shutdown_script_def acceptor_turn [OF st] ph split: accept_point.splits list.splits)
  next
    case 4
    with assms(2) show ?thesis
      by (auto simp: shutdown_script_def owner_turn [OF st] ph split: owner_point.splits)
  next
    case 5
    with assms(2) show ?thesis
      by (auto simp: shutdown_script_def owner_turn [OF st] ph split: owner_point.splits)
  qed
qed

interpretation shutdown: phased "turn trigger" shutdown_phase shutdown_script for trigger
  by unfold_locales (simp_all add: shutdown_phase_turn shutdown_phase_advances)

text \<open>The moves of the accepting thread are the loop of LightServer cut at its system calls: after every
  schedule, the workers started so far and whether the thread has ended are what \<open>accept_loop\<close> computes
  from what \<open>accept\<close> returned.\<close>

theorem threads_refine_accept_loop:
  "run_value (accept_loop (seen (turns trigger as started_server))) =
     Inr (map (\<lambda>((n, peer), _). (int n, peer)) (workers (turns trigger as started_server)),
       acceptor (turns trigger as started_server) = Closed)"
  using server_inv_turns by (simp add: server_inv_def)

section \<open>Which connections get a worker\<close>

text \<open>The connections that clients have made in a schedule, in order; the one \<open>accept\<close> has returned and that has
  no worker yet.\<close>

fun arrivals :: "connection \<Rightarrow> actor list \<Rightarrow> server_state \<Rightarrow> connection list" where
  "arrivals trigger [] s = []"
| "arrivals trigger (a # as) s =
     (case a of Client c \<Rightarrow> if client_move c s = None then [] else [c] | _ \<Rightarrow> []) @
     arrivals trigger as (turn trigger a s)"

definition in_hand :: "server_state \<Rightarrow> connection list" where
  "in_hand s = (case acceptor s of Testing c \<Rightarrow> [c] | _ \<Rightarrow> [])"

definition handed_on :: "server_state \<Rightarrow> connection list" where
  "handed_on s = map fst (workers s) @ in_hand s @ waiting s"

text \<open>Nothing takes \<open>_stopping\<close> back, and no worker is started once it is set.\<close>

lemma stopping_turn:
  assumes "stopping_flag s"
  shows "stopping_flag (turn trigger a s)" "map fst (workers (turn trigger a s)) = map fst (workers s)"
proof -
  have "stopping_flag (turn trigger a s) \<and> map fst (workers (turn trigger a s)) = map fst (workers s)"
  proof (cases rule: turn_cases [of trigger a s])
    case (moved s')
    show ?thesis unfolding moved(1)
    proof (cases a)
      case (Work k message)
      with moved(2) assms worker_step_keeps [of k message s s']
      show "stopping_flag s' \<and> map fst (workers s') = map fst (workers s)" by simp
    qed (use moved(2) assms in \<open>auto simp: move_defs split: accept_point.splits owner_point.splits list.splits if_splits\<close>)
  qed (use assms in simp)
  then show "stopping_flag (turn trigger a s)" "map fst (workers (turn trigger a s)) = map fst (workers s)" by simp_all
qed

lemma stopping_turns: "stopping_flag s \<Longrightarrow> map fst (workers (turns trigger bs s)) = map fst (workers s)"
  by (induction bs arbitrary: s) (simp_all add: stopping_turn)

text \<open>While the server is in use, the workers, the connection in hand and the queue are what has arrived.\<close>

lemma handed_on_turn:
  assumes "\<not> stopping_flag s" "\<not> stopping_flag (turn trigger a s)" "server_inv s"
  shows "handed_on (turn trigger a s) = handed_on s @ arrivals trigger [a] s"
proof (cases rule: turn_cases [of trigger a s])
  case blocked
  then show ?thesis by (cases a) simp_all
next
  case (moved s')
  have going: "\<not> stopping_flag s'" using assms(2) moved(1) by simp
  have inv: "stopping_flag s \<longleftrightarrow> owner s \<noteq> Using" using assms(3) by (simp add: server_inv_def)
  have "handed_on s' = handed_on s @ (case a of Client c \<Rightarrow> if client_move c s = None then [] else [c] | _ \<Rightarrow> [])"
  proof (cases a)
    case Acceptor
    with moved(2) assms(1) show ?thesis
      by (auto simp: acceptor_move_def handed_on_def in_hand_def Let_def split: accept_point.splits list.splits)
  next
    case Owner
    with moved(2) assms(1) inv going show ?thesis by (auto simp: owner_move_def split: owner_point.splits)
  next
    case (Client c)
    with moved(2) show ?thesis by (auto simp: client_move_def handed_on_def in_hand_def split: if_splits)
  next
    case (Work k message)
    with moved(2) worker_step_keeps [of k message s s'] show ?thesis by (simp add: handed_on_def in_hand_def)
  qed
  with moved(1) show ?thesis by simp
qed

lemma arrivals_append: "arrivals trigger (as @ bs) s = arrivals trigger as s @ arrivals trigger bs (turns trigger as s)"
  by (induction as arbitrary: s) simp_all

lemma flag_before_turn: "\<not> stopping_flag (turn trigger a s) \<Longrightarrow> \<not> stopping_flag s"
  using stopping_turn(1) by blast

lemma handed_on_turns:
  "server_inv s \<Longrightarrow> \<not> stopping_flag (turns trigger as s) \<Longrightarrow> handed_on (turns trigger as s) = handed_on s @ arrivals trigger as s"
proof (induction as rule: rev_induct)
  case (snoc a as)
  have inv: "server_inv (turns trigger as s)" by (rule turns_induct) (use snoc.prems(1) in \<open>simp_all add: server_inv_turn\<close>)
  from snoc.prems(2) have "\<not> stopping_flag (turn trigger a (turns trigger as s))" by (simp add: turns_append)
  with handed_on_turn [OF flag_before_turn [OF this] this inv] flag_before_turn [OF this] snoc.IH [OF snoc.prems(1)]
  show ?case by (simp add: turns_append arrivals_append del: arrivals.simps)
qed simp

text \<open>Nobody waits before the thread listens.\<close>

lemma nobody_waits_in_setup: "acceptor (turns trigger as started_server) = Setup \<longrightarrow> waiting (turns trigger as started_server) = []"
proof (rule turns_induct [where P = "\<lambda>s. acceptor s = Setup \<longrightarrow> waiting s = []"])
  show "acceptor started_server = Setup \<longrightarrow> waiting started_server = []" by (simp add: started_server_def)
  fix a and s :: server_state assume before: "acceptor s = Setup \<longrightarrow> waiting s = []"
  show "acceptor (turn trigger a s) = Setup \<longrightarrow> waiting (turn trigger a s) = []"
  proof (cases rule: turn_cases [of trigger a s])
    case (moved s')
    have "acceptor s' = Setup \<longrightarrow> waiting s' = []"
    proof (cases a)
      case (Work k message)
      with moved(2) before worker_step_keeps [of k message s s'] show ?thesis by simp
    qed (use moved(2) before in \<open>auto simp: move_defs split: accept_point.splits owner_point.splits list.splits if_splits\<close>)
    with moved(1) show ?thesis by simp
  qed (use before in simp)
qed

text \<open>Left alone, the accepting thread of a server in use gives each waiting connection a worker.\<close>

lemma acceptor_drains:
  assumes "\<not> stopping_flag s" "server_inv s" "acceptor s = Setup \<longrightarrow> waiting s = []"
    "2 * length (waiting s) + length (in_hand s) \<le> k"
  shows "map fst (workers (turns trigger (replicate k Acceptor) s)) = handed_on s"
  using assms
proof (induction k arbitrary: s)
  case 0
  then show ?case by (simp add: handed_on_def)
next
  case (Suc k)
  let ?s = "turn trigger Acceptor s"
  have up: "acceptor s \<noteq> Closed" using Suc.prems(1,2) by (auto simp: server_inv_def)
  have step: "\<not> stopping_flag ?s \<and> 2 * length (waiting ?s) + length (in_hand ?s) \<le> k \<and>
      (acceptor ?s = Setup \<longrightarrow> waiting ?s = [])"
    using Suc.prems(1,3,4) up
    by (cases "acceptor s"; cases "waiting s") (simp_all add: turn_def acceptor_move_def in_hand_def Let_def)
  have "handed_on ?s = handed_on s" using handed_on_turn [of s trigger Acceptor] Suc.prems(1,2) step by simp
  with Suc.IH [of ?s] server_inv_turn [OF Suc.prems(2)] step show ?case by simp
qed

text \<open>C11. The accepting thread starts one worker for each connection that clients make before the server
  is stopped, in the order they are made, and none for a connection that has no worker when it is
  stopped. In every schedule after which the server is still in use, the connections made are those of
  the workers, then the one \<open>accept\<close> has returned and not yet tested, then the queue; the thread has not
  ended; if it is then given two turns for each connection in the queue and one for the one in hand, or
  more, every connection has its worker; but if the destructor sets \<open>_stopping\<close> first, then in whatever
  schedule follows no further worker is started.\<close>

theorem one_worker_per_connection:
  assumes "s = turns trigger as started_server" "owner s = Using"
  shows "arrivals trigger as started_server = map fst (workers s) @ in_hand s @ waiting s \<and> acceptor s \<noteq> Closed \<and>
    (\<forall>k. 2 * length (waiting s) + length (in_hand s) \<le> k \<longrightarrow>
      map fst (workers (turns trigger (replicate k Acceptor) s)) = arrivals trigger as started_server) \<and>
    (\<forall>bs. map fst (workers (turns trigger (Owner # bs) s)) = map fst (workers s))"
proof -
  have inv: "server_inv s" unfolding assms(1) by (rule server_inv_turns)
  with assms(2) have going: "\<not> stopping_flag s" "acceptor s \<noteq> Closed" by (auto simp: server_inv_def)
  have "handed_on s = handed_on started_server @ arrivals trigger as started_server"
    using handed_on_turns [OF server_inv_started] going(1) unfolding assms(1) by blast
  then have here: "arrivals trigger as started_server = handed_on s"
    by (simp add: handed_on_def in_hand_def started_server_def)
  have "map fst (workers (turns trigger (replicate k Acceptor) s)) = handed_on s"
    if "2 * length (waiting s) + length (in_hand s) \<le> k" for k
    using going(1) inv _ that by (rule acceptor_drains) (simp add: assms(1) nobody_waits_in_setup)
  moreover have "turn trigger Owner s = s\<lparr>stopping_flag := True, owner := Triggering\<rparr>"
    using assms(2) by (simp add: turn_def owner_move_def)
  then have "map fst (workers (turns trigger (Owner # bs) s)) = map fst (workers s)" for bs
    by (simp add: stopping_turns)
  ultimately show ?thesis using here going(2) by (simp add: handed_on_def)
qed

theorem one_worker_per_connection_witness:
  "map fst (workers (turns (9, ''127.0.0.1'') (Owner # [Acceptor, Acceptor, Acceptor])
      (turns (9, ''127.0.0.1'') [Acceptor, Client (4, ''b''), Acceptor, Acceptor, Client (5, ''a''), Acceptor] started_server))) =
    [(4, ''b'')] \<and>
   map fst (workers (turns (9, ''127.0.0.1'') (replicate 1 Acceptor)
      (turns (9, ''127.0.0.1'') [Acceptor, Client (4, ''b''), Acceptor, Acceptor, Client (5, ''a''), Acceptor] started_server))) =
    [(4, ''b''), (5, ''a'')]"
proof -
  let ?as = "[Acceptor, Client (4, ''b''), Acceptor, Acceptor, Client (5, ''a''), Acceptor]"
  let ?s = "turns (9, ''127.0.0.1'') ?as started_server"
  note run = started_server_def turn_def move_defs backlog_def new_SocketServer_def
  have s: "owner ?s = Using" "map fst (workers ?s) = [(4, ''b'')]" "waiting ?s = []" "in_hand ?s = [(5, ''a'')]"
    "arrivals (9, ''127.0.0.1'') ?as started_server = [(4, ''b''), (5, ''a'')]"
    by (simp_all add: run in_hand_def)
  note all = one_worker_per_connection [OF refl s(1)]
  have "2 * length (waiting ?s) + length (in_hand ?s) \<le> 1" using s(3,4) by simp
  with all have "map fst (workers (turns (9, ''127.0.0.1'') (replicate 1 Acceptor) ?s)) =
      arrivals (9, ''127.0.0.1'') ?as started_server" by blast
  moreover from all have "map fst (workers (turns (9, ''127.0.0.1'') (Owner # [Acceptor, Acceptor, Acceptor]) ?s)) =
      map fst (workers ?s)" by blast
  ultimately show ?thesis unfolding s by blast
qed

text \<open>C9. The destructor of a server that listens returns: from the state after any schedule in which it
  has set \<open>_stopping\<close> and not yet connected, every schedule that contains, with anything in between, a
  turn of the destructor, two of the accepting thread and two more of the destructor ends with the
  server destroyed, however many clients connect and whatever the workers do. With a full queue of
  waiting clients this includes the case that the destructor's own connection comes too late.\<close>

theorem destructor_returns:
  assumes "s = turns trigger as started_server" "owner s = Triggering" "listening s" "subseq shutdown_script bs"
  shows "owner (turns trigger bs s) = Destroyed"
proof -
  have "server_inv s" unfolding assms(1) by (rule server_inv_turns)
  with assms(2,3) have "shutdown_phase 0 s"
    by (auto simp: shutdown_phase_def being_stopped_def server_inv_def listening_def)
  with shutdown.reaches [of 0 bs s trigger] assms(4) show ?thesis
    by (simp add: turns_def shutdown_phase_def shutdown_script_def)
qed

theorem destructor_returns_witness:
  "owner (turns (9, ''127.0.0.1'') [Owner, Client (5, ''a''), Acceptor, Work 0 True, Acceptor, Acceptor, Owner, Owner]
     (turns (9, ''127.0.0.1'') [Acceptor, Client (4, ''b''), Owner] started_server)) = Destroyed"
proof (rule destructor_returns [OF refl])
  show "subseq shutdown_script [Owner, Client (5, ''a''), Acceptor, Work 0 True, Acceptor, Acceptor, Owner, Owner]"
    by (simp add: shutdown_script_def)
qed (simp_all add: started_server_def turn_def move_defs backlog_def new_SocketServer_def)

text \<open>Nobody wakes the accepting thread.\<close>

definition stuck :: "server_state \<Rightarrow> bool" where
  "stuck s \<longleftrightarrow> owner s = Joining \<and> waiting s = [] \<and> (acceptor s = Setup \<or> acceptor s = Accepting)"

lemma stuck_turn: "stuck s \<Longrightarrow> (\<And>c. a \<noteq> Client c) \<Longrightarrow> stuck (turn trigger a s)"
proof (cases rule: turn_cases [of trigger a s])
  case (moved s')
  assume st: "stuck s" "\<And>c. a \<noteq> Client c"
  show ?thesis
  proof (cases a)
    case (Work k message)
    with moved(2) st(1) worker_step_keeps [of k message s s'] show ?thesis unfolding moved(1) by (simp add: stuck_def)
  qed (use st in \<open>auto simp: stuck_def turn_def acceptor_move_def owner_move_def\<close>)
qed simp

lemma stuck_turns: "stuck s \<Longrightarrow> (\<And>c. Client c \<notin> set as) \<Longrightarrow> stuck (turns trigger as s)"
proof (induction as arbitrary: s)
  case (Cons a as)
  have "stuck (turn trigger a s)" using Cons.prems by (intro stuck_turn) auto
  with Cons.IH Cons.prems(2) show ?case by simp
qed simp

text \<open>C10. A server that is destroyed before its thread listens hangs. The destructor's connection is
  refused, which is only logged, and nothing else wakes \<open>accept\<close>: in every schedule without a client
  the destructor stays at \<open>join\<close> for ever.\<close>

theorem early_destructor_hangs:
  assumes "\<And>c. Client c \<notin> set as"
  shows "owner (turns trigger (Owner # Owner # as) started_server) = Joining"
proof -
  have "stuck (turn trigger Owner (turn trigger Owner started_server))"
    by (simp add: stuck_def turn_def started_server_def owner_move_def listening_def)
  from stuck_turns [OF this assms] show ?thesis by (simp add: stuck_def)
qed

theorem early_destructor_hangs_witness:
  "owner (turns (9, ''127.0.0.1'') (Owner # Owner # [Acceptor, Acceptor, Owner]) started_server) = Joining"
  by (rule early_destructor_hangs) auto

text \<open>The workers are detached and keep the pointer to their server: one that is waiting for a message
  when the server is destroyed calls it afterwards. No worker does so earlier.\<close>

theorem worker_outlives_server:
  "dead_server_called (turns trigger [Acceptor, Client c, Acceptor, Acceptor, Owner, Owner, Acceptor, Acceptor, Owner,
     Work 0 True, Work 0 True] started_server) \<and>
   (dead_server_called (turns trigger as started_server) \<longrightarrow> owner (turns trigger as started_server) = Destroyed)"
  using server_inv_turns [of trigger as]
  by (simp_all add: started_server_def turn_def move_defs backlog_def new_SocketServer_def server_inv_def)

end
