(* ===== verification/ProgramStart.thy ===== *)
theory ProgramStart
  imports UtilInit Storage
begin

text \<open>
  The start of a program, composed: the static objects are initialised, those that register functions, the
  storage engine's among them (math/Storage.cpp), and the globals of the logger (utils/Logging.cpp); then
  \<open>init_main\<close> (utils/Util.cpp) sets up the logger and the process and runs the functions. As the source
  stands the second step is never reached (\<open>logging_init_faults\<close>), so the theorems take the initialisation
  of the logger's globals as an argument and say what happens with the source's and with one that returns.
\<close>

section \<open>The storage engine at the start of a program\<close>

text \<open>The static object \<open>__ini_storage_engine\<close> of math/Storage.cpp: it registers the construction of the
  engine with the greatest \<open>int\<close> as its priority.\<close>

definition ini_storage_engine :: "'f \<Rightarrow> 'f init_state \<Rightarrow> 'f init_state run" where
  "ini_storage_engine singleton st = InitFunction singleton (2 ^ 31 - 1) st"

text \<open>\<open>StorageEngine::singleton\<close>: the engine is constructed by the first call, \<open>None\<close> before it.\<close>

definition StorageEngine_singleton :: "engine option \<Rightarrow> engine \<times> engine option" where
  "StorageEngine_singleton storage =
     (case storage of None \<Rightarrow> (new_engine, Some new_engine) | Some e \<Rightarrow> (e, Some e))"

lemma singleton_is_one_engine:
  "StorageEngine_singleton (snd (StorageEngine_singleton storage)) = StorageEngine_singleton storage"
  by (simp add: StorageEngine_singleton_def split: option.split)

lemma register_list_Nil: "register_list [] = return"
  by (rule ext) simp

lemma register_list_Cons: "register_list ((f, p) # rs) = (\<lambda>st. bind (register_init_function f p st) (register_list rs))"
  by (rule ext) simp

lemma register_list_append: "register_list (rs @ qs) st = bind (register_list rs st) (register_list qs)"
proof (induction rs arbitrary: st)
  case (Cons r rs)
  have "register_list (rs @ qs) = (\<lambda>st. bind (register_list rs st) (register_list qs))" by (rule ext) (rule Cons.IH)
  then show ?case by (cases r) (simp add: bind_assoc)
qed simp

lemma ini_storage_engine_list: "ini_storage_engine singleton = register_init_function singleton (2 ^ 31 - 1)"
  by (rule ext) (simp add: ini_storage_engine_def InitFunction_def)

text \<open>The storage engine is constructed before any other initialisation function runs, in whatever
  order the static objects of the program register their functions, as long as none of them takes the
  greatest priority too; every other function runs once after it.\<close>

theorem storage_engine_first:
  assumes "sorts_by_priority std_sort" "\<forall>(f, p) \<in> set (before @ after). p < 2 ^ 31 - 1"
  shows "\<exists>st calls. run_value (bind (bind (bind (register_list before initial_init_state) (ini_storage_engine singleton))
        (register_list after)) (\<lambda>st. run_init_functions std_sort record_call (st, []))) = Inr (st, singleton # calls) \<and>
      mset calls = mset (map fst (before @ after))"
proof -
  let ?rs = "before @ (singleton, 2 ^ 31 - 1) # after"
  let ?regs = "map (\<lambda>(f, p). (p, f)) ?rs"
  have all: "bind (bind (register_list before st) (ini_storage_engine singleton)) (register_list after) = register_list ?rs st" for st
    unfolding register_list_append register_list_Cons ini_storage_engine_list bind_assoc ..
  have sort: "mset (std_sort ?regs) = mset ?regs" "sorted (map (\<lambda>(p, f). - p) (std_sort ?regs))"
    using assms(1) by (auto simp: sorts_by_priority_def)
  then obtain p f calls where calls: "std_sort ?regs = (p, f) # calls"
    by (cases "std_sort ?regs") auto
  have "(2 ^ 31 - 1, singleton) \<in> set (std_sort ?regs)" using mset_eq_setD [OF sort(1)] by auto
  then have "2 ^ 31 - 1 \<le> p" using sort(2) calls by auto
  moreover have "(p, f) \<in> set ?regs" using mset_eq_setD [OF sort(1)] calls by auto
  moreover have "p < 2 ^ 31 - 1" if "(f, p) \<in> set before \<or> (f, p) \<in> set after" using assms(2) that by auto
  ultimately have pf: "f = singleton" "p = 2 ^ 31 - 1" by auto
  have "mset calls = mset (map (\<lambda>(f, p). (p, f)) (before @ after))" using sort(1) calls pf by simp
  then have "image_mset snd (mset calls) = image_mset snd (mset (map (\<lambda>(f, p). (p, f)) (before @ after)))" by simp
  moreover have "map snd (map (\<lambda>(f, p). (p, f)) (before @ after)) = map fst (before @ after)" by auto
  ultimately have m: "mset (map snd calls) = mset (map fst (before @ after))" by (simp only: mset_map [symmetric])
  have "run_value (bind (register_list ?rs initial_init_state) (\<lambda>st. run_init_functions std_sort record_call (st, []))) =
      Inr (\<lparr>g_initialized = True, g_init_funcs = None, once_done = True\<rparr>, singleton # map snd calls)"
    using calls pf by (simp add: run_value_def snd_bind_Inr [OF register_list_value] run_init_functions_def
        initial_init_state_def call_all_recorded del: call_all.simps)
  with m show ?thesis unfolding all by blast
qed

theorem storage_engine_first_witness:
  "\<exists>st calls. run_value (bind (bind (bind (register_list [(''a'', 0)] initial_init_state) (ini_storage_engine ''storage''))
      (register_list [(''b'', 7)])) (\<lambda>st. run_init_functions (sort_key (\<lambda>(priority, f). - priority)) record_call (st, []))) =
      Inr (st, ''storage'' # calls) \<and> mset calls = mset [''a'', ''b'']"
  using storage_engine_first [OF sort_key_sorts, of "[(''a'', 0)]" "[(''b'', 7)]" "''storage''"] by simp

section \<open>The start of a program\<close>

lemma seed_generators_value:
  "snd (seed_generators now FLAGS_seed p) = Inr (p\<lparr>
     srand_seed := Some (if FLAGS_seed = 0 then ucast now else FLAGS_seed),
     thread_rand_seed := Some (if FLAGS_seed = 0 then uint (ucast now :: 32 word) else sint FLAGS_seed)\<rparr>)"
  by (simp add: seed_generators_def Let_def)

lemma init_main_value:
  assumes "m \<le> 4" "opens_succeed os_open (env ''CC_LOG_LOGDIR'') name"
  shows "\<exists>lg p. g_log_inited lg \<and> flush_zero_mode p \<and> denormals_zero_mode p \<and>
    srand_seed p = Some (if FLAGS_seed = 0 then ucast now else FLAGS_seed) \<and>
    thread_rand_seed p = Some (if FLAGS_seed = 0 then uint (ucast now :: 32 word) else sint FLAGS_seed) \<and>
    snd (init_main os_open env now FLAGS_seed FLAGS_version std_sort call (name # args)
        (fresh_log_state b (int m), new_process, st, s)) =
      (if FLAGS_version then Inl (Exit 0)
       else snd (bind (run_init_functions std_sort call (st, s)) (\<lambda>(st', s'). return (lg, p, st', s'))))"
proof -
  obtain lg where lg: "initialize_log_fds os_open env (fresh_log_state b (int m)) name = return lg" "g_log_inited lg"
    using initialize_log_fds_table [where env = env and os_open = os_open, OF assms] by simp
  let ?p = "set_float_modes new_process\<lparr>srand_seed := Some (if FLAGS_seed = 0 then ucast now else FLAGS_seed),
     thread_rand_seed := Some (if FLAGS_seed = 0 then uint (ucast now :: 32 word) else sint FLAGS_seed)\<rparr>"
  show ?thesis
    by (intro exI [of _ lg] exI [of _ ?p]) (simp add: init_main_def initialize_logging_def lg
      snd_bind_Inr [OF seed_generators_value] print_version_def set_float_modes_def)
qed

text \<open>\<open>init_main\<close> on a process whose static objects have been initialised. In whatever order they
  registered their functions, with any arguments after the name, a level of the logger up to 4 and log files
  that can be opened, \<open>init_main\<close> initialises the logger, sets both floating-point modes, seeds both
  generators with the flag or, when it is 0, with the time, and then constructs the storage engine before
  it calls any other registered function, each of those once. With the version flag it exits with status 0
  before any of them runs.\<close>

theorem program_start:
  assumes "sorts_by_priority std_sort" "\<forall>(f, p) \<in> set (before @ after). p < 2 ^ 31 - 1"
    "m \<le> 4" "opens_succeed os_open (env ''CC_LOG_LOGDIR'') name"
  shows "\<exists>lg p st calls. mset calls = mset (map fst (before @ after)) \<and> g_log_inited lg \<and>
    flush_zero_mode p \<and> denormals_zero_mode p \<and> srand_seed p = Some (if FLAGS_seed = 0 then ucast now else FLAGS_seed) \<and>
    thread_rand_seed p = Some (if FLAGS_seed = 0 then uint (ucast now :: 32 word) else sint FLAGS_seed) \<and>
    run_value (bind (register_list (before @ (singleton, 2 ^ 31 - 1) # after) initial_init_state)
        (\<lambda>st. init_main os_open env now FLAGS_seed FLAGS_version std_sort record_call (name # args)
          (fresh_log_state b (int m), new_process, st, []))) =
      (if FLAGS_version then Inl (Exit 0) else Inr (lg, p, st, singleton # calls))"
proof -
  let ?rs = "before @ (singleton, 2 ^ 31 - 1) # after"
  have all: "bind (bind (register_list before st) (ini_storage_engine singleton)) (register_list after) = register_list ?rs st" for st
    unfolding register_list_append register_list_Cons ini_storage_engine_list bind_assoc ..
  obtain st calls where run: "run_value (bind (register_list ?rs initial_init_state)
        (\<lambda>st. run_init_functions std_sort record_call (st, []))) = Inr (st, singleton # calls)"
      "mset calls = mset (map fst (before @ after))"
    using storage_engine_first [OF assms(1,2), of singleton] unfolding all by blast
  then obtain l st0 where reg: "register_list ?rs initial_init_state = (l, Inr st0)"
      "snd (run_init_functions std_sort record_call (st0, [])) = Inr (st, singleton # calls)"
    unfolding run_value_def by (auto elim: snd_bind_InrE simp: prod_eq_iff)
  obtain lg p where main: "g_log_inited lg" "flush_zero_mode p" "denormals_zero_mode p"
    "srand_seed p = Some (if FLAGS_seed = 0 then ucast now else FLAGS_seed)"
    "thread_rand_seed p = Some (if FLAGS_seed = 0 then uint (ucast now :: 32 word) else sint FLAGS_seed)"
    "snd (init_main os_open env now FLAGS_seed FLAGS_version std_sort record_call (name # args)
        (fresh_log_state b (int m), new_process, st0, [])) =
      (if FLAGS_version then Inl (Exit 0)
       else snd (bind (run_init_functions std_sort record_call (st0, [])) (\<lambda>(st', s'). return (lg, p, st', s'))))"
    using init_main_value [where env = env and os_open = os_open and std_sort = std_sort and call = record_call
      and st = st0 and s = "[]", OF assms(3,4)] by metis
  have "snd (bind (run_init_functions std_sort record_call (st0, [])) (\<lambda>(st', s'). return (lg, p, st', s'))) =
      Inr (lg, p, st, singleton # calls)"
    by (simp add: snd_bind_Inr [OF reg(2)])
  with reg(1) run(2) main show ?thesis
    by (intro exI [of _ lg] exI [of _ p] exI [of _ st] exI [of _ calls]) (simp add: run_value_def snd_bind_Inr)
qed

theorem program_start_witness:
  "\<exists>lg p st calls. mset calls = mset [''a'', ''b''] \<and> srand_seed p = Some 1 \<and> thread_rand_seed p = Some 1 \<and>
    run_value (bind (register_list [(''a'', 0), (''storage'', 2 ^ 31 - 1), (''b'', 7)] initial_init_state)
      (\<lambda>st. init_main (\<lambda>_. 5) (\<lambda>_. None) 0 1 False (sort_key (\<lambda>(priority, f). - priority))
          record_call [''ccml''] (fresh_log_state True (int 0), new_process, st, []))) =
      Inr (lg, p, st, ''storage'' # calls)"
  using program_start [OF sort_key_sorts, of "[(''a'', 0)]" "[(''b'', 7)]" 0 "\<lambda>_. 5" "\<lambda>_. None" "''ccml''" 1 0 "''storage''" False "[]" True]
  by (auto simp: opens_succeed_def)

section \<open>The static objects\<close>

text \<open>The objects with a dynamic initialiser, in the order in which a program initialises them, which
  across files is not specified: one that registers a function with a priority, the storage engine's, and
  the globals of utils/Logging.cpp, which are zero before.\<close>

datatype 'f static_object = Registers 'f int | Registers_engine 'f | Logger_globals

fun init_statics :: "log_state run \<Rightarrow> 'f static_object list \<Rightarrow> log_state \<times> 'f init_state \<Rightarrow> (log_state \<times> 'f init_state) run" where
  "init_statics log_init [] x = return x"
| "init_statics log_init (Registers f priority # objs) (lg, st) =
     bind (InitFunction f priority st) (\<lambda>st'. init_statics log_init objs (lg, st'))"
| "init_statics log_init (Registers_engine f # objs) (lg, st) =
     bind (ini_storage_engine f st) (\<lambda>st'. init_statics log_init objs (lg, st'))"
| "init_statics log_init (Logger_globals # objs) (lg, st) =
     bind log_init (\<lambda>lg'. init_statics log_init objs (lg', st))"

text \<open>The functions they register, but for the storage engine's.\<close>

fun registered :: "'f static_object list \<Rightarrow> ('f \<times> int) list" where
  "registered [] = []"
| "registered (Registers f priority # objs) = (f, priority) # registered objs"
| "registered (Registers_engine f # objs) = registered objs"
| "registered (Logger_globals # objs) = registered objs"

text \<open>An object that does not register the engine, nor a function of the engine's priority.\<close>

fun ordinary :: "'f static_object \<Rightarrow> bool" where
  "ordinary (Registers f priority) = (priority < 2 ^ 31 - 1)"
| "ordinary (Registers_engine f) = False"
| "ordinary Logger_globals = True"

lemma registered_append: "registered (xs @ ys) = registered xs @ registered ys"
  by (induction xs rule: registered.induct) simp_all

lemma ordinary_priorities: "list_all ordinary objs \<Longrightarrow> \<forall>(f, p) \<in> set (registered objs). p < 2 ^ 31 - 1"
  by (induction objs rule: registered.induct) auto

text \<open>What an object does is a list of registrations.\<close>

fun as_registration :: "'f static_object \<Rightarrow> ('f \<times> int) list" where
  "as_registration (Registers f priority) = [(f, priority)]"
| "as_registration (Registers_engine f) = [(f, 2 ^ 31 - 1)]"
| "as_registration Logger_globals = []"

lemma init_statics_return:
  "init_statics (return lg0) objs (lg, st) =
    bind (register_list (concat (map as_registration objs)) st) (\<lambda>st'. return (if Logger_globals \<in> set objs then lg0 else lg, st'))"
proof (induction objs arbitrary: lg st)
  case (Cons ob objs)
  show ?case by (cases ob) (simp_all add: Cons.IH bind_assoc InitFunction_def ini_storage_engine_list)
qed simp

text \<open>An initialisation of the logger's globals that faults ends the program, which has logged nothing.\<close>

lemma init_statics_fail:
  assumes "Logger_globals \<in> set objs" "\<not> g_initialized st"
  shows "init_statics (fail f) objs (lg, st) = fail f"
  using assms
proof (induction objs arbitrary: lg st)
  case (Cons ob objs)
  have "register_init_function g p st =
      return (st\<lparr>g_init_funcs := Some ((case g_init_funcs st of None \<Rightarrow> [] | Some fs \<Rightarrow> fs) @ [(p, g)])\<rparr>)" for g p
    using Cons.prems(2) by (simp add: register_init_function_def Let_def)
  with Cons show ?case by (cases ob) (simp_all add: InitFunction_def ini_storage_engine_list)
qed simp

lemma ordinary_registrations: "list_all ordinary objs \<Longrightarrow> concat (map as_registration objs) = registered objs"
  by (induction objs rule: registered.induct) simp_all

end
