(* ===== verification/Spec2Isabelle.thy ===== *)
theory Spec2Isabelle
  imports Logging StringUtils CommandLine FlagSettings QueuePrograms Worker StackTrace MemoryHandle Message ProtoServer LightServer
    UtilInit MessageReading MatrixMethods MatrixMacros MatrixDoc Regularization VectorPrograms ConcurrentHandles
    ParameterServer Rpc ServerProcess ServerShutdown ProgramStart
begin

text \<open>
  A model of ccml, a small C++ machine-learning framework, and the theorems that say what its code
  does. This theory imports the whole development.

  \<^bold>\<open>The program.\<close> ccml is three layers. \<open>src/src/utils\<close> holds logging with its \<open>CC_CHECK\<close> macros,
  string helpers, the registry and parser of command-line flags, the stack trace of layer names, and
  the start of a program. \<open>src/src/core\<close> holds locks, threads with job queues, thread-local objects,
  and the network: a framed message protocol over a TCP socket, a threaded server, and remote procedure
  calls on top of it. \<open>src/src/math\<close> holds memory (an aligned allocator, a pool over it, the storage
  engine that owns the pool, handles to buffers), vectors on that memory, and matrices with their
  element-wise operators. On top of the RPC server is a parameter server, of which the repository has the
  declarations, the look-ups, a buffer of aligned blocks, and the program that starts it.

  \<^bold>\<open>Conventions\<close> (theory Prelude). A piece of code is a function that returns a \<open>run\<close>: the messages it
  logs and either a fault or a value; \<open>bind\<close> sequences two of them. A fault is undefined behaviour, a
  C++ exception or the end of the process. A failed \<open>CC_CHECK\<close> is not a fault: \<open>cc_check\<close> logs and goes
  on, as the macro does (theorem \<open>fatal_log_continues\<close> in Logging). \<open>size_t\<close> is a 64-bit word, \<open>int\<close> is
  a 32-bit word where its width matters and an \<open>int\<close> elsewhere, a pointer is a 64-bit address. State is
  passed explicitly. A loop that may run for ever is a \<open>partial_function (option)\<close>, where \<open>None\<close> is not
  returning; the theorems about it say that it returns, or that it does not. No fuel is used. Threads
  are interleaved by step relations or by explicit schedules: one step is what the code does while it
  holds a lock, or one access where it holds none.

  \<^bold>\<open>Theories and sources.\<close>
  \<^item> Logging: utils/Logging.h and .cpp. \<open>log_state\<close> is the logger's globals. \<open>log_routing\<close> gives the
    descriptors each message reaches after initialisation; two theorems show that the logger's static
    initialisation faults, which ends every program before \<open>main\<close> (\<open>server_program\<close> below), and that \<open>LOG(FATAL)\<close>
    does not stop the program. The other theories describe what the code does once its logger is initialised.
  \<^item> NumParse and StringUtils: number parsing and printing of the standard library as the sources use
    it, and utils/StringUtils.h and .cpp. \<open>split\<close> is inverted by joining, \<open>to_with_status\<close> by printing.
  \<^item> CommandLine, FlagSettings: utils/CommandLineParser.h and .cpp. A registry per flag type with the flag's storage.
    Which arguments are consumed and what an accepted argument assigns; which texts each type of flag accepts, and that
    the parser exits exactly on an argument whose first flag does not accept its text, or on an unanswered
    call for help; FlagSettings writes settings out as a command line and shows that the parser stores them.
  \<^item> Locks, CoreQueue, QueuePrograms, Worker: core/Locks.h, Queue.h and Thread.h. The contract of a read-write lock is
    the locale \<open>rw_locking\<close>, that of a queue the locale \<open>fifo\<close>. The queue delivers in order and never
    strands a waiting reader; in QueuePrograms threads with programs of calls share one queue, and producers
    and consumers end in every schedule; a worker runs jobs in order and stops; two theorems exhibit its races.
  \<^item> StackTrace: core/ThreadLocal.h and utils/CustomStackTrace.h and .cpp. Thread-local objects live in a
    store of addresses; the trace refines one stack per thread, and \<open>dump\<close> prints and drains them.
  \<^item> Allocator, PoolAllocator, Storage, MemoryHandle, ConcurrentHandles: math/Allocator.h, PoolAllocator,
    Storage and MemoryHandle. The heap is a map from addresses to block sizes, and the address a new block gets is a
    parameter \<open>pick\<close>. The locale \<open>raw_allocator\<close> is the contract of \<open>alloc\<close> and \<open>free\<close>,
    \<open>sized_allocator\<close> that of the pool (a \<open>sublocale\<close> shows that a pool over any raw allocator meets it),
    and \<open>handle_pool\<close> what a program of handles relies on. Live buffers are disjoint, none leaks, and the
    engine makes one allocator under any interleaving of any number of callers, each of which makes at most seven moves. ConcurrentHandles joins the
    two: threads whose handles come from the one pool, with the engine's lock operations interleaved.
  \<^item> Socket, Connection, Message, MessageReading: core/SocketChannel.h and .cpp. The system calls are
    parameters of Socket, whose locale \<open>stream_io\<close> states what a stream socket promises. Connection is such
    a socket: a byte stream each way, with a script that decides how many bytes each call transfers, so that short
    transfers and errors are covered. Message has the frames and the reader of their blocks. Vectored
    transfers are complete; a written message is its encoding, and reading an encoding gives back its
    blocks. The length look-up of the reader is wrong: MessageReading says where the stream stands after
    any number of block reads, and that it never reaches the end of the message.
  \<^item> ProtoServer, LightServer, Rpc: core/ProtoServer.h and .cpp, LightServer.h and .cpp. Dispatch of
    requests, the client, the worker of a connection and the accept loop. Protocol buffers are parameters
    \<open>serialize\<close> and \<open>parse\<close>; what the operating system answers is data. Rpc composes a client and a server:
    a call without buffers of the user's never completes, a call in which both sides add a buffer that
    makes the lengths fit does, and returns the response to its request; the worker then takes the unread
    padding for the next request. ServerProcess has the workers the accept loop started on one process, each
    taking a pass of its loop at a time: padded calls are answered in any order, and plain calls with no blocks, until a plain
    call whose look-up finds a function ends the process for all.
  \<^item> ServerShutdown: the threads of a server as interleaved moves. The accepting thread starts one worker for
    each connection made before the stop and none after; its moves compose to the accept loop. The locale
    \<open>phased\<close> is the argument by which the destructor of a listening server returns in every fair
    schedule; that of a server which does not listen yet hangs.
  \<^item> ReadWriteBuffer, ParameterServer: core/ParameterServer.h and ParameterServerMain.cpp. The buffer deals
    out aligned blocks that do not overlap; the handle checks and the configuration look-ups; which
    servers the program starts, on which address and port.
  \<^item> UtilInit, ProgramStart: utils/Util and Version, and the static objects: those that register functions, math/Storage.cpp's
    among them, and the globals of the logger, in any order. Initialisation functions run once, in order of priority. What
    \<open>init_main\<close> sets in the process is the record \<open>process\<close>; \<open>program_start\<close> says what \<open>init_main\<close> does, and
    \<open>server_program\<close> below goes from the static objects to the servers that \<open>main\<close> waits for. As the source is written
    the program faults before \<open>main\<close>, in the logger's globals (Logging.cpp:39); the theorem says so, and what the
    program does with an initialisation of these globals that returns.
  \<^item> MatrixOps, MatrixShape, MatrixMethods: math/BaseMatrix.h and .cpp. The element-wise operators over the
    reals, with the gradients of activations and losses; the address arithmetic and checks of the
    \<open>apply_*\<close> routines over words; and the methods of \<open>BaseMatrixT\<close>, three of which have loops over
    a store of elements.
  \<^item> MatrixMacros: the macros of math/MatrixOps.h that declare the operator classes, and which operators a
    kernel could call.
  \<^item> Regularization: the L1 and L2 steps are the proximal steps of their penalties, in the operators and, on
    a matrix whose stride is its width, in the loop of \<open>apply_l2\<close> over a store; what the loop does with a wider
    stride, which it ignores.
  \<^item> MatrixDoc: the same operators, and the method \<open>sigmoid\<close> with its own loops, against the comments of math/BaseMatrix.h
    (the \<open>doc_*\<close> definitions) and against each other, with the error the clipping introduces and the methods
    that differ: \<open>tanh\<close>, \<open>sigmoid\<close>, \<open>sub\<close>, \<open>sgd_update\<close> and \<open>logistic_regression_loss_bp\<close>.
  \<^item> Vector, VectorPrograms: math/Vector.h. A vector is a matrix of one row with a shared pointer to a memory handle; the
    control blocks of the shared pointers are a \<open>handle_store\<close> with reference counts. The locale
    \<open>vector_memory\<close> is what a vector needs of the memory below, and its interpretation \<open>cpu_vector\<close> takes it
    from the handles. A resized vector has room; sub-vectors share memory without keeping it alive.
    VectorPrograms runs any sequence of operations on any number of vectors: the counts are exact, no handle
    is used after it was freed, and nothing leaks.

  \<^bold>\<open>How the parts meet.\<close> A worker thread is a \<open>Thread\<close> that reads messages from its channel and hands
  each to the server's \<open>handle_request\<close>, which reads blocks through the same channel; LightServer takes
  ProtoServer's handler, and both rest on the transfers of Connection. The storage engine takes its
  locking from the locale \<open>rw_locking\<close> and its pool from PoolAllocator; the handles take the pool from
  the engine, and the vectors their buffers from the handles. \<open>init_main\<close> initialises the logger and runs
  the registered functions, of which the storage engine's is the first (\<open>program_start\<close>), before \<open>main\<close>
  starts the servers (\<open>server_program\<close> below).

  \<^bold>\<open>Not modelled.\<close> Floating-point rounding and exceptional values: operators are over the reals, and a
  statement at a pole is about the reals only. The kernels of the matrix routines, which are
  commented out in the source. The pure virtual and the undefined methods of \<open>VectorT\<close>, which have no body
  in the repository; the declarations of the parameter server without a body, over types that are not
  declared either. The row and column variants of the matrix routines, which are declared only, GPU
  branches, the request timer, and the numbers the random generators produce. The
  counter of the queue is an unbounded integer, an \<open>int\<close> in the code: queues have fewer than \<open>2 ^ 31\<close> elements. Of the static
  objects only those of ProgramStart matter to it; the flags are arguments. Memory is sequentially consistent. System calls
  do what their documentation says; the scripts and \<open>pick\<close> range over all their answers.
\<close>

section \<open>The parameter server program\<close>

text \<open>The static objects before \<open>main\<close>, in the order \<open>objs\<close> and with the initialisation \<open>log_init\<close> of the
  logger's globals, and \<open>init_main\<close> on a process that has just started.\<close>

definition start_of_program :: "(string \<Rightarrow> int) \<Rightarrow> (string \<rightharpoonup> string) \<Rightarrow> u64 \<Rightarrow> 32 word \<Rightarrow> bool
    \<Rightarrow> ((int \<times> 'f) list \<Rightarrow> (int \<times> 'f) list) \<Rightarrow> 'f static_object list \<Rightarrow> string list \<Rightarrow> log_state run
    \<Rightarrow> (log_state \<times> process \<times> 'f init_state \<times> 'f list) run" where
  "start_of_program os_open env now FLAGS_seed FLAGS_version std_sort objs argv log_init =
     bind (init_statics log_init objs (fresh_log_state False 0, initial_init_state))
       (\<lambda>(lg, st). init_main os_open env now FLAGS_seed FLAGS_version std_sort record_call argv (lg, new_process, st, []))"

lemma start_faults:
  "Logger_globals \<in> set objs \<Longrightarrow>
    start_of_program os_open env now FLAGS_seed FLAGS_version std_sort objs argv (fail f) = fail f"
  by (simp add: start_of_program_def init_statics_fail initial_init_state_def)

lemma start_returns:
  assumes "list_all ordinary (before @ after)" "Logger_globals \<in> set (before @ after)"
  shows "start_of_program os_open env now FLAGS_seed FLAGS_version std_sort (before @ Registers_engine singleton # after) argv (return lg) =
    bind (register_list (registered before @ (singleton, 2 ^ 31 - 1) # registered after) initial_init_state)
      (\<lambda>st. init_main os_open env now FLAGS_seed FLAGS_version std_sort record_call argv (lg, new_process, st, []))"
proof -
  have "concat (map as_registration (before @ Registers_engine singleton # after)) =
      registered before @ (singleton, 2 ^ 31 - 1) # registered after"
    using assms(1) by (simp add: ordinary_registrations)
  moreover have "Logger_globals \<in> set (before @ Registers_engine singleton # after)" using assms(2) by auto
  ultimately show ?thesis unfolding start_of_program_def init_statics_return by (simp add: bind_assoc)
qed


definition sample_start :: "log_state run \<Rightarrow> (log_state \<times> process \<times> string init_state \<times> string list) run" where
  "sample_start = start_of_program (\<lambda>_. 5) (\<lambda>_. None) 0 1 False (sort_key (\<lambda>(priority, f). - priority))
     ([Registers ''a'' 0, Logger_globals] @ Registers_engine ''storage'' # []) [''ccml'']"


end
